(* ===== verification/CP_Prelude.thy ===== *)
theory CP_Prelude
  imports Main "HOL-Library.AList" "HOL-Library.Char_ord" "HOL-Library.List_Lexorder"
begin

text \<open>
  Shared vocabulary of the development: results of fallible Go functions, Go maps with their
  iteration order, Go's sorting, and the string functions of the Go standard library that the
  control plane calls.
\<close>

named_theorems gomap_simps \<open>lookup and key facts of Go maps\<close>
named_theorems result_simps \<open>evaluation of results and of loops that stop at an error\<close>

section \<open>Results\<close>

text \<open>
  A Go function that returns a value and an error is a function into a sum type: \<open>Inl\<close> carries
  the error and \<open>Inr\<close> the value.
\<close>

type_synonym ('e, 'a) res = "'e + 'a"

definition rbind :: "('e, 'a) res \<Rightarrow> ('a \<Rightarrow> ('e, 'b) res) \<Rightarrow> ('e, 'b) res" where
  "rbind r f = (case r of Inl e \<Rightarrow> Inl e | Inr a \<Rightarrow> f a)"

text \<open>A loop over a slice that returns at the first error and collects the values otherwise.\<close>

fun map_res :: "('a \<Rightarrow> ('e, 'b) res) \<Rightarrow> 'a list \<Rightarrow> ('e, 'b list) res" where
  "map_res f [] = Inr []"
| "map_res f (x # xs) =
     rbind (f x) (\<lambda>y. rbind (map_res f xs) (\<lambda>ys. Inr (y # ys)))"

text \<open>A loop over a slice that updates a state and returns at the first error.\<close>

fun fold_res :: "('a \<Rightarrow> 's \<Rightarrow> ('e, 's) res) \<Rightarrow> 'a list \<Rightarrow> 's \<Rightarrow> ('e, 's) res" where
  "fold_res f [] s = Inr s"
| "fold_res f (x # xs) s = rbind (f x s) (fold_res f xs)"

lemma rbind_Inl [simp, result_simps]: "rbind (Inl e) f = Inl e"
  by (simp add: rbind_def)

lemma rbind_Inr [simp, result_simps]: "rbind (Inr a) f = f a"
  by (simp add: rbind_def)

lemma rbind_eq_Inr: "rbind r f = Inr b \<longleftrightarrow> (\<exists>a. r = Inr a \<and> f a = Inr b)"
  by (cases r) simp_all

lemma rbind_eq_Inl: "rbind r f = Inl e \<longleftrightarrow> r = Inl e \<or> (\<exists>a. r = Inr a \<and> f a = Inl e)"
  by (cases r) simp_all

lemma map_res_Inr_length: "map_res f xs = Inr ys \<Longrightarrow> length ys = length xs"
  by (induction xs arbitrary: ys) (auto simp: rbind_eq_Inr)

lemma map_res_Inr_nth:
  "map_res f xs = Inr ys \<Longrightarrow> i < length xs \<Longrightarrow> f (xs ! i) = Inr (ys ! i)"
  by (induction xs arbitrary: ys i) (auto simp: rbind_eq_Inr nth_Cons split: nat.splits)

lemma map_res_Inr_iff: "map_res f xs = Inr ys \<longleftrightarrow> map f xs = map Inr ys"
proof (induction xs arbitrary: ys)
  case Nil
  show ?case by auto
next
  case (Cons x xs)
  show ?case by (auto simp: rbind_eq_Inr Cons.IH)
qed

lemma map_res_total: "(\<And>x. x \<in> set xs \<Longrightarrow> f x = Inr (g x)) \<Longrightarrow> map_res f xs = Inr (map g xs)"
  by (induction xs) simp_all

lemma rbind_total: "\<exists>a. r = Inr a \<Longrightarrow> (\<And>a. \<exists>b. f a = Inr b) \<Longrightarrow> \<exists>b. rbind r f = Inr b"
  by auto

lemma fold_res_total:
  "(\<And>x s. x \<in> set xs \<Longrightarrow> \<exists>s'. f x s = Inr s') \<Longrightarrow> \<exists>s'. fold_res f xs s = Inr s'"
proof (induction xs arbitrary: s)
  case Nil
  show ?case by simp
next
  case (Cons x xs)
  from Cons.prems [of x s] obtain s1 where "f x s = Inr s1" by auto
  with Cons.IH [of s1] Cons.prems show ?case by auto
qed

lemma fold_res_append: "fold_res f (xs @ ys) s = rbind (fold_res f xs s) (fold_res f ys)"
  by (induction xs arbitrary: s) (auto simp: rbind_def split: sum.splits)

section \<open>Go maps\<close>

text \<open>
  A Go map is the association list of its entries in the order in which \<^verbatim>\<open>range\<close> visits them.
  Go leaves that order open; a statement about every such list covers every order. Keys are
  distinct (\<open>gomap_wf\<close>).
\<close>

type_synonym ('k, 'v) gomap = "('k \<times> 'v) list"

abbreviation gm_get :: "('k, 'v) gomap \<Rightarrow> 'k \<Rightarrow> 'v option" where
  "gm_get m k \<equiv> map_of m k"

abbreviation gm_put :: "('k, 'v) gomap \<Rightarrow> 'k \<Rightarrow> 'v \<Rightarrow> ('k, 'v) gomap" where
  "gm_put m k v \<equiv> AList.update k v m"

abbreviation gm_delete :: "('k, 'v) gomap \<Rightarrow> 'k \<Rightarrow> ('k, 'v) gomap" where
  "gm_delete m k \<equiv> AList.delete k m"

abbreviation gm_keys :: "('k, 'v) gomap \<Rightarrow> 'k list" where
  "gm_keys m \<equiv> map fst m"

abbreviation gm_values :: "('k, 'v) gomap \<Rightarrow> 'v list" where
  "gm_values m \<equiv> map snd m"

definition gomap_wf :: "('k, 'v) gomap \<Rightarrow> bool" where
  "gomap_wf m \<longleftrightarrow> distinct (gm_keys m)"

text \<open>\<^verbatim>\<open>maps.Copy(dst, src)\<close>: every entry of \<open>src\<close> is written to \<open>dst\<close>.\<close>

definition gm_copy :: "('k, 'v) gomap \<Rightarrow> ('k, 'v) gomap \<Rightarrow> ('k, 'v) gomap" where
  "gm_copy dst src = fold (\<lambda>(k, v) m. gm_put m k v) src dst"

lemma gomap_wf_Nil [simp, gomap_simps]: "gomap_wf []"
  by (simp add: gomap_wf_def)

lemma gomap_wf_single [simp, gomap_simps]: "gomap_wf [(k, v)]"
  by (simp add: gomap_wf_def)

lemma gomap_wf_put [simp, gomap_simps]: "gomap_wf m \<Longrightarrow> gomap_wf (gm_put m k v)"
  by (simp add: gomap_wf_def distinct_update)

lemma gomap_wf_delete [simp, gomap_simps]: "gomap_wf m \<Longrightarrow> gomap_wf (gm_delete m k)"
  by (simp add: gomap_wf_def distinct_delete)

lemma gm_get_put [simp, gomap_simps]:
  "gm_get (gm_put m k v) k' = (if k' = k then Some v else gm_get m k')"
  by (simp add: update_conv')

lemma gm_get_delete [simp, gomap_simps]:
  "gm_get (gm_delete m k) k' = (if k' = k then None else gm_get m k')"
  by (simp add: delete_conv')

lemma gm_get_iff_mem: "gomap_wf m \<Longrightarrow> gm_get m k = Some v \<longleftrightarrow> (k, v) \<in> set m"
  by (auto simp: gomap_wf_def map_of_eq_Some_iff)

lemma gm_key_iff: "k \<in> set (gm_keys m) \<longleftrightarrow> (\<exists>v. gm_get m k = Some v)"
proof -
  have "k \<in> set (gm_keys m) \<longleftrightarrow> gm_get m k \<noteq> None"
    by (simp add: map_of_eq_None_iff)
  then show ?thesis by simp
qed

lemma gm_value_iff: "gomap_wf m \<Longrightarrow> v \<in> set (gm_values m) \<longleftrightarrow> (\<exists>k. gm_get m k = Some v)"
  by (auto simp: gm_get_iff_mem) force

lemma gomap_wf_copy [simp, gomap_simps]: "gomap_wf dst \<Longrightarrow> gomap_wf (gm_copy dst src)"
  unfolding gm_copy_def by (induction src arbitrary: dst) auto

lemma gm_get_copy [simp, gomap_simps]:
  assumes "gomap_wf src"
  shows "gm_get (gm_copy dst src) k =
    (case gm_get src k of Some v \<Rightarrow> Some v | None \<Rightarrow> gm_get dst k)"
  using assms
proof (induction src arbitrary: dst)
  case Nil
  show ?case by (simp add: gm_copy_def)
next
  case (Cons e src)
  obtain k0 v0 where e: "e = (k0, v0)" by (cases e)
  from Cons.prems e have wf: "gomap_wf src" and "k0 \<notin> set (gm_keys src)"
    by (simp_all add: gomap_wf_def)
  then have none: "gm_get src k0 = None" by (simp add: map_of_eq_None_iff)
  have "gm_get (gm_copy dst (e # src)) k = gm_get (gm_copy (gm_put dst k0 v0) src) k"
    by (simp add: gm_copy_def e)
  also have "\<dots> = (case gm_get src k of Some v \<Rightarrow> Some v | None \<Rightarrow> gm_get (gm_put dst k0 v0) k)"
    by (rule Cons.IH [OF wf])
  finally show ?case using none by (auto simp: e split: option.splits)
qed

lemma gomap_wf_map_snd [simp, gomap_simps]:
  "gomap_wf (map (\<lambda>(k, v). (k, f k v)) m) = gomap_wf m"
  by (simp add: gomap_wf_def case_prod_beta comp_def)

lemma gm_get_map_snd [simp, gomap_simps]:
  "gm_get (map (\<lambda>(k, v). (k, f k v)) m) k = map_option (f k) (gm_get m k)"
  by (induction m) auto

lemma gomap_wf_filter [simp, gomap_simps]: "gomap_wf m \<Longrightarrow> gomap_wf (filter P m)"
  by (auto simp: gomap_wf_def distinct_map inj_on_subset)

lemma gm_get_filter:
  assumes "gomap_wf m"
  shows "gm_get (filter P m) k =
    (case gm_get m k of Some v \<Rightarrow> if P (k, v) then Some v else None | None \<Rightarrow> None)"
proof (cases "gm_get m k")
  case None
  then have "k \<notin> fst ` set m" by (simp add: map_of_eq_None_iff)
  then have "k \<notin> fst ` set (filter P m)" by auto
  then have "gm_get (filter P m) k = None" by (simp only: map_of_eq_None_iff not_False_eq_True)
  with None show ?thesis by simp
next
  case (Some v)
  with assms have mem: "(k, v) \<in> set m" by (simp add: gm_get_iff_mem)
  show ?thesis
  proof (cases "P (k, v)")
    case True
    with mem have "(k, v) \<in> set (filter P m)" by simp
    with assms have "gm_get (filter P m) k = Some v" by (simp add: gm_get_iff_mem)
    with Some True show ?thesis by simp
  next
    case False
    have "gm_get (filter P m) k = None"
    proof (rule ccontr)
      assume "gm_get (filter P m) k \<noteq> None"
      then obtain w where "gm_get (filter P m) k = Some w" by auto
      with assms have "(k, w) \<in> set (filter P m)" by (simp add: gm_get_iff_mem)
      then have "(k, w) \<in> set m" and "P (k, w)" by auto
      with assms mem have "w = v"
        using gm_get_iff_mem [OF assms] by (metis option.inject)
      with \<open>P (k, w)\<close> False show False by simp
    qed
    with Some False show ?thesis by simp
  qed
qed

section \<open>Sorting\<close>

text \<open>
  \<^verbatim>\<open>slices.SortFunc\<close> and \<^verbatim>\<open>slices.SortStableFunc\<close>: a stable insertion sort by a three-way
  comparison. On keys that the comparison separates, every sorting algorithm gives this list.
\<close>

fun insort_func :: "('a \<Rightarrow> 'a \<Rightarrow> int) \<Rightarrow> 'a \<Rightarrow> 'a list \<Rightarrow> 'a list" where
  "insort_func c x [] = [x]"
| "insort_func c x (y # ys) = (if c x y \<le> 0 then x # y # ys else y # insort_func c x ys)"

definition sort_func :: "('a \<Rightarrow> 'a \<Rightarrow> int) \<Rightarrow> 'a list \<Rightarrow> 'a list" where
  "sort_func c xs = foldr (insort_func c) xs []"

text \<open>\<^verbatim>\<open>cmp.Compare\<close> and \<^verbatim>\<open>strings.Compare\<close> on a linear order.\<close>

definition go_compare :: "'a::linorder \<Rightarrow> 'a \<Rightarrow> int" where
  "go_compare a b = (if a < b then -1 else if a = b then 0 else 1)"

lemma sort_func_Nil [simp]: "sort_func c [] = []"
  by (simp add: sort_func_def)

lemma sort_func_Cons [simp]: "sort_func c (x # xs) = insort_func c x (sort_func c xs)"
  by (simp add: sort_func_def)

lemma set_insort_func [simp]: "set (insort_func c x xs) = insert x (set xs)"
  by (induction xs) auto

lemma set_sort_func [simp]: "set (sort_func c xs) = set xs"
  by (induction xs) auto

lemma length_insort_func [simp]: "length (insort_func c x xs) = Suc (length xs)"
  by (induction xs) auto

lemma length_sort_func [simp]: "length (sort_func c xs) = length xs"
  by (induction xs) auto

lemma distinct_insort_func: "distinct (insort_func c x xs) \<longleftrightarrow> x \<notin> set xs \<and> distinct xs"
  by (induction xs) auto

lemma distinct_sort_func [simp]: "distinct (sort_func c xs) \<longleftrightarrow> distinct xs"
  by (induction xs) (auto simp: distinct_insort_func)

text \<open>A comparison that orders a type linearly: the order it induces is total and transitive.\<close>

definition compare_total :: "('a \<Rightarrow> 'a \<Rightarrow> int) \<Rightarrow> bool" where
  "compare_total c \<longleftrightarrow>
     (\<forall>x y. c x y \<le> 0 \<or> c y x \<le> 0) \<and> (\<forall>x y z. c x y \<le> 0 \<longrightarrow> c y z \<le> 0 \<longrightarrow> c x z \<le> 0)"

lemma sorted_insort_func:
  assumes "compare_total c" and "sorted_wrt (\<lambda>a b. c a b \<le> 0) xs"
  shows "sorted_wrt (\<lambda>a b. c a b \<le> 0) (insort_func c x xs)"
  using assms(2)
proof (induction xs)
  case Nil
  show ?case by simp
next
  case (Cons y ys)
  show ?case
  proof (cases "c x y \<le> 0")
    case True
    with Cons.prems assms(1) show ?thesis by (auto simp: compare_total_def)
  next
    case False
    with assms(1) have "c y x \<le> 0" unfolding compare_total_def by blast
    with False Cons show ?thesis by auto
  qed
qed

lemma sorted_sort_func:
  "compare_total c \<Longrightarrow> sorted_wrt (\<lambda>a b. c a b \<le> 0) (sort_func c xs)"
  by (induction xs) (simp_all add: sorted_insort_func)

lemma go_compare_le_0 [simp]: "go_compare a b \<le> 0 \<longleftrightarrow> a \<le> b"
  by (auto simp: go_compare_def)

lemma go_compare_eq_0 [simp]: "go_compare a b = 0 \<longleftrightarrow> a = b"
  by (auto simp: go_compare_def)

lemma compare_total_go_compare [simp]: "compare_total go_compare"
  by (auto simp: compare_total_def)

section \<open>Strings\<close>

text \<open>\<^verbatim>\<open>strings.HasPrefix\<close> and \<^verbatim>\<open>strings.HasSuffix\<close>.\<close>

definition has_prefix :: "string \<Rightarrow> string \<Rightarrow> bool" where
  "has_prefix s p \<longleftrightarrow> take (length p) s = p"

definition has_suffix :: "string \<Rightarrow> string \<Rightarrow> bool" where
  "has_suffix s p \<longleftrightarrow> has_prefix (rev s) (rev p)"

text \<open>\<^verbatim>\<open>strings.Split(s, sep)\<close> for a one-byte separator.\<close>

fun go_split :: "char \<Rightarrow> string \<Rightarrow> string list" where
  "go_split c [] = [[]]"
| "go_split c (x # xs) =
     (if x = c then [] # go_split c xs
      else case go_split c xs of [] \<Rightarrow> [[x]] | p # ps \<Rightarrow> (x # p) # ps)"

text \<open>\<^verbatim>\<open>strings.Join(elems, sep)\<close>.\<close>

fun go_join :: "string list \<Rightarrow> string \<Rightarrow> string" where
  "go_join [] sep = []"
| "go_join [x] sep = x"
| "go_join (x # y # ys) sep = x @ sep @ go_join (y # ys) sep"

lemma has_prefix_iff: "has_prefix s p \<longleftrightarrow> (\<exists>t. s = p @ t)"
  by (auto simp: has_prefix_def) (metis append_take_drop_id)

lemma has_prefix_append [simp]: "has_prefix (p @ t) p"
  by (simp add: has_prefix_def)

lemma has_suffix_iff: "has_suffix s p \<longleftrightarrow> (\<exists>t. s = t @ p)"
  unfolding has_suffix_def has_prefix_iff by (metis rev_append rev_rev_ident)

lemma go_split_nonempty [simp]: "go_split c s \<noteq> []"
  by (cases s) (auto split: list.splits)

lemma go_split_no_sep: "c \<notin> set s \<Longrightarrow> go_split c s = [s]"
  by (induction s) auto

lemma go_split_append:
  "c \<notin> set s \<Longrightarrow> go_split c (s @ c # t) = s # go_split c t"
  by (induction s) auto

lemma go_split_join:
  "xs \<noteq> [] \<Longrightarrow> \<forall>x\<in>set xs. c \<notin> set x \<Longrightarrow> go_split c (go_join xs [c]) = xs"
proof (induction xs "[c]" rule: go_join.induct)
  case 1
  then show ?case by simp
next
  case (2 x)
  then show ?case by (simp add: go_split_no_sep)
next
  case (3 x y ys)
  then show ?case by (simp add: go_split_append)
qed

text \<open>\<^verbatim>\<open>strconv.FormatUint(n, 10)\<close>: decimal digits, most significant first.\<close>

definition digit_char :: "nat \<Rightarrow> char" where
  "digit_char d = char_of (48 + d)"

fun format_uint :: "nat \<Rightarrow> string" where
  "format_uint n =
     (if n < 10 then [digit_char n] else format_uint (n div 10) @ [digit_char (n mod 10)])"

declare format_uint.simps [simp del]

definition is_digit :: "char \<Rightarrow> bool" where
  "is_digit c \<longleftrightarrow> 48 \<le> (of_char c :: nat) \<and> (of_char c :: nat) \<le> 57"

text \<open>The value of a string of decimal digits, as \<^verbatim>\<open>strconv.ParseUint\<close> accumulates it.\<close>

definition digits_value :: "string \<Rightarrow> nat" where
  "digits_value s = foldl (\<lambda>n c. 10 * n + (of_char c - 48)) 0 s"

lemma of_char_digit_char: "d < 10 \<Longrightarrow> (of_char (digit_char d) :: nat) = 48 + d"
  by (simp add: digit_char_def)

lemma is_digit_digit_char: "d < 10 \<Longrightarrow> is_digit (digit_char d)"
  by (simp add: is_digit_def of_char_digit_char)

lemma format_uint_digits: "list_all is_digit (format_uint n)"
proof (induction n rule: format_uint.induct)
  case (1 n)
  show ?case
    using 1 by (subst format_uint.simps) (auto simp: is_digit_digit_char)
qed

lemma format_uint_nonempty [simp]: "format_uint n \<noteq> []"
  by (subst format_uint.simps) simp

lemma digits_value_format_uint [simp]: "digits_value (format_uint n) = n"
proof (induction n rule: format_uint.induct)
  case (1 n)
  show ?case
  proof (cases "n < 10")
    case True
    then show ?thesis
      by (subst format_uint.simps) (simp add: digits_value_def of_char_digit_char)
  next
    case False
    then have "digits_value (format_uint n) = 10 * digits_value (format_uint (n div 10)) + n mod 10"
      by (subst format_uint.simps) (simp add: digits_value_def of_char_digit_char)
    with 1 False show ?thesis by simp
  qed
qed

end
