(* ===== verification/Ds_Set.thy ===== *)
theory Ds_Set
  imports CP_Prelude
begin

text \<open>
  The generic set of \<^verbatim>\<open>server/internal/ds/set.go\<close>: \<^verbatim>\<open>type Set[T comparable] map[T]bool\<close>. The
  operations are translated one by one; \<open>set_abs\<close> reads the mathematical set out of the Go map
  and the locale \<open>go_set\<close> states what the other packages rely on.
\<close>

type_synonym 'a dset = "('a, bool) gomap"

section \<open>Operations\<close>

text \<open>\<^verbatim>\<open>s[element] = true\<close> for every argument of the variadic \<^verbatim>\<open>Add\<close>.\<close>

definition Set_Add :: "'a dset \<Rightarrow> 'a list \<Rightarrow> 'a dset" where
  "Set_Add s elements = fold (\<lambda>element m. gm_put m element True) elements s"

definition NewSet :: "'a list \<Rightarrow> 'a dset" where
  "NewSet elements = fold (\<lambda>element m. Set_Add m [element]) elements []"

definition Set_Remove :: "'a dset \<Rightarrow> 'a \<Rightarrow> 'a dset" where
  "Set_Remove s element = gm_delete s element"

text \<open>\<^verbatim>\<open>return s[element]\<close>: the zero value \<^verbatim>\<open>false\<close> for a missing key.\<close>

definition Set_Has :: "'a dset \<Rightarrow> 'a \<Rightarrow> bool" where
  "Set_Has s element = (case gm_get s element of Some b \<Rightarrow> b | None \<Rightarrow> False)"

text \<open>\<^verbatim>\<open>for element := range s { if p(element) { acc.Add(element) } }\<close>\<close>

definition add_where :: "('a \<Rightarrow> bool) \<Rightarrow> 'a dset \<Rightarrow> 'a dset \<Rightarrow> 'a dset" where
  "add_where p s acc =
     fold (\<lambda>element m. if p element then Set_Add m [element] else m) (gm_keys s) acc"

definition Set_Intersection :: "'a dset \<Rightarrow> 'a dset \<Rightarrow> 'a dset" where
  "Set_Intersection s o' = add_where (Set_Has s) o' (add_where (Set_Has o') s [])"

definition Set_Union :: "'a dset \<Rightarrow> 'a dset \<Rightarrow> 'a dset" where
  "Set_Union s o' = add_where (\<lambda>_. True) o' (add_where (\<lambda>_. True) s [])"

definition Set_Difference :: "'a dset \<Rightarrow> 'a dset \<Rightarrow> 'a dset" where
  "Set_Difference s o' = add_where (\<lambda>element. \<not> Set_Has o' element) s []"

definition Set_SymmetricDifference :: "'a dset \<Rightarrow> 'a dset \<Rightarrow> 'a dset" where
  "Set_SymmetricDifference s o' = Set_Union (Set_Difference s o') (Set_Difference o' s)"

definition Set_Size :: "'a dset \<Rightarrow> nat" where
  "Set_Size s = length s"

definition Set_Empty :: "'a dset \<Rightarrow> bool" where
  "Set_Empty s \<longleftrightarrow> Set_Size s = 0"

definition Set_Equal :: "'a dset \<Rightarrow> 'a dset \<Rightarrow> bool" where
  "Set_Equal s o' =
     (if Set_Size s \<noteq> Set_Size o' then False
      else list_all (Set_Has o') (gm_keys s))"

definition Set_ToSlice :: "'a dset \<Rightarrow> 'a list" where
  "Set_ToSlice s = gm_keys s"

definition Set_ToSortedSlice :: "'a dset \<Rightarrow> ('a \<Rightarrow> 'a \<Rightarrow> int) \<Rightarrow> 'a list" where
  "Set_ToSortedSlice s c = sort_func c (Set_ToSlice s)"

definition SetDifference :: "'a list \<Rightarrow> 'a list \<Rightarrow> 'a dset" where
  "SetDifference a b = Set_Difference (NewSet a) (NewSet b)"

definition SetSymmetricDifference :: "'a list \<Rightarrow> 'a list \<Rightarrow> 'a dset" where
  "SetSymmetricDifference a b = Set_SymmetricDifference (NewSet a) (NewSet b)"

text \<open>The builder loop of \<^verbatim>\<open>SetToString\<close>: a separator after every element but the last.\<close>

fun write_elements :: "int \<Rightarrow> int \<Rightarrow> string list \<Rightarrow> string" where
  "write_elements lastIdx i [] = []"
| "write_elements lastIdx i (element # es) =
     element @ (if i < lastIdx then '', '' else []) @ write_elements lastIdx (i + 1) es"

definition SetToString :: "string dset \<Rightarrow> string" where
  "SetToString s =
     write_elements (int (Set_Size s) - 1) 0 (Set_ToSortedSlice s go_compare)"

section \<open>Representation invariant and abstraction\<close>

text \<open>Every value the operations write is \<^verbatim>\<open>true\<close>.\<close>

definition set_wf :: "'a dset \<Rightarrow> bool" where
  "set_wf s \<longleftrightarrow> gomap_wf s \<and> list_all id (gm_values s)"

definition set_abs :: "'a dset \<Rightarrow> 'a set" where
  "set_abs s = set (gm_keys s)"

lemma set_wf_Nil [simp]: "set_wf []"
  by (simp add: set_wf_def)

lemma set_abs_Nil [simp]: "set_abs [] = {}"
  by (simp add: set_abs_def)

lemma Set_Has_iff: "set_wf s \<Longrightarrow> Set_Has s x \<longleftrightarrow> x \<in> set_abs s"
  by (auto simp: set_wf_def set_abs_def Set_Has_def list_all_iff gm_key_iff gm_get_iff_mem
        map_of_eq_None_iff split: option.splits) force+

lemma set_wf_put: "set_wf s \<Longrightarrow> set_wf (gm_put s x True)"
proof -
  assume "set_wf s"
  then have wf: "gomap_wf s" and t: "\<forall>e\<in>set s. snd e"
    by (auto simp: set_wf_def list_all_iff)
  have "set (gm_put s x True) \<subseteq> insert (x, True) (set s)"
    by (induction s) auto
  with t have "\<forall>e\<in>set (gm_put s x True). snd e" by fastforce
  with wf show ?thesis by (simp add: set_wf_def list_all_iff)
qed

lemma set_abs_put [simp]: "set_abs (gm_put s x v) = insert x (set_abs s)"
  by (simp add: set_abs_def update_keys) (induction s; auto)

lemma set_wf_Add [simp]: "set_wf s \<Longrightarrow> set_wf (Set_Add s xs)"
  unfolding Set_Add_def by (induction xs arbitrary: s) (simp_all add: set_wf_put)

lemma set_abs_Add [simp]: "set_abs (Set_Add s xs) = set_abs s \<union> set xs"
  unfolding Set_Add_def by (induction xs arbitrary: s) auto

lemma set_wf_fold_Add: "set_wf s \<Longrightarrow> set_wf (fold (\<lambda>x m. if p x then Set_Add m [x] else m) xs s)"
  by (induction xs arbitrary: s) auto

lemma set_abs_fold_Add:
  "set_abs (fold (\<lambda>x m. if p x then Set_Add m [x] else m) xs s) = set_abs s \<union> {x \<in> set xs. p x}"
  by (induction xs arbitrary: s) auto

lemma set_wf_NewSet [simp]: "set_wf (NewSet xs)"
  using set_wf_fold_Add [where p = "\<lambda>_. True" and s = "[]" and xs = xs] by (simp add: NewSet_def)

lemma set_abs_NewSet [simp]: "set_abs (NewSet xs) = set xs"
  using set_abs_fold_Add [where p = "\<lambda>_. True" and s = "[]" and xs = xs] by (simp add: NewSet_def)

lemma set_wf_Remove [simp]: "set_wf s \<Longrightarrow> set_wf (Set_Remove s x)"
  by (auto simp: set_wf_def Set_Remove_def list_all_iff AList.delete_eq)

lemma set_abs_Remove [simp]: "set_abs (Set_Remove s x) = set_abs s - {x}"
  by (auto simp: set_abs_def Set_Remove_def delete_keys)

lemma set_wf_add_where [simp]: "set_wf acc \<Longrightarrow> set_wf (add_where p s acc)"
  by (simp add: add_where_def set_wf_fold_Add)

lemma set_abs_add_where [simp]:
  "set_abs (add_where p s acc) = set_abs acc \<union> {x \<in> set_abs s. p x}"
  by (simp add: add_where_def set_abs_fold_Add) (simp add: set_abs_def)

lemma Set_Intersection_abs [simp]:
  "set_wf s \<Longrightarrow> set_wf t \<Longrightarrow> set_abs (Set_Intersection s t) = set_abs s \<inter> set_abs t"
  by (auto simp: Set_Intersection_def Set_Has_iff)

lemma Set_Union_abs [simp]: "set_abs (Set_Union s t) = set_abs s \<union> set_abs t"
  by (auto simp: Set_Union_def)

lemma Set_Difference_abs [simp]:
  "set_wf t \<Longrightarrow> set_abs (Set_Difference s t) = set_abs s - set_abs t"
  by (auto simp: Set_Difference_def Set_Has_iff)

lemma set_wf_binary [simp]:
  "set_wf (Set_Intersection s t)" "set_wf (Set_Union s t)" "set_wf (Set_Difference s t)"
  "set_wf (Set_SymmetricDifference s t)"
  by (simp_all add: Set_Intersection_def Set_Union_def Set_Difference_def
        Set_SymmetricDifference_def)

lemma Set_SymmetricDifference_abs [simp]:
  "set_wf s \<Longrightarrow> set_wf t \<Longrightarrow>
   set_abs (Set_SymmetricDifference s t) = (set_abs s - set_abs t) \<union> (set_abs t - set_abs s)"
  by (simp add: Set_SymmetricDifference_def)

lemma Set_Size_card: "set_wf s \<Longrightarrow> Set_Size s = card (set_abs s)"
proof -
  assume "set_wf s"
  then have "distinct (gm_keys s)" by (simp add: set_wf_def gomap_wf_def)
  then have "card (set (gm_keys s)) = length (gm_keys s)" by (rule distinct_card)
  then show ?thesis by (simp add: Set_Size_def set_abs_def)
qed

lemma finite_set_abs [simp]: "finite (set_abs s)"
  by (simp add: set_abs_def)

section \<open>The interface other packages use\<close>

text \<open>
  What a client of the package relies on: a set built by \<^verbatim>\<open>NewSet\<close> and \<^verbatim>\<open>Add\<close> answers \<^verbatim>\<open>Has\<close> for
  exactly the elements that were put in.
\<close>

locale go_set =
  fixes new :: "'a list \<Rightarrow> 's"
    and add :: "'s \<Rightarrow> 'a list \<Rightarrow> 's"
    and has :: "'s \<Rightarrow> 'a \<Rightarrow> bool"
    and inv :: "'s \<Rightarrow> bool"
  assumes inv_new: "inv (new xs)"
    and inv_add: "inv s \<Longrightarrow> inv (add s xs)"
    and has_new: "has (new xs) x \<longleftrightarrow> x \<in> set xs"
    and has_add: "inv s \<Longrightarrow> has (add s xs) x \<longleftrightarrow> has s x \<or> x \<in> set xs"
begin

lemma inv_add_fold: "inv s \<Longrightarrow> inv (fold (\<lambda>x s. add s [f x]) ys s)"
  by (induction ys arbitrary: s) (simp_all add: inv_add)

lemma has_add_fold:
  "inv s \<Longrightarrow> has (fold (\<lambda>x s. add s [f x]) ys s) z \<longleftrightarrow> has s z \<or> z \<in> f ` set ys"
proof (induction ys arbitrary: s)
  case Nil
  show ?case by simp
next
  case (Cons y ys)
  then show ?case by (auto simp: inv_add has_add)
qed

end

interpretation dset: go_set NewSet Set_Add Set_Has set_wf
  by unfold_locales (auto simp: Set_Has_iff)

section \<open>Printing\<close>

lemma write_elements_join:
  "lastIdx = i + int (length es) - 1 \<Longrightarrow> write_elements lastIdx i es = go_join es '', ''"
proof (induction es "'', ''" arbitrary: i rule: go_join.induct)
  case 1
  show ?case by simp
next
  case (2 x)
  then show ?case by simp
next
  case (3 x y ys)
  then have "write_elements lastIdx (i + 1) (y # ys) = go_join (y # ys) '', ''"
    by (intro 3(1)) simp
  with 3(2) show ?case by simp
qed

lemma SetToString_join:
  "SetToString s = go_join (sort_func go_compare (gm_keys s)) '', ''"
  unfolding SetToString_def Set_ToSortedSlice_def Set_ToSlice_def
  by (rule write_elements_join) (simp add: Set_Size_def)

lemma sort_func_go_compare: "sort_func go_compare xs = sort xs"
proof -
  have ins: "insort_func go_compare x ys = insort x ys" for x and ys :: "'a list"
    by (induction ys) simp_all
  show ?thesis by (induction xs) (simp_all add: ins)
qed

lemma Set_Equal_iff:
  assumes "set_wf s" and "set_wf t"
  shows "Set_Equal s t \<longleftrightarrow> set_abs s = set_abs t"
proof
  assume "Set_Equal s t"
  then have "card (set_abs s) = card (set_abs t)" and "set_abs s \<subseteq> set_abs t"
    using assms by (auto simp: Set_Equal_def Set_Size_card Set_Has_iff list_all_iff set_abs_def
        split: if_splits)
  then show "set_abs s = set_abs t" by (simp add: card_subset_eq)
next
  assume eq: "set_abs s = set_abs t"
  then have "\<forall>x\<in>set (gm_keys s). x \<in> set_abs t" by (simp only: set_abs_def) simp
  with assms eq show "Set_Equal s t"
    by (simp add: Set_Equal_def Set_Size_card Set_Has_iff list_all_iff)
qed

text \<open>
  The set operations of \<^verbatim>\<open>ds.Set\<close> refine the mathematical ones: on well-formed sets every
  binary operation computes its set-theoretic counterpart and a well-formed set, \<^verbatim>\<open>Has\<close> is
  membership, \<^verbatim>\<open>Size\<close> is the cardinality and \<^verbatim>\<open>Equal\<close> is equality of sets.
\<close>
theorem set_operations_refine:
  assumes "set_wf s" and "set_wf t"
  shows "set_abs (Set_Intersection s t) = set_abs s \<inter> set_abs t \<and>
    set_abs (Set_Union s t) = set_abs s \<union> set_abs t \<and>
    set_abs (Set_Difference s t) = set_abs s - set_abs t \<and>
    set_abs (Set_SymmetricDifference s t)
      = (set_abs s - set_abs t) \<union> (set_abs t - set_abs s) \<and>
    set_wf (Set_SymmetricDifference s t) \<and>
    (Set_Has s x \<longleftrightarrow> x \<in> set_abs s) \<and>
    Set_Size s = card (set_abs s) \<and>
    (Set_Equal s t \<longleftrightarrow> set_abs s = set_abs t)"
  using assms by (simp add: Set_Has_iff Set_Size_card Set_Equal_iff)

theorem set_operations_refine_witness:
  "set_wf (NewSet [1, 2, 3 :: nat]) \<and> set_wf (NewSet [2, 3, 4]) \<and>
   set_abs (Set_SymmetricDifference (NewSet [1, 2, 3]) (NewSet [2, 3, 4])) = {1, 4 :: nat}"
  using set_operations_refine [of "NewSet [1, 2, 3]" "NewSet [2, 3, 4]"] by auto

end
