(* ===== verification/Ds_Version.thy ===== *)
theory Ds_Version
  imports CP_Prelude "HOL-Library.Word"
begin

text \<open>
  Versions (\<^verbatim>\<open>server/internal/ds/versions.go\<close>): parsing and printing of dotted versions with 64-bit
  components, their comparison, version constraints and the pair of a Postgres and a Spock version.
  A pointer to a version that the code dereferences without a check is a version.
\<close>

record version =
  Components :: "64 word list"

record version_constraint =
  Min :: "version option"
  Max :: "version option"

record pgedge_version =
  PostgresVersion :: version
  SpockVersion :: version

datatype version_error =
    ErrInvalidVersionFormat string
  | ErrInvalidVersionComponent string
  | ErrInvalidVersionJSON string
  | ErrInvalidPostgresVersion string
  | ErrInvalidSpockVersion string
  | ErrPostgresNeedsMajorMinor string
  | ErrSpockNeedsMajor string

section \<open>Comparison\<close>

text \<open>\<^verbatim>\<open>slices.Compare\<close>: the first difference decides, then the shorter slice is less.\<close>

fun slices_compare :: "'a::linorder list \<Rightarrow> 'a list \<Rightarrow> int" where
  "slices_compare [] [] = 0"
| "slices_compare [] (_ # _) = -1"
| "slices_compare (_ # _) [] = 1"
| "slices_compare (x # xs) (y # ys) =
     (if go_compare x y \<noteq> 0 then go_compare x y else slices_compare xs ys)"

definition Version_Compare :: "version \<Rightarrow> version \<Rightarrow> int" where
  "Version_Compare v other = slices_compare (Components v) (Components other)"

definition IsSatisfied :: "version_constraint \<Rightarrow> version \<Rightarrow> bool" where
  "IsSatisfied c v =
     (if (case Min c of Some m \<Rightarrow> Version_Compare m v > 0 | None \<Rightarrow> False) then False
      else if (case Max c of Some m \<Rightarrow> Version_Compare m v < 0 | None \<Rightarrow> False) then False
      else True)"

section \<open>Parts of a version and printing\<close>

definition Version_Major :: "version \<Rightarrow> (64 word \<times> bool)" where
  "Version_Major v = (case Components v of [] \<Rightarrow> (0, False) | c # _ \<Rightarrow> (c, True))"

definition Version_MajorString :: "version \<Rightarrow> (string \<times> bool)" where
  "Version_MajorString v =
     (case Version_Major v of (major, ok) \<Rightarrow>
        if \<not> ok then ([], False) else (format_uint (unat major), True))"

definition MajorVersion :: "version \<Rightarrow> version" where
  "MajorVersion v =
     (if length (Components v) = 0 then \<lparr>Components = []\<rparr>
      else \<lparr>Components = take 1 (Components v)\<rparr>)"

definition MajorMinorVersion :: "version \<Rightarrow> version" where
  "MajorMinorVersion v =
     (let components = Components v
      in \<lparr>Components = (if length components > 2 then take 2 components else components)\<rparr>)"

definition Version_String :: "version \<Rightarrow> string" where
  "Version_String v = go_join (map (\<lambda>c. format_uint (unat c)) (Components v)) ''.''"

definition VersionConstraint_String :: "version_constraint \<Rightarrow> string" where
  "VersionConstraint_String c =
     (let parts = (case Min c of Some m \<Rightarrow> [''>= '' @ Version_String m] | None \<Rightarrow> [])
                @ (case Max c of Some m \<Rightarrow> [''<= '' @ Version_String m] | None \<Rightarrow> [])
      in if length parts = 0 then ''any'' else go_join parts '' and '')"

section \<open>Parsing\<close>

text \<open>
  The regular expression \<^verbatim>\<open>^\d+(\.\d+){0,2}$\<close>: a run of digits, then at most two groups of a dot
  and a run of digits, then the end of the text. A dot is no digit, so the longest run is the only
  one that can match.
\<close>

fun skip_digits :: "string \<Rightarrow> string" where
  "skip_digits [] = []"
| "skip_digits (c # cs) = (if is_digit c then skip_digits cs else c # cs)"

definition match_digits :: "string \<Rightarrow> string option" where
  "match_digits s = (case s of [] \<Rightarrow> None | c # cs \<Rightarrow> if is_digit c then Some (skip_digits cs) else None)"

fun match_groups :: "nat \<Rightarrow> string \<Rightarrow> bool" where
  "match_groups n [] = True"
| "match_groups 0 (c # cs) = False"
| "match_groups (Suc n) (c # cs) =
     (if c = CHR ''.'' then (case match_digits cs of None \<Rightarrow> False | Some r \<Rightarrow> match_groups n r)
      else False)"

definition semverRegexp_MatchString :: "string \<Rightarrow> bool" where
  "semverRegexp_MatchString s =
     (case match_digits s of None \<Rightarrow> False | Some r \<Rightarrow> match_groups 2 r)"

text \<open>\<^verbatim>\<open>strconv.ParseUint(p, 10, 64)\<close>: a syntax error or a range error gives \<open>None\<close>.\<close>

definition ParseUint :: "string \<Rightarrow> 64 word option" where
  "ParseUint p =
     (if p = [] \<or> \<not> list_all is_digit p then None
      else if digits_value p < 2 ^ 64 then Some (of_nat (digits_value p)) else None)"

definition ParseVersion :: "string \<Rightarrow> (version_error, version) res" where
  "ParseVersion s =
     (if \<not> semverRegexp_MatchString s then Inl (ErrInvalidVersionFormat s)
      else rbind (map_res (\<lambda>p. case ParseUint p of
                     None \<Rightarrow> Inl (ErrInvalidVersionComponent p)
                   | Some c \<Rightarrow> Inr c) (go_split CHR ''.'' s))
             (\<lambda>components. Inr \<lparr>Components = components\<rparr>))"

definition MarshalText :: "version \<Rightarrow> string" where
  "MarshalText v = Version_String v"

definition UnmarshalText :: "version \<Rightarrow> string \<Rightarrow> (version_error, version) res" where
  "UnmarshalText v data =
     rbind (ParseVersion data) (\<lambda>parsed. Inr (v\<lparr>Components := Components parsed\<rparr>))"

text \<open>
  \<^verbatim>\<open>UnmarshalJSON\<close> accepts the legacy object form and the string form. The two decoders of
  \<^verbatim>\<open>encoding/json\<close> are arguments.
\<close>

definition UnmarshalJSON ::
  "(string \<Rightarrow> (string \<times> string) list option) \<Rightarrow> (string \<Rightarrow> string option) \<Rightarrow>
   version \<Rightarrow> string \<Rightarrow> (version_error, version) res" where
  "UnmarshalJSON json_object json_string v data =
     (case data of
        [] \<Rightarrow> Inr v
      | c # _ \<Rightarrow>
          if c = CHR ''{'' then
            (case json_object data of
               None \<Rightarrow> Inl (ErrInvalidVersionJSON data)
             | Some m \<Rightarrow> UnmarshalText v
                 (case gm_get m ''semver'' of Some x \<Rightarrow> x | None \<Rightarrow> []))
          else if c = CHR 0x22 then
            (case json_string data of
               None \<Rightarrow> Inl (ErrInvalidVersionJSON data)
             | Some x \<Rightarrow> UnmarshalText v x)
          else Inl (ErrInvalidVersionFormat data))"

section \<open>Postgres and Spock version pairs\<close>

definition PgEdgeVersion_String :: "pgedge_version \<Rightarrow> string" where
  "PgEdgeVersion_String v =
     Version_String (PostgresVersion v) @ ''_'' @ Version_String (SpockVersion v)"

definition PgEdgeVersion_Compare :: "pgedge_version \<Rightarrow> pgedge_version \<Rightarrow> int" where
  "PgEdgeVersion_Compare v other =
     (let c = Version_Compare (PostgresVersion v) (PostgresVersion other)
      in if c \<noteq> 0 then c else Version_Compare (SpockVersion v) (SpockVersion other))"

definition PgEdgeVersion_Equals :: "pgedge_version \<Rightarrow> pgedge_version \<Rightarrow> bool" where
  "PgEdgeVersion_Equals v other \<longleftrightarrow> PgEdgeVersion_Compare v other = 0"

definition PgEdgeVersion_LessThan :: "pgedge_version \<Rightarrow> pgedge_version \<Rightarrow> bool" where
  "PgEdgeVersion_LessThan v other \<longleftrightarrow> PgEdgeVersion_Compare v other < 0"

definition PgEdgeVersion_GreaterThan :: "pgedge_version \<Rightarrow> pgedge_version \<Rightarrow> bool" where
  "PgEdgeVersion_GreaterThan v other \<longleftrightarrow> PgEdgeVersion_Compare v other > 0"

definition Normalize :: "pgedge_version \<Rightarrow> (version_error, pgedge_version) res" where
  "Normalize v =
     (let pv = MajorMinorVersion (PostgresVersion v)
      in if length (Components pv) \<noteq> 2 then Inl (ErrPostgresNeedsMajorMinor (Version_String pv))
         else let sv = MajorVersion (SpockVersion v)
              in if length (Components sv) \<noteq> 1 then Inl (ErrSpockNeedsMajor (Version_String sv))
                 else Inr \<lparr>PostgresVersion = pv, SpockVersion = sv\<rparr>)"

definition ParsePgEdgeVersion :: "string \<Rightarrow> string \<Rightarrow> (version_error, pgedge_version) res" where
  "ParsePgEdgeVersion postgresVersion spockVersion =
     (case ParseVersion postgresVersion of
        Inl _ \<Rightarrow> Inl (ErrInvalidPostgresVersion postgresVersion)
      | Inr pv \<Rightarrow>
          (case ParseVersion spockVersion of
             Inl _ \<Rightarrow> Inl (ErrInvalidSpockVersion spockVersion)
           | Inr sv \<Rightarrow> Inr \<lparr>PostgresVersion = pv, SpockVersion = sv\<rparr>))"

section \<open>The order of versions\<close>

lemma slices_compare_refl [simp]: "slices_compare xs xs = 0"
  by (induction xs) (simp_all add: go_compare_def)

lemma slices_compare_eq_0 [simp]: "slices_compare xs ys = 0 \<longleftrightarrow> xs = ys"
  by (induction xs ys rule: slices_compare.induct) auto

lemma slices_compare_swap: "slices_compare ys xs = - slices_compare xs ys"
  by (induction xs ys rule: slices_compare.induct) (auto simp: go_compare_def)

lemma slices_compare_less: "slices_compare xs ys < 0 \<longleftrightarrow> xs < ys"
  by (induction xs ys rule: slices_compare.induct) (auto simp: go_compare_def)

lemma slices_compare_le: "slices_compare xs ys \<le> 0 \<longleftrightarrow> xs \<le> ys"
  by (metis less_le_not_le linorder_not_less neg_0_less_iff_less order_le_less slices_compare_eq_0
      slices_compare_less slices_compare_swap)

lemma Version_Compare_less: "Version_Compare v w < 0 \<longleftrightarrow> Components v < Components w"
  by (simp add: Version_Compare_def slices_compare_less)

lemma Version_Compare_le: "Version_Compare v w \<le> 0 \<longleftrightarrow> Components v \<le> Components w"
  by (simp add: Version_Compare_def slices_compare_le)

lemma Version_Compare_eq: "Version_Compare v w = 0 \<longleftrightarrow> v = w"
  by (simp add: Version_Compare_def version.equality) (metis version.equality old.unit.exhaust)

lemma Version_Compare_greater: "Version_Compare v w > 0 \<longleftrightarrow> Components w < Components v"
  by (metis Version_Compare_le linorder_not_le)

lemma Version_Compare_ge: "Version_Compare v w \<ge> 0 \<longleftrightarrow> Components w \<le> Components v"
  by (metis Version_Compare_less linorder_not_le)

lemmas Version_Compare_order =
  Version_Compare_less Version_Compare_le Version_Compare_eq Version_Compare_greater
  Version_Compare_ge

lemma compare_total_Version: "compare_total Version_Compare"
  unfolding compare_total_def Version_Compare_le by (metis linear order_trans)

section \<open>Parsing inverts printing\<close>

lemma skip_digits_append: "list_all is_digit p \<Longrightarrow> skip_digits (p @ q) = skip_digits q"
  by (induction p) auto

lemma skip_digits_stop: "q = [] \<or> \<not> is_digit (hd q) \<Longrightarrow> skip_digits q = q"
  by (cases q) auto

lemma match_digits_run:
  "p \<noteq> [] \<Longrightarrow> list_all is_digit p \<Longrightarrow> q = [] \<or> \<not> is_digit (hd q) \<Longrightarrow> match_digits (p @ q) = Some q"
  by (cases p) (auto simp: match_digits_def skip_digits_append skip_digits_stop)

lemma skip_digits_dropWhile: "skip_digits t = dropWhile is_digit t"
  by (induction t) auto

lemma match_digits_Some:
  assumes "match_digits s = Some r"
  shows "\<exists>p. s = p @ r \<and> p \<noteq> [] \<and> list_all is_digit p \<and> (r = [] \<or> \<not> is_digit (hd r))"
proof -
  from assms obtain c cs where s: "s = c # cs" and c: "is_digit c" and r: "r = skip_digits cs"
    by (auto simp: match_digits_def split: list.splits if_splits)
  have "s = (c # takeWhile is_digit cs) @ r" "list_all is_digit (takeWhile is_digit cs)"
    "r = [] \<or> \<not> is_digit (hd r)"
    using s hd_dropWhile [of is_digit cs]
    by (auto simp: r skip_digits_dropWhile list_all_iff dest: set_takeWhileD)
  with c show ?thesis by (intro exI [of _ "c # takeWhile is_digit cs"]) simp
qed

lemma dot_not_digit [simp]: "\<not> is_digit CHR ''.''"
  by (simp add: is_digit_def)

lemma digits_no_dot: "list_all is_digit p \<Longrightarrow> CHR ''.'' \<notin> set p"
  by (auto simp: list_all_iff)

text \<open>The recogniser accepts what splitting at the dots makes into a few runs of digits.\<close>

abbreviation digit_run :: "string \<Rightarrow> bool" where
  "digit_run p \<equiv> p \<noteq> [] \<and> list_all is_digit p"

lemma go_split_head: "sep \<notin> set p \<Longrightarrow> d \<noteq> sep \<Longrightarrow> d \<in> set (hd (go_split sep (p @ d # t)))"
  by (induction p) (auto split: list.splits)

lemma match_groups_split:
  "match_groups n r \<longleftrightarrow>
     r = [] \<or> (\<exists>t. r = CHR ''.'' # t \<and> length (go_split CHR ''.'' t) \<le> n \<and>
                   list_all digit_run (go_split CHR ''.'' t))"
proof (induction n r rule: match_groups.induct)
  case (1 n)
  show ?case by simp
next
  case (2 c cs)
  show ?case by simp
next
  case (3 n c cs)
  show ?case
  proof (cases "c = CHR ''.'' \<and> match_digits cs \<noteq> None")
    case True
    then obtain r where r: "match_digits cs = Some r" and c: "c = CHR ''.''" by auto
    from match_digits_Some [OF r] obtain p
      where p: "cs = p @ r" "digit_run p" and stop: "r = [] \<or> \<not> is_digit (hd r)"
      by auto
    have "match_groups (Suc n) (c # cs) = match_groups n r" using r c by simp
    also have "\<dots> \<longleftrightarrow> r = [] \<or> (\<exists>t. r = CHR ''.'' # t \<and> length (go_split CHR ''.'' t) \<le> n \<and>
        list_all digit_run (go_split CHR ''.'' t))"
      using 3 r c by simp
    also have "\<dots> \<longleftrightarrow> length (go_split CHR ''.'' cs) \<le> Suc n \<and>
        list_all digit_run (go_split CHR ''.'' cs)"
    proof (cases r)
      case Nil
      with p show ?thesis by (simp add: go_split_no_sep digits_no_dot)
    next
      case (Cons d t)
      show ?thesis
      proof (cases "d = CHR ''.''")
        case True
        with Cons p show ?thesis by (simp add: go_split_append digits_no_dot)
      next
        case False
        obtain q qs where q: "go_split CHR ''.'' cs = q # qs"
          by (cases "go_split CHR ''.'' cs") auto
        have "d \<in> set q"
          using go_split_head [of "CHR ''.''" p d t] q p Cons False by (simp add: digits_no_dot)
        moreover have "\<not> is_digit d" using stop Cons by simp
        ultimately have "\<not> list_all is_digit q" by (auto simp: list_all_iff)
        with q False Cons show ?thesis by simp
      qed
    qed
    finally show ?thesis using c by simp
  next
    case False
    show ?thesis
    proof (cases "c = CHR ''.''")
      case True
      with False have none: "match_digits cs = None" by simp
      have "\<not> list_all digit_run (go_split CHR ''.'' cs)"
      proof (cases cs)
        case Nil
        then show ?thesis by simp
      next
        case (Cons e es)
        with none have "\<not> is_digit e" by (simp add: match_digits_def split: if_splits)
        with Cons show ?thesis by (auto split: list.splits)
      qed
      with none True show ?thesis by auto
    next
      case False
      then show ?thesis by simp
    qed
  qed
qed

lemma semverRegexp_split:
  "semverRegexp_MatchString s \<longleftrightarrow>
     length (go_split CHR ''.'' s) \<le> 3 \<and> list_all digit_run (go_split CHR ''.'' s)"
proof -
  have "semverRegexp_MatchString s = match_groups 3 (CHR ''.'' # s)"
    unfolding semverRegexp_MatchString_def numeral_3_eq_3 numeral_2_eq_2 by simp
  then show ?thesis by (simp add: match_groups_split)
qed

lemma ParseUint_Some_iff:
  "ParseUint p = Some c \<longleftrightarrow> digit_run p \<and> digits_value p < 2 ^ 64 \<and> c = of_nat (digits_value p)"
  by (auto simp: ParseUint_def)

lemma ParseUint_format: "ParseUint (format_uint (unat (c :: 64 word))) = Some c"
proof -
  have "unat c < 2 ^ 64" using unsigned_less [of c] by simp
  then show ?thesis by (simp add: ParseUint_def format_uint_digits)
qed

lemma format_uint_no_dot: "CHR ''.'' \<notin> set (format_uint n)"
  by (simp add: digits_no_dot format_uint_digits)

lemma split_Version_String:
  "Components v \<noteq> [] \<Longrightarrow>
   go_split CHR ''.'' (Version_String v) = map (\<lambda>c. format_uint (unat c)) (Components v)"
  unfolding Version_String_def by (rule go_split_join) (auto simp: format_uint_no_dot)

text \<open>
  C36. Parsing inverts printing: a version with one to three components is printed to a string that
  \<^verbatim>\<open>ParseVersion\<close> accepts and reads back as the same version.
\<close>
theorem ParseVersion_String:
  assumes "Components v \<noteq> []" and "length (Components v) \<le> 3"
  shows "ParseVersion (Version_String v) = Inr v"
proof -
  have "semverRegexp_MatchString (Version_String v)"
    using assms by (simp add: semverRegexp_split split_Version_String list_all_iff
        format_uint_digits [unfolded list_all_iff])
  moreover have "map_res (\<lambda>p. case ParseUint p of None \<Rightarrow> Inl (ErrInvalidVersionComponent p)
      | Some c \<Rightarrow> Inr c) (map (\<lambda>c. format_uint (unat c)) (Components v)) = Inr (Components v)"
    unfolding map_res_Inr_iff by (simp add: ParseUint_format)
  ultimately show ?thesis
    using assms(1) by (simp add: ParseVersion_def split_Version_String)
qed

theorem ParseVersion_String_witness:
  "ParseVersion (Version_String \<lparr>Components = [17, 6]\<rparr>) = Inr \<lparr>Components = [17, 6]\<rparr>"
  using ParseVersion_String [of "\<lparr>Components = [17, 6]\<rparr>"] by simp

text \<open>
  \<^verbatim>\<open>ParseVersion\<close> accepts exactly the strings of one to three dot-separated runs of decimal
  digits whose values fit into 64 bits, and returns these values; every other string is an error.
\<close>
theorem ParseVersion_accepts:
  "ParseVersion s = Inr v \<longleftrightarrow>
     length (go_split CHR ''.'' s) \<le> 3 \<and>
     list_all (\<lambda>p. p \<noteq> [] \<and> list_all is_digit p \<and> digits_value p < 2 ^ 64) (go_split CHR ''.'' s) \<and>
     v = \<lparr>Components = map (\<lambda>p. of_nat (digits_value p)) (go_split CHR ''.'' s)\<rparr>"
proof -
  let ?f = "\<lambda>p. case ParseUint p of None \<Rightarrow> Inl (ErrInvalidVersionComponent p) | Some c \<Rightarrow> Inr c"
  have f: "?f p = Inr c \<longleftrightarrow> digit_run p \<and> digits_value p < 2 ^ 64 \<and> c = of_nat (digits_value p)" for p c
    using ParseUint_Some_iff [of p c] by (auto split: option.splits)
  have m: "map_res ?f ps = Inr cs \<longleftrightarrow>
      list_all (\<lambda>p. digit_run p \<and> digits_value p < 2 ^ 64) ps \<and>
      cs = map (\<lambda>p. of_nat (digits_value p)) ps" for ps cs
    unfolding map_res_Inr_iff
  proof (induction ps arbitrary: cs)
    case Nil
    show ?case by auto
  next
    case (Cons p ps)
    show ?case
    proof (cases cs)
      case Nil
      then show ?thesis by simp
    next
      case (Cons c cs')
      then show ?thesis using Cons.IH [of cs'] f [of p c] by auto
    qed
  qed
  show ?thesis
    by (auto simp: ParseVersion_def rbind_eq_Inr m semverRegexp_split list_all_iff)
qed

text \<open>
  \<^verbatim>\<open>Version.Compare\<close> is a linear order: it is zero exactly on equal versions, it changes sign
  when its arguments are swapped, and less-than is transitive.
\<close>
theorem Version_Compare_linear_order:
  "(Version_Compare u v = 0 \<longleftrightarrow> u = v) \<and> Version_Compare v u = - Version_Compare u v \<and>
   (Version_Compare u v < 0 \<longrightarrow> Version_Compare v w < 0 \<longrightarrow> Version_Compare u w < 0)"
proof -
  have "Version_Compare v u = - Version_Compare u v"
    unfolding Version_Compare_def by (rule slices_compare_swap)
  then show ?thesis by (auto simp: Version_Compare_eq Version_Compare_less)
qed

theorem Version_Compare_linear_order_witness:
  "Version_Compare \<lparr>Components = [16, 10]\<rparr> \<lparr>Components = [18]\<rparr> < 0 \<and>
   Version_Compare \<lparr>Components = [16]\<rparr> \<lparr>Components = [16, 10]\<rparr> < 0 \<and>
   Version_Compare \<lparr>Components = [16]\<rparr> \<lparr>Components = [18]\<rparr> < 0"
proof -
  have a: "Version_Compare \<lparr>Components = [16]\<rparr> \<lparr>Components = [16, 10]\<rparr> < 0"
    and b: "Version_Compare \<lparr>Components = [16, 10]\<rparr> \<lparr>Components = [18]\<rparr> < 0"
    by (simp_all add: Version_Compare_def go_compare_def)
  with Version_Compare_linear_order show ?thesis by blast
qed

end
