(* ===== verification/Topo_Sort.thy ===== *)
theory Topo_Sort
  imports CP_Prelude "HOL-Library.Multiset"
begin

text \<open>
  The layered topological sort (\<^verbatim>\<open>server/internal/resource/topo.go\<close>). The graph library is not part
  of the sources: the two methods of \<^verbatim>\<open>graph.Directed\<close> that the sort calls are the record
  \<open>directed\<close>, an argument of the definitions, and what the sort relies on is \<open>directed_ok\<close>. Every
  iteration over a graph or a Go map comes in an arbitrary order, which may differ from one iteration
  to the next: \<open>ord\<close> gives the order of each iteration of the function.
\<close>

record ('g, 'n) directed =
  dg_Nodes :: "'g \<Rightarrow> 'n list"
  dg_From :: "'g \<Rightarrow> int \<Rightarrow> 'n list"

datatype iteration = InitNodes | CountNodes | CountFrom int | LoopFrom int

type_synonym 'n orders = "iteration \<Rightarrow> 'n list \<Rightarrow> 'n list"

datatype topo_error = ErrCycleDetected

section \<open>The algorithm\<close>

text \<open>A missing key of \<^verbatim>\<open>inDegree\<close> reads as zero.\<close>

definition in_degree :: "(int, int) gomap \<Rightarrow> int \<Rightarrow> int" where
  "in_degree m i = (case gm_get m i of Some d \<Rightarrow> d | None \<Rightarrow> 0)"

fun init_degrees :: "('n \<Rightarrow> int) \<Rightarrow> 'n list \<Rightarrow> (int, int) gomap \<times> (int, 'n) gomap \<Rightarrow>
    (int, int) gomap \<times> (int, 'n) gomap" where
  "init_degrees ident [] (inDegree, nodeMap) = (inDegree, nodeMap)"
| "init_degrees ident (n # ns) (inDegree, nodeMap) =
     init_degrees ident ns (gm_put inDegree (ident n) 0, gm_put nodeMap (ident n) n)"

fun count_children :: "('n \<Rightarrow> int) \<Rightarrow> 'n list \<Rightarrow> (int, int) gomap \<Rightarrow> (int, int) gomap" where
  "count_children ident [] m = m"
| "count_children ident (c # cs) m =
     count_children ident cs (gm_put m (ident c) (in_degree m (ident c) + 1))"

fun count_degrees :: "('g, 'n, 'z) directed_scheme \<Rightarrow> ('n \<Rightarrow> int) \<Rightarrow> 'n orders \<Rightarrow> 'g \<Rightarrow> 'n list \<Rightarrow>
    (int, int) gomap \<Rightarrow> (int, int) gomap" where
  "count_degrees G ident ord g [] m = m"
| "count_degrees G ident ord g (n # ns) m =
     count_degrees G ident ord g ns
       (count_children ident (ord (CountFrom (ident n)) (dg_From G g (ident n))) m)"

text \<open>The ready nodes: \<^verbatim>\<open>nodeMap[id]\<close> for every key whose degree is zero.\<close>

fun initial_ready :: "(int, 'n) gomap \<Rightarrow> (int \<times> int) list \<Rightarrow> 'n list" where
  "initial_ready nodeMap [] = []"
| "initial_ready nodeMap ((i, d) # ds) =
     (if d = 0 then (case gm_get nodeMap i of Some n \<Rightarrow> [n] | None \<Rightarrow> []) else [])
       @ initial_ready nodeMap ds"

fun release_children :: "('n \<Rightarrow> int) \<Rightarrow> 'n list \<Rightarrow> (int, int) gomap \<times> 'n list \<Rightarrow>
    (int, int) gomap \<times> 'n list" where
  "release_children ident [] (m, ready) = (m, ready)"
| "release_children ident (c # cs) (m, ready) =
     (let m' = gm_put m (ident c) (in_degree m (ident c) - 1)
      in release_children ident cs
           (m', if in_degree m' (ident c) = 0 then ready @ [c] else ready))"

fun release_layer :: "('g, 'n, 'z) directed_scheme \<Rightarrow> ('n \<Rightarrow> int) \<Rightarrow> 'n orders \<Rightarrow> 'g \<Rightarrow> 'n list \<Rightarrow>
    (int, int) gomap \<times> 'n list \<Rightarrow> (int, int) gomap \<times> 'n list" where
  "release_layer G ident ord g [] mr = mr"
| "release_layer G ident ord g (n # ns) mr =
     release_layer G ident ord g ns
       (release_children ident (ord (LoopFrom (ident n)) (dg_From G g (ident n))) mr)"

text \<open>
  The main loop runs while nodes are ready. Nothing in its text bounds it, so it is a partial
  function: \<open>None\<close> stands for not returning.
\<close>

partial_function (option) phase_loop ::
  "('g, 'n, 'z) directed_scheme \<Rightarrow> ('n \<Rightarrow> int) \<Rightarrow> 'n orders \<Rightarrow> 'g \<Rightarrow> (int, int) gomap \<Rightarrow> 'n list \<Rightarrow>
   'n list list \<Rightarrow> nat \<Rightarrow> ((int, int) gomap \<times> 'n list list \<times> nat) option" where
  "phase_loop G ident ord g m ready phases processedCount =
     (if ready = [] then Some (m, phases, processedCount)
      else
        let phases' = phases @ [ready];
            processedCount' = processedCount + length ready;
            mr = release_layer G ident ord g ready (m, [])
        in phase_loop G ident ord g (fst mr) (snd mr) phases' processedCount')"

definition layeredTopoSort ::
  "('g, 'n, 'z) directed_scheme \<Rightarrow> ('n \<Rightarrow> int) \<Rightarrow> 'n orders \<Rightarrow> ((int \<times> int) list \<Rightarrow> (int \<times> int) list) \<Rightarrow> 'g \<Rightarrow>
   (topo_error, 'n list list) res option" where
  "layeredTopoSort G ident ord rng g =
     (let (m0, nodeMap) = init_degrees ident (ord InitNodes (dg_Nodes G g)) ([], []);
          m = count_degrees G ident ord g (ord CountNodes (dg_Nodes G g)) m0;
          ready = initial_ready nodeMap (rng m)
      in case phase_loop G ident ord g m ready [] 0 of
           None \<Rightarrow> None
         | Some (m', phases, processedCount) \<Rightarrow>
             if processedCount < length m' then Some (Inl ErrCycleDetected)
             else Some (Inr phases))"

section \<open>What the sort relies on, and what it promises\<close>

text \<open>
  Node ids are unique; the successors of a node are nodes of the graph, each listed once. Iterating
  in another order yields the same elements.
\<close>

definition directed_ok :: "('g, 'n, 'z) directed_scheme \<Rightarrow> ('n \<Rightarrow> int) \<Rightarrow> 'g \<Rightarrow> bool" where
  "directed_ok G ident g \<longleftrightarrow>
     distinct (map ident (dg_Nodes G g)) \<and>
     (\<forall>i. distinct (dg_From G g i) \<and> set (dg_From G g i) \<subseteq> set (dg_Nodes G g))"

definition order_ok :: "('k \<Rightarrow> 'a list \<Rightarrow> 'a list) \<Rightarrow> bool" where
  "order_ok ord \<longleftrightarrow> (\<forall>k xs. mset (ord k xs) = mset xs)"

definition range_ok :: "('a list \<Rightarrow> 'a list) \<Rightarrow> bool" where
  "range_ok rng \<longleftrightarrow> (\<forall>xs. mset (rng xs) = mset xs)"

definition edges :: "('g, 'n, 'z) directed_scheme \<Rightarrow> ('n \<Rightarrow> int) \<Rightarrow> 'g \<Rightarrow> ('n \<times> 'n) set" where
  "edges G ident g = {(u, v). u \<in> set (dg_Nodes G g) \<and> v \<in> set (dg_From G g (ident u))}"

text \<open>
  The layers the sort promises: each is the list of the nodes that are not in an earlier layer and
  whose predecessors all are; the last one leaves no such node.
\<close>

definition frontier :: "'n set \<Rightarrow> ('n \<times> 'n) set \<Rightarrow> 'n set \<Rightarrow> 'n set" where
  "frontier V E P = {v \<in> V - P. \<forall>u. (u, v) \<in> E \<longrightarrow> u \<in> P}"

fun layered :: "'n set \<Rightarrow> ('n \<times> 'n) set \<Rightarrow> 'n set \<Rightarrow> 'n list list \<Rightarrow> bool" where
  "layered V E P [] \<longleftrightarrow> frontier V E P = {}"
| "layered V E P (L # Ls) \<longleftrightarrow>
     L \<noteq> [] \<and> distinct L \<and> set L = frontier V E P \<and> layered V E (P \<union> set L) Ls"

section \<open>Consequences of the promise\<close>

lemma layered_ConsD: "layered V E P (L # Ls) \<Longrightarrow> layered V E (P \<union> set L) Ls"
  unfolding layered.simps by blast

lemma layered_disjoint: "layered V E P Ls \<Longrightarrow> set (concat Ls) \<inter> P = {} \<and> set (concat Ls) \<subseteq> V"
proof (induction Ls arbitrary: P)
  case Nil
  show ?case by simp
next
  case (Cons L Ls)
  from Cons.IH [OF layered_ConsD [OF Cons.prems]] have "set (concat Ls) \<inter> (P \<union> set L) = {} \<and> set (concat Ls) \<subseteq> V" .
  moreover have "set L \<subseteq> V - P" using Cons.prems by (auto simp: frontier_def)
  ultimately show ?case by auto
qed

lemma layered_distinct: "layered V E P Ls \<Longrightarrow> distinct (concat Ls)"
proof (induction Ls arbitrary: P)
  case Nil
  show ?case by simp
next
  case (Cons L Ls)
  note lay = layered_ConsD [OF Cons.prems]
  have "distinct L" using Cons.prems by simp
  moreover from layered_disjoint [OF lay] have "set (concat Ls) \<inter> set L = {}" by blast
  ultimately show ?case using Cons.IH [OF lay] by auto
qed

lemma layered_preds:
  "layered V E P Ls \<Longrightarrow> i < length Ls \<Longrightarrow> v \<in> set (Ls ! i) \<Longrightarrow> (u, v) \<in> E \<Longrightarrow>
   u \<in> P \<union> set (concat (take i Ls))"
proof (induction Ls arbitrary: P i)
  case Nil
  then show ?case by simp
next
  case (Cons L Ls)
  show ?case
  proof (cases i)
    case 0
    with Cons.prems show ?thesis by (auto simp: frontier_def)
  next
    case (Suc j)
    with Cons.prems Cons.IH [of "P \<union> set L" j] show ?thesis by auto
  qed
qed

lemma distinct_concat_nth:
  "distinct (concat Ls) \<Longrightarrow> i < length Ls \<Longrightarrow> j < length Ls \<Longrightarrow> v \<in> set (Ls ! i) \<Longrightarrow>
   v \<in> set (Ls ! j) \<Longrightarrow> i = j"
proof (induction Ls arbitrary: i j)
  case Nil
  then show ?case by simp
next
  case (Cons L Ls)
  then have "\<not> (k < length Ls \<and> v \<in> set (Ls ! k) \<and> v \<in> set L)" for k
    by (simp only: concat.simps distinct_append set_concat) (auto dest!: nth_mem)
  with Cons show ?case by (cases i; cases j) auto
qed

lemma layered_maximal:
  "layered V E P Ls \<Longrightarrow> i < length Ls \<Longrightarrow> v \<in> set (Ls ! i) \<Longrightarrow>
   \<not> (\<forall>u. (u, v) \<in> E \<longrightarrow> u \<in> P) \<Longrightarrow>
   0 < i \<and> (\<exists>u \<in> set (Ls ! (i - 1)). (u, v) \<in> E)"
proof (induction Ls arbitrary: P i)
  case Nil
  then show ?case by simp
next
  case (Cons L Ls)
  show ?case
  proof (cases i)
    case 0
    with Cons.prems show ?thesis by (auto simp: frontier_def)
  next
    case (Suc j)
    show ?thesis
    proof (cases "\<forall>u. (u, v) \<in> E \<longrightarrow> u \<in> P \<union> set L")
      case True
      note lay = layered_ConsD [OF Cons.prems(1)]
      have v: "v \<in> set (Ls ! j)" "j < length Ls" using Cons.prems Suc by auto
      with layered_disjoint [OF lay] have "v \<in> V - (P \<union> set L)" by (auto dest: nth_mem)
      with True have "v \<in> frontier V E (P \<union> set L)" by (simp add: frontier_def)
      with lay v have "v \<in> set (Ls ! 0)" by (cases Ls) auto
      with v layered_distinct [OF lay] have "j = 0"
        by (intro distinct_concat_nth [of Ls j 0 v]) auto
      with Cons.prems(4) True Suc show ?thesis by auto
    next
      case False
      with Cons.IH [of "P \<union> set L" j] Cons.prems Suc show ?thesis by auto
    qed
  qed
qed

lemma layered_nonempty: "layered V E P Ls \<Longrightarrow> i < length Ls \<Longrightarrow> Ls ! i \<noteq> []"
proof (induction Ls arbitrary: P i)
  case Nil
  then show ?case by simp
next
  case (Cons L Ls)
  from Cons.IH [OF layered_ConsD [OF Cons.prems(1)]] Cons.prems show ?case by (cases i) auto
qed

lemma layered_first:
  assumes lay: "layered V E P Ls" and "i < length Ls" and "v \<in> set (Ls ! i)"
    and "\<forall>u. (u, v) \<in> E \<longrightarrow> u \<in> P"
  shows "i = 0"
proof -
  have "v \<in> set (concat Ls)" using assms(2,3) by auto
  with layered_disjoint [OF lay] have "v \<in> V - P" by blast
  with assms(4) have "v \<in> frontier V E P" by (simp add: frontier_def)
  moreover obtain L Ls' where "Ls = L # Ls'" using assms(2) by (cases Ls) auto
  moreover from this lay have "set L = frontier V E P" by simp
  ultimately have "v \<in> set (Ls ! 0)" "0 < length Ls" by simp_all
  with distinct_concat_nth [OF layered_distinct [OF lay]] assms(2,3) show ?thesis by blast
qed

text \<open>All nodes are in some layer exactly when the graph has no cycle.\<close>

lemma layered_stuck:
  "layered V E P Ls \<Longrightarrow> frontier V E (P \<union> set (concat Ls)) = {}"
proof (induction Ls arbitrary: P)
  case Nil
  then show ?case by simp
next
  case (Cons L Ls)
  from Cons.IH [OF layered_ConsD [OF Cons.prems]] show ?case by (simp add: Un_assoc)
qed

lemma layered_complete:
  assumes lay: "layered V E {} Ls" and "finite V" and EV: "E \<subseteq> V \<times> V"
  shows "set (concat Ls) = V \<longleftrightarrow> acyclic E"
proof
  assume all: "set (concat Ls) = V"
  define rank where "rank v = (LEAST i. i < length Ls \<and> v \<in> set (Ls ! i))" for v
  have rank: "rank v < length Ls \<and> v \<in> set (Ls ! rank v)" if "v \<in> V" for v
  proof -
    from that all have "\<exists>i. i < length Ls \<and> v \<in> set (Ls ! i)"
      by (metis (no_types, lifting) UN_E in_set_conv_nth set_concat)
    then show ?thesis unfolding rank_def by (rule LeastI_ex)
  qed
  have "rank u < rank v" if e: "(u, v) \<in> E" for u v
  proof -
    from e EV have v: "v \<in> V" by auto
    with rank e lay have "u \<in> set (concat (take (rank v) Ls))"
      using layered_preds [OF lay] by fastforce
    then obtain L where L: "L \<in> set (take (rank v) Ls)" "u \<in> set L" by auto
    from L(1) obtain j where "j < rank v" "j < length Ls" "L = Ls ! j"
      by (auto simp: in_set_conv_nth)
    with L(2) have j: "j < rank v" "j < length Ls" "u \<in> set (Ls ! j)" by auto
    then have "rank u \<le> j" unfolding rank_def by (intro Least_le) simp
    with j show ?thesis by simp
  qed
  then have "E \<subseteq> measure rank" by auto
  then show "acyclic E" by (meson acyclic_subset wf_acyclic wf_measure)
next
  assume "acyclic E"
  have fin: "finite E" using EV \<open>finite V\<close> by (meson finite_SigmaI finite_subset)
  let ?W = "V - set (concat Ls)"
  have sub: "set (concat Ls) \<subseteq> V" using layered_disjoint [OF lay] by blast
  have "?W = {}"
  proof (rule ccontr)
    assume "?W \<noteq> {}"
    with finite_acyclic_wf [OF fin \<open>acyclic E\<close>] obtain v
      where v: "v \<in> ?W" and "\<forall>u. (u, v) \<in> E \<longrightarrow> u \<notin> ?W"
      by (metis ex_in_conv wf_eq_minimal)
    then have "\<forall>u. (u, v) \<in> E \<longrightarrow> u \<in> set (concat Ls)" using EV by blast
    with v have "v \<in> frontier V E (set (concat Ls))" by (simp add: frontier_def)
    with layered_stuck [OF lay] show False by simp
  qed
  with sub show "set (concat Ls) = V" by blast
qed

section \<open>The degrees\<close>

lemma in_degree_put [simp]:
  "in_degree (gm_put m k d) i = (if i = k then d else in_degree m i)"
  by (simp add: in_degree_def)

lemma init_degrees_spec:
  "distinct (map ident ns) \<Longrightarrow>
   init_degrees ident ns (m, nm) = (m', nm') \<Longrightarrow> gomap_wf m \<Longrightarrow> gomap_wf nm \<Longrightarrow>
   gomap_wf m' \<and> gomap_wf nm' \<and> set (gm_keys m') = set (gm_keys m) \<union> ident ` set ns \<and>
   (\<forall>i. in_degree m' i = (if i \<in> ident ` set ns then 0 else in_degree m i)) \<and>
   (\<forall>i. i \<notin> ident ` set ns \<longrightarrow> gm_get nm' i = gm_get nm i) \<and>
   (\<forall>n \<in> set ns. gm_get nm' (ident n) = Some n)"
proof (induction ns arbitrary: m nm)
  case Nil
  then show ?case by simp
next
  case (Cons n ns)
  from Cons.IH [of "gm_put m (ident n) 0" "gm_put nm (ident n) n"] Cons.prems
  show ?case by (auto simp: dom_update image_iff)
qed

lemma count_children_spec:
  "gomap_wf m \<Longrightarrow> gomap_wf (count_children ident cs m) \<and>
   set (gm_keys (count_children ident cs m)) = set (gm_keys m) \<union> ident ` set cs \<and>
   in_degree (count_children ident cs m) i = in_degree m i + int (count (mset (map ident cs)) i)"
proof (induction cs arbitrary: m)
  case Nil
  then show ?case by simp
next
  case (Cons c cs)
  from Cons.IH [of "gm_put m (ident c) (in_degree m (ident c) + 1)"] Cons.prems
  show ?case by (auto simp: dom_update)
qed

lemma count_degrees_spec:
  assumes "order_ok ord" and "gomap_wf m"
  shows "gomap_wf (count_degrees G ident ord g ns m) \<and>
    set (gm_keys (count_degrees G ident ord g ns m)) =
      set (gm_keys m) \<union> ident ` (\<Union>n \<in> set ns. set (dg_From G g (ident n))) \<and>
    in_degree (count_degrees G ident ord g ns m) i =
      in_degree m i + int (\<Sum>n \<leftarrow> ns. count (mset (map ident (dg_From G g (ident n)))) i)"
  using assms(2)
proof (induction ns arbitrary: m)
  case Nil
  then show ?case by simp
next
  case (Cons n ns)
  have ord: "mset (ord k xs) = mset xs" for k xs using assms(1) by (simp add: order_ok_def)
  let ?cs = "ord (CountFrom (ident n)) (dg_From G g (ident n))"
  have cs: "mset (map ident ?cs) = mset (map ident (dg_From G g (ident n)))" "set ?cs = set (dg_From G g (ident n))"
    using ord by (simp, metis set_mset_mset)
  from count_children_spec [OF Cons.prems, of ident ?cs]
  have "gomap_wf (count_children ident ?cs m)"
    and "set (gm_keys (count_children ident ?cs m)) = set (gm_keys m) \<union> ident ` set (dg_From G g (ident n))"
    and "in_degree (count_children ident ?cs m) i =
      in_degree m i + int (count (mset (map ident (dg_From G g (ident n)))) i)"
    unfolding cs by blast+
  with Cons.IH [of "count_children ident ?cs m"] show ?case by (auto simp: image_UN)
qed

lemma release_layer_concat:
  "release_layer G ident ord g ns mr =
   release_children ident (concat (map (\<lambda>n. ord (LoopFrom (ident n)) (dg_From G g (ident n))) ns)) mr"
proof -
  have app: "release_children ident (xs @ ys) mr = release_children ident ys (release_children ident xs mr)"
    for xs ys mr
    by (induction ident xs mr rule: release_children.induct) (simp_all add: Let_def)
  show ?thesis
  proof (induction ns arbitrary: mr)
    case Nil
    show ?case by (cases mr) simp
  next
    case (Cons n ns)
    then show ?case by (simp add: app)
  qed
qed

text \<open>
  Releasing a list of children lowers each degree by the number of occurrences, and appends the
  children whose degree reaches zero, each once: at its last occurrence.
\<close>

lemma release_children_spec:
  "inj_on ident (set cs) \<Longrightarrow>
   (\<forall>c \<in> set cs. int (count (mset (map ident cs)) (ident c)) \<le> in_degree m (ident c)) \<Longrightarrow> gomap_wf m \<Longrightarrow>
   release_children ident cs (m, ready) = (m', ready') \<Longrightarrow>
   gomap_wf m' \<and> set (gm_keys m') = set (gm_keys m) \<union> ident ` set cs \<and>
   (\<forall>i. in_degree m' i = in_degree m i - int (count (mset (map ident cs)) i)) \<and>
   (\<exists>zs. ready' = ready @ zs \<and> distinct zs \<and>
      set zs = {c \<in> set cs. in_degree m (ident c) = int (count (mset (map ident cs)) (ident c))})"
proof (induction cs arbitrary: m ready)
  case Nil
  then show ?case by simp
next
  case (Cons c cs)
  define m1 where "m1 = gm_put m (ident c) (in_degree m (ident c) - 1)"
  define r1 where "r1 = (if in_degree m1 (ident c) = 0 then ready @ [c] else ready)"
  have inj: "inj_on ident (set cs)" and injc: "\<And>d. d \<in> set cs \<Longrightarrow> ident d = ident c \<Longrightarrow> d = c"
    using Cons.prems(1) by (auto simp: inj_on_def)
  have m1: "in_degree m1 i = (if i = ident c then in_degree m i - 1 else in_degree m i)" for i
    by (simp add: m1_def)
  have keys: "set (gm_keys m1) = insert (ident c) (set (gm_keys m))" by (simp add: m1_def dom_update)
  have bound: "\<forall>d \<in> set cs. int (count (mset (map ident cs)) (ident d)) \<le> in_degree m1 (ident d)"
  proof
    fix d assume "d \<in> set cs"
    with Cons.prems(2) have "int (count (mset (map ident (c # cs))) (ident d)) \<le> in_degree m (ident d)"
      by simp
    then show "int (count (mset (map ident cs)) (ident d)) \<le> in_degree m1 (ident d)"
      by (cases "ident d = ident c") (simp_all add: m1)
  qed
  have wf1: "gomap_wf m1" using Cons.prems(3) by (simp add: m1_def)
  have "release_children ident cs (m1, r1) = (m', ready')"
    using Cons.prems(4) by (simp only: m1_def r1_def Let_def release_children.simps)
  from Cons.IH [OF inj bound wf1 this]
  obtain zs where wf: "gomap_wf m'" and k: "set (gm_keys m') = set (gm_keys m1) \<union> ident ` set cs"
    and deg: "\<forall>i. in_degree m' i = in_degree m1 i - int (count (mset (map ident cs)) i)"
    and zs: "ready' = r1 @ zs" "distinct zs"
      "set zs = {d \<in> set cs. in_degree m1 (ident d) = int (count (mset (map ident cs)) (ident d))}"
    by blast
  define Q where "Q d \<longleftrightarrow> in_degree m (ident d) = int (count (mset (map ident (c # cs))) (ident d))" for d
  have Q: "in_degree m1 (ident d) = int (count (mset (map ident cs)) (ident d)) \<longleftrightarrow> Q d" for d
    by (auto simp: Q_def m1)
  have k': "set (gm_keys m') = set (gm_keys m) \<union> ident ` set (c # cs)" using k keys by auto
  have deg': "\<forall>i. in_degree m' i = in_degree m i - int (count (mset (map ident (c # cs))) i)"
    using deg by (auto simp: m1)
  have "\<exists>ys. ready' = ready @ ys \<and> distinct ys \<and> set ys = {d \<in> set (c # cs). Q d}"
  proof (cases "in_degree m1 (ident c) = 0")
    case True
    from Cons.prems(2) True have none: "count (mset (map ident cs)) (ident c) = 0" by (simp add: m1)
    then have "ident c \<notin> set (map ident cs)" by (simp only: count_eq_zero_iff set_mset_mset simp_thms)
    then have "c \<notin> set cs" by auto
    moreover have "Q c" using Q [of c] True none by simp
    ultimately show ?thesis using True zs unfolding Q by (intro exI [of _ "c # zs"]) (auto simp: r1_def)
  next
    case False
    have "c \<in> set cs" if "Q c"
    proof -
      from that False Q [of c] have "count (mset (map ident cs)) (ident c) \<noteq> 0" by auto
      then have "ident c \<in> set (map ident cs)" by (simp only: count_eq_zero_iff set_mset_mset simp_thms)
      then show ?thesis using injc by (metis in_set_conv_nth length_map nth_map)
    qed
    with False zs show ?thesis unfolding Q by (intro exI [of _ zs]) (auto simp: r1_def)
  qed
  with wf k' deg' show ?case unfolding Q_def by blast
qed

section \<open>The loop\<close>

definition sort_inv ::
  "('g, 'n, 'z) directed_scheme \<Rightarrow> ('n \<Rightarrow> int) \<Rightarrow> 'g \<Rightarrow> (int, int) gomap \<Rightarrow> 'n list \<Rightarrow> 'n set \<Rightarrow> bool" where
  "sort_inv G ident g m ready P \<longleftrightarrow>
     gomap_wf m \<and> set (gm_keys m) = ident ` set (dg_Nodes G g) \<and>
     (\<forall>v \<in> set (dg_Nodes G g). in_degree m (ident v) =
        int (card {u \<in> set (dg_Nodes G g) - P. (u, v) \<in> edges G ident g})) \<and>
     distinct ready \<and> set ready = frontier (set (dg_Nodes G g)) (edges G ident g) P \<and>
     P \<subseteq> set (dg_Nodes G g) \<and> (\<forall>u v. (u, v) \<in> edges G ident g \<longrightarrow> v \<in> P \<longrightarrow> u \<in> P)"

lemma edges_subset: "directed_ok G ident g \<Longrightarrow> edges G ident g \<subseteq> set (dg_Nodes G g) \<times> set (dg_Nodes G g)"
  by (auto simp: directed_ok_def edges_def)

lemma ident_inj: "directed_ok G ident g \<Longrightarrow> inj_on ident (set (dg_Nodes G g))"
  by (simp add: directed_ok_def distinct_map)

lemma count_From:
  assumes "directed_ok G ident g" and "v \<in> set (dg_Nodes G g)"
  shows "count (mset (map ident (dg_From G g i))) (ident v) = (if v \<in> set (dg_From G g i) then 1 else 0)"
proof -
  let ?from = "dg_From G g i"
  have sub: "set ?from \<subseteq> set (dg_Nodes G g)" and "distinct ?from"
    using assms(1) by (auto simp: directed_ok_def)
  then have "distinct (map ident ?from)"
    using ident_inj [OF assms(1)] by (meson distinct_map inj_on_subset)
  moreover have "ident v \<in> set (map ident ?from) \<longleftrightarrow> v \<in> set ?from"
    using ident_inj [OF assms(1)] sub assms(2) by (auto simp: inj_on_def)
  ultimately show ?thesis by (simp only: distinct_count_atmost_1)
qed

lemma sum_list_card: "distinct ns \<Longrightarrow> (\<Sum>n \<leftarrow> ns. if Q n then 1 else 0) = card {n \<in> set ns. Q n}"
proof (induction ns)
  case Nil
  show ?case by simp
next
  case (Cons n ns)
  have "{x \<in> set (n # ns). Q x} = (if Q n then insert n {x \<in> set ns. Q x} else {x \<in> set ns. Q x})"
    by auto
  with Cons show ?case by simp
qed

lemma sum_count_From:
  assumes "directed_ok G ident g" and "distinct ns" and "set ns \<subseteq> set (dg_Nodes G g)"
    and "v \<in> set (dg_Nodes G g)"
  shows "(\<Sum>n \<leftarrow> ns. count (mset (map ident (dg_From G g (ident n)))) (ident v)) =
    card {u \<in> set ns. (u, v) \<in> edges G ident g}"
proof -
  have "(\<Sum>n \<leftarrow> ns. count (mset (map ident (dg_From G g (ident n)))) (ident v)) =
      (\<Sum>n \<leftarrow> ns. if v \<in> set (dg_From G g (ident n)) then 1 else 0)"
    using assms(1,4) by (simp only: count_From)
  also have "\<dots> = card {n \<in> set ns. v \<in> set (dg_From G g (ident n))}"
    using assms(2) by (rule sum_list_card)
  also have "{n \<in> set ns. v \<in> set (dg_From G g (ident n))} = {u \<in> set ns. (u, v) \<in> edges G ident g}"
    using assms(3) by (auto simp: edges_def)
  finally show ?thesis .
qed

lemma order_okD: "order_ok ord \<Longrightarrow> mset (ord k xs) = mset xs"
  by (simp add: order_ok_def)

lemma order_ok_set: "order_ok ord \<Longrightarrow> set (ord k xs) = set xs"
  by (metis order_okD set_mset_mset)

lemma order_ok_distinct: "order_ok ord \<Longrightarrow> distinct (ord k xs) = distinct xs"
  by (metis order_okD mset_eq_imp_distinct_iff)

lemma count_concat_children:
  assumes "order_ok ord"
  shows "count (mset (map ident (concat (map (\<lambda>n. ord (LoopFrom (ident n)) (dg_From G g (ident n))) ns)))) i =
    (\<Sum>n \<leftarrow> ns. count (mset (map ident (dg_From G g (ident n)))) i)"
  using order_okD [OF assms] by (induction ns) simp_all

lemma set_concat_children:
  assumes "order_ok ord" and "directed_ok G ident g" and "set ns \<subseteq> set (dg_Nodes G g)"
  shows "set (concat (map (\<lambda>n. ord (LoopFrom (ident n)) (dg_From G g (ident n))) ns)) =
    {v. \<exists>u \<in> set ns. (u, v) \<in> edges G ident g}"
  using assms(3) by (auto simp: order_ok_set [OF assms(1)] edges_def)

lemma sort_inv_release:
  assumes ok: "directed_ok G ident g" and ord: "order_ok ord" and inv: "sort_inv G ident g m ready P"
    and rel: "release_layer G ident ord g ready (m, []) = (m', ready')"
  shows "sort_inv G ident g m' ready' (P \<union> set ready)"
proof -
  let ?V = "set (dg_Nodes G g)" and ?E = "edges G ident g"
  define cs where "cs = concat (map (\<lambda>n. ord (LoopFrom (ident n)) (dg_From G g (ident n))) ready)"
  have r: "set ready = frontier ?V ?E P" "distinct ready" and PV: "P \<subseteq> ?V"
    and closed: "\<And>u v. (u, v) \<in> ?E \<Longrightarrow> v \<in> P \<Longrightarrow> u \<in> P" and wf: "gomap_wf m"
    and keys: "set (gm_keys m) = ident ` ?V"
    and deg: "\<And>v. v \<in> ?V \<Longrightarrow> in_degree m (ident v) = int (card {u \<in> ?V - P. (u, v) \<in> ?E})"
    using inv by (auto simp: sort_inv_def)
  have rV: "set ready \<subseteq> ?V - P" using r(1) by (auto simp: frontier_def)
  have EV: "?E \<subseteq> ?V \<times> ?V" by (rule edges_subset [OF ok])
  have cs: "set cs = {v. \<exists>u \<in> set ready. (u, v) \<in> ?E}"
    unfolding cs_def using rV by (intro set_concat_children [OF ord ok]) blast
  have cnt: "count (mset (map ident cs)) (ident v) = card {u \<in> set ready. (u, v) \<in> ?E}" if "v \<in> ?V" for v
    unfolding cs_def count_concat_children [OF ord]
    using rV that by (intro sum_count_From [OF ok r(2)]) blast+
  have split: "card {u \<in> ?V - P. (u, v) \<in> ?E} =
      card {u \<in> set ready. (u, v) \<in> ?E} + card {u \<in> ?V - (P \<union> set ready). (u, v) \<in> ?E}" for v
  proof -
    have "{u \<in> ?V - P. (u, v) \<in> ?E} =
        {u \<in> set ready. (u, v) \<in> ?E} \<union> {u \<in> ?V - (P \<union> set ready). (u, v) \<in> ?E}" using rV by auto
    then show ?thesis by (simp add: card_Un_disjoint disjoint_iff)
  qed
  have csV: "set cs \<subseteq> ?V" using cs EV by auto
  have inj: "inj_on ident (set cs)" using ident_inj [OF ok] csV by (rule inj_on_subset)
  have bound: "\<forall>c \<in> set cs. int (count (mset (map ident cs)) (ident c)) \<le> in_degree m (ident c)"
    using csV cnt deg split by fastforce
  have rel': "release_children ident cs (m, []) = (m', ready')"
    using rel unfolding release_layer_concat cs_def .
  from release_children_spec [OF inj bound wf rel']
  have m': "gomap_wf m'" "set (gm_keys m') = ident ` ?V"
    "\<And>i. in_degree m' i = in_degree m i - int (count (mset (map ident cs)) i)"
    and ready': "distinct ready'"
      "set ready' = {c \<in> set cs. in_degree m (ident c) = int (count (mset (map ident cs)) (ident c))}"
    using csV keys by auto
  have zero: "card {u \<in> ?V - (P \<union> set ready). (u, v) \<in> ?E} = 0 \<longleftrightarrow>
      (\<forall>u. (u, v) \<in> ?E \<longrightarrow> u \<in> P \<union> set ready)" for v
    using EV by auto
  have left: "in_degree m (ident c) = int (count (mset (map ident cs)) (ident c)) \<longleftrightarrow>
      card {u \<in> ?V - (P \<union> set ready). (u, c) \<in> ?E} = 0" if "c \<in> ?V" for c
    unfolding cnt [OF that] deg [OF that] split [of c] by simp
  have "c \<in> set ready' \<longleftrightarrow> c \<in> frontier ?V ?E (P \<union> set ready)" for c
  proof -
    have "c \<in> set ready' \<longleftrightarrow> c \<in> set cs \<and> (\<forall>u. (u, c) \<in> ?E \<longrightarrow> u \<in> P \<union> set ready)"
      unfolding ready'(2) zero [symmetric] using csV left by blast
    also have "\<dots> \<longleftrightarrow> c \<in> frontier ?V ?E (P \<union> set ready)"
      using cs csV closed rV r(1) by (auto simp: frontier_def)
    finally show ?thesis .
  qed
  then have "set ready' = frontier ?V ?E (P \<union> set ready)" by blast
  moreover have "in_degree m' (ident v) = int (card {u \<in> ?V - (P \<union> set ready). (u, v) \<in> ?E})"
    if "v \<in> ?V" for v
    using m'(3) cnt [OF that] deg [OF that] split [of v] by simp
  moreover have "u \<in> P \<union> set ready" if "(u, v) \<in> ?E" "v \<in> P \<union> set ready" for u v
    using that closed r(1) by (auto simp: frontier_def)
  ultimately show ?thesis
    unfolding sort_inv_def using m' ready'(1) PV rV by blast
qed

lemma phase_loop_layered:
  assumes ok: "directed_ok G ident g" and ord: "order_ok ord"
  shows "sort_inv G ident g m ready P \<Longrightarrow>
    \<exists>m' Ls. phase_loop G ident ord g m ready phases n = Some (m', phases @ Ls, n + length (concat Ls)) \<and>
      layered (set (dg_Nodes G g)) (edges G ident g) P Ls \<and> length m' = length (dg_Nodes G g)"
proof (induction "card (set (dg_Nodes G g) - P)" arbitrary: m ready P phases n rule: less_induct)
  case less
  let ?V = "set (dg_Nodes G g)" and ?E = "edges G ident g"
  have r: "set ready = frontier ?V ?E P" using less.prems by (simp add: sort_inv_def)
  show ?case
  proof (cases "ready = []")
    case True
    have wf: "gomap_wf m" and keys: "set (gm_keys m) = ident ` ?V"
      using less.prems by (auto simp: sort_inv_def)
    have "length m = card (set (gm_keys m))"
      using wf by (metis distinct_card gomap_wf_def length_map)
    also have "\<dots> = length (dg_Nodes G g)"
      unfolding keys using ok by (metis directed_ok_def distinct_card length_map set_map)
    finally show ?thesis
      using True r by (intro exI [of _ m] exI [of _ "[]"]) (simp add: phase_loop.simps)
  next
    case False
    obtain m' ready' where rel: "release_layer G ident ord g ready (m, []) = (m', ready')"
      by (cases "release_layer G ident ord g ready (m, [])")
    have sub: "set ready \<subseteq> ?V - P" using r by (auto simp: frontier_def)
    with False have "card (?V - (P \<union> set ready)) < card (?V - P)"
      by (intro psubset_card_mono) (auto dest: hd_in_set)
    from less.hyps [OF this sort_inv_release [OF ok ord less.prems rel],
        of "phases @ [ready]" "n + length ready"]
    obtain m'' Ls where "phase_loop G ident ord g m' ready' (phases @ [ready]) (n + length ready) =
        Some (m'', (phases @ [ready]) @ Ls, n + length ready + length (concat Ls))"
      and lay: "layered ?V ?E (P \<union> set ready) Ls" and len: "length m'' = length (dg_Nodes G g)"
      by blast
    then have "phase_loop G ident ord g m ready phases n =
        Some (m'', phases @ ready # Ls, n + length (concat (ready # Ls)))"
      using False rel by (subst phase_loop.simps) (simp add: Let_def)
    moreover have "layered ?V ?E P (ready # Ls)"
      using False lay r less.prems by (simp add: sort_inv_def)
    ultimately show ?thesis using len by blast
  qed
qed

lemma initial_ready_filter:
  "\<forall>i \<in> set (map fst ds). gm_get nm i = Some (f i) \<Longrightarrow>
   initial_ready nm ds = map (\<lambda>p. f (fst p)) (filter (\<lambda>p. snd p = 0) ds)"
  by (induction nm ds rule: initial_ready.induct) auto

lemma sort_inv_initial:
  assumes ok: "directed_ok G ident g" and ord: "order_ok ord" and rng: "range_ok rng"
    and init: "init_degrees ident (ord InitNodes (dg_Nodes G g)) ([], []) = (m0, nm)"
    and m: "m = count_degrees G ident ord g (ord CountNodes (dg_Nodes G g)) m0"
  shows "sort_inv G ident g m (initial_ready nm (rng m)) {}"
proof -
  let ?V = "set (dg_Nodes G g)" and ?E = "edges G ident g"
  have dist: "distinct (map ident (ord k (dg_Nodes G g)))" for k
    using ok ident_inj [OF ok] by (simp add: directed_ok_def distinct_map order_ok_distinct [OF ord]
        order_ok_set [OF ord])
  note i = init_degrees_spec [OF dist init gomap_wf_Nil gomap_wf_Nil, unfolded order_ok_set [OF ord]]
  from i have wf0: "gomap_wf m0" by blast
  have keys0: "set (gm_keys m0) = ident ` ?V"
    using i by (simp only: list.map list.set Un_empty_left)
  have "\<forall>j. in_degree m0 j = (if j \<in> ident ` ?V then 0 else in_degree [] j)" using i by blast
  then have deg0: "in_degree m0 j = 0" for j by (simp add: in_degree_def [of "[]"])
  note c = count_degrees_spec [OF ord wf0, of G ident g "ord CountNodes (dg_Nodes G g)",
      folded m, unfolded order_ok_set [OF ord] keys0 deg0]
  have wf: "gomap_wf m" using c by blast
  have "ident ` (\<Union>n \<in> ?V. set (dg_From G g (ident n))) \<subseteq> ident ` ?V"
    using ok by (auto simp: directed_ok_def)
  then have keys: "set (gm_keys m) = ident ` ?V"
    using c [THEN conjunct2, THEN conjunct1] by (simp only: Un_absorb2)
  have "distinct (ord CountNodes (dg_Nodes G g))" using dist by (metis distinct_map)
  then have deg: "in_degree m (ident v) = int (card {u \<in> ?V. (u, v) \<in> ?E})" if "v \<in> ?V" for v
    using c sum_count_From [OF ok, of "ord CountNodes (dg_Nodes G g)" v,
        unfolded order_ok_set [OF ord], OF _ subset_refl that] by simp
  have nm: "gm_get nm (ident v) = Some v" if "v \<in> ?V" for v using i that by blast
  define f where "f i = inv_into ?V ident i" for i
  have f: "f (ident v) = v" if "v \<in> ?V" for v
    using that ident_inj [OF ok] by (simp add: f_def inv_into_f_f)
  have rm: "mset (rng m) = mset m" using rng by (simp add: range_ok_def)
  then have srm: "set (rng m) = set m" by (metis set_mset_mset)
  have drm: "distinct (map fst (rng m))"
    using wf rm by (metis gomap_wf_def mset_eq_imp_distinct_iff mset_map)
  have ready: "initial_ready nm (rng m) = map (\<lambda>p. f (fst p)) (filter (\<lambda>p. snd p = 0) (rng m))"
  proof (rule initial_ready_filter)
    have "set (map fst (rng m)) = ident ` ?V" using keys srm by simp
    then show "\<forall>i \<in> set (map fst (rng m)). gm_get nm i = Some (f i)" using nm f by auto
  qed
  have "distinct (map (\<lambda>p. f (fst p)) (rng m))"
  proof -
    have "inj_on f (set (map fst (rng m)))"
      using keys f srm by (auto intro!: inj_onI simp: f_def inv_into_injective)
    with drm have "distinct (map f (map fst (rng m)))" by (simp only: distinct_map)
    then show ?thesis by (simp add: comp_def)
  qed
  then have dr: "distinct (initial_ready nm (rng m))"
    unfolding ready by (rule distinct_map_filter)
  have "set (initial_ready nm (rng m)) = {v \<in> ?V. in_degree m (ident v) = 0}"
  proof -
    have mem: "(i, d) \<in> set m \<longleftrightarrow> i \<in> ident ` ?V \<and> in_degree m i = d" for i d
      using wf keys gm_key_iff [of i m] by (auto simp: in_degree_def gm_get_iff_mem [symmetric])
    have "set (initial_ready nm (rng m)) = (\<lambda>p. f (fst p)) ` {p \<in> set m. snd p = 0}"
      by (simp add: ready srm)
    also have "{p \<in> set m. snd p = 0} = (\<lambda>v. (ident v, 0)) ` {v \<in> ?V. in_degree m (ident v) = 0}"
      using mem by auto
    also have "(\<lambda>p. f (fst p)) ` \<dots> = {v \<in> ?V. in_degree m (ident v) = 0}"
      using f by (simp add: image_image)
    finally show ?thesis .
  qed
  also have "\<dots> = frontier ?V ?E {}"
    using deg edges_subset [OF ok] by (auto simp: frontier_def)
  finally show ?thesis
    using wf keys deg dr by (simp add: sort_inv_def)
qed

text \<open>The sort returns, with the promised layers or with the error when a node is left over.\<close>

lemma layeredTopoSort_result:
  assumes "directed_ok G ident g" and "order_ok ord" and "range_ok rng"
  shows "\<exists>Ls. layered (set (dg_Nodes G g)) (edges G ident g) {} Ls \<and>
    layeredTopoSort G ident ord rng g =
      Some (if acyclic (edges G ident g) then Inr Ls else Inl ErrCycleDetected)"
proof -
  obtain m0 nm where init: "init_degrees ident (ord InitNodes (dg_Nodes G g)) ([], []) = (m0, nm)"
    by (cases "init_degrees ident (ord InitNodes (dg_Nodes G g)) ([], [])")
  define m where "m = count_degrees G ident ord g (ord CountNodes (dg_Nodes G g)) m0"
  from phase_loop_layered [OF assms(1,2) sort_inv_initial [OF assms init m_def], of "[]" 0]
  obtain m' Ls where run: "phase_loop G ident ord g m (initial_ready nm (rng m)) [] 0 =
      Some (m', Ls, length (concat Ls))"
    and lay: "layered (set (dg_Nodes G g)) (edges G ident g) {} Ls"
    and len: "length m' = length (dg_Nodes G g)"
    by auto
  have "distinct (dg_Nodes G g)" using assms(1) by (simp add: directed_ok_def distinct_map)
  then have "length (dg_Nodes G g) = card (set (dg_Nodes G g))" by (simp add: distinct_card)
  moreover have "length (concat Ls) = card (set (concat Ls))"
    using distinct_card [OF layered_distinct [OF lay]] by (rule sym)
  moreover have "set (concat Ls) \<subseteq> set (dg_Nodes G g)" using layered_disjoint [OF lay] by blast
  ultimately have "length (concat Ls) < length m' \<longleftrightarrow> set (concat Ls) \<noteq> set (dg_Nodes G g)"
    unfolding len by (metis List.finite_set card_mono card_subset_eq linorder_neqE_nat not_le)
  also have "\<dots> \<longleftrightarrow> \<not> acyclic (edges G ident g)"
    using layered_complete [OF lay _ edges_subset [OF assms(1)]] by simp
  finally have "layeredTopoSort G ident ord rng g =
      Some (if acyclic (edges G ident g) then Inr Ls else Inl ErrCycleDetected)"
    using run unfolding layeredTopoSort_def init m_def by simp
  with lay show ?thesis by blast
qed

section \<open>The sort is correct\<close>

text \<open>
  C1. The layered topological sort returns on every graph. On an acyclic graph it returns layers that
  contain every node exactly once, and every predecessor of a node is in a strictly earlier layer; on
  a graph with a cycle it returns the cycle error. The order in which the graph and the maps are
  iterated does not matter.
\<close>
theorem layeredTopoSort_correct:
  assumes "directed_ok G ident g" and "order_ok ord" and "range_ok rng"
  shows "\<exists>r. layeredTopoSort G ident ord rng g = Some r \<and>
    (case r of
       Inl e \<Rightarrow> \<not> acyclic (edges G ident g)
     | Inr Ls \<Rightarrow> acyclic (edges G ident g) \<and> distinct (concat Ls) \<and>
         set (concat Ls) = set (dg_Nodes G g) \<and>
         (\<forall>i < length Ls. \<forall>v \<in> set (Ls ! i). \<forall>u. (u, v) \<in> edges G ident g \<longrightarrow>
            u \<in> set (concat (take i Ls))))"
proof -
  from layeredTopoSort_result [OF assms] obtain Ls
    where lay: "layered (set (dg_Nodes G g)) (edges G ident g) {} Ls"
      and res: "layeredTopoSort G ident ord rng g =
        Some (if acyclic (edges G ident g) then Inr Ls else Inl ErrCycleDetected)"
    by blast
  note complete = layered_complete [OF lay finite_set edges_subset [OF assms(1)]]
  have "\<forall>i < length Ls. \<forall>v \<in> set (Ls ! i). \<forall>u. (u, v) \<in> edges G ident g \<longrightarrow>
      u \<in> set (concat (take i Ls))"
    using layered_preds [OF lay] by (simp only: Un_empty_left) blast
  then show ?thesis
    unfolding res using layered_distinct [OF lay] complete by (cases "acyclic (edges G ident g)") auto
qed

text \<open>
  The layers are as wide as they can be: none is empty, and every node outside the first layer has
  a predecessor in the layer just before its own, so it could not have been placed earlier.
\<close>
theorem layeredTopoSort_widest:
  assumes "directed_ok G ident g" and "order_ok ord" and "range_ok rng"
    and "layeredTopoSort G ident ord rng g = Some (Inr Ls)"
    and "i < length Ls"
  shows "Ls ! i \<noteq> [] \<and>
    (\<forall>v \<in> set (Ls ! i). i = 0 \<or> (\<exists>u \<in> set (Ls ! (i - 1)). (u, v) \<in> edges G ident g))"
proof -
  from layeredTopoSort_result [OF assms(1-3)] assms(4)
  have lay: "layered (set (dg_Nodes G g)) (edges G ident g) {} Ls"
    by (auto split: if_splits)
  have "i = 0 \<or> (\<exists>u \<in> set (Ls ! (i - 1)). (u, v) \<in> edges G ident g)" if "v \<in> set (Ls ! i)" for v
  proof (cases "\<exists>u. (u, v) \<in> edges G ident g")
    case True
    with layered_maximal [OF lay assms(5) that] show ?thesis by blast
  next
    case False
    with layered_first [OF lay assms(5) that] show ?thesis by blast
  qed
  with layered_nonempty [OF lay assms(5)] show ?thesis by blast
qed

text \<open>A graph given by its lists, for evaluating the sort.\<close>

definition list_directed :: "('n list \<times> (int \<Rightarrow> 'n list), 'n) directed" where
  "list_directed = \<lparr>dg_Nodes = fst, dg_From = snd\<rparr>"

definition diamond :: "int list \<times> (int \<Rightarrow> int list)" where
  "diamond = ([1, 2, 3, 4], (\<lambda>_. [])(1 := [2, 3], 2 := [4], 3 := [4]))"

lemma diamond_ok: "directed_ok list_directed (\<lambda>n. n) diamond"
  by (auto simp: directed_ok_def list_directed_def diamond_def)

lemma identity_orders: "order_ok (\<lambda>k xs. xs)" "range_ok (\<lambda>xs. xs)"
  by (simp_all add: order_ok_def range_ok_def)

lemma diamond_sorted:
  "layeredTopoSort list_directed (\<lambda>n. n) (\<lambda>k xs. xs) (\<lambda>xs. xs) diamond = Some (Inr [[1], [2, 3], [4]])"
  by (simp add: layeredTopoSort_def list_directed_def diamond_def phase_loop.simps in_degree_def Let_def)

theorem layeredTopoSort_correct_witness:
  "acyclic (edges list_directed (\<lambda>n. n) diamond) \<and>
   layeredTopoSort list_directed (\<lambda>n. n) (\<lambda>k xs. xs) (\<lambda>xs. xs) diamond = Some (Inr [[1], [2, 3], [4]])"
  using layeredTopoSort_correct [OF diamond_ok identity_orders] diamond_sorted by simp

theorem layeredTopoSort_widest_witness:
  "\<exists>u \<in> set ([[1], [2, 3], [4 :: int]] ! 1). (u, 4) \<in> edges list_directed (\<lambda>n. n) diamond"
  using layeredTopoSort_widest [OF diamond_ok identity_orders diamond_sorted, of 2] by simp

end
