(* ===== verification/Resource_State.thy ===== *)
theory Resource_State
  imports CP_Prelude Ds_Set Ds_Version
begin

text \<open>
  Resource data and states (\<^verbatim>\<open>server/internal/resource/resource.go\<close>, \<^verbatim>\<open>state.go\<close>): the resources of a
  database by type and id, and the operations that read and change them. A state is a Go map of maps;
  its abstraction is the partial function from identifiers to resource data.
\<close>

type_synonym resource_type = string

record ident =
  ident_ID :: string
  ident_Type :: resource_type

datatype executor_type = ExecutorTypeHost | ExecutorTypePrimary | ExecutorTypeAny | ExecutorTypeManager

record executor =
  exec_Type :: executor_type
  exec_ID :: string

record resource_data =
  NeedsRecreate :: bool
  Executor :: executor
  Identifier :: ident
  Attributes :: string
  Dependencies :: "ident list"
  TypeDependencies :: "resource_type list"
  DiffIgnore :: "string list"
  ResourceVersion :: string
  PendingDeletion :: bool
  Error :: string

record state =
  Version :: "version option"
  Resources :: "(resource_type, (string, resource_data) gomap) gomap"

datatype event_type =
    EventTypeRefresh | EventTypeCreate | EventTypeUpdate | EventTypeDelete | UnknownEventType string

datatype event_reason =
    NoReason | EventReasonDoesNotExist | EventReasonNeedsRecreate | EventReasonHasDiff
  | EventReasonForceUpdate | EventReasonDependencyUpdated | EventReasonHasError

text \<open>An event; the patch of \<^verbatim>\<open>jsondiff\<close> is a parameter type, \<open>None\<close> the nil patch.\<close>

record 'p event =
  ev_Type :: event_type
  ev_Resource :: resource_data
  ev_Reason :: event_reason
  ev_Diff :: "'p option"

datatype state_error = ErrStateNeedsUpgrade | ErrControlPlaneNeedsUpgrade | ErrUnknownEventType string

section \<open>Executors and identifiers\<close>

definition HostExecutor :: "string \<Rightarrow> executor" where
  "HostExecutor hostID = \<lparr>exec_Type = ExecutorTypeHost, exec_ID = hostID\<rparr>"

definition PrimaryExecutor :: "string \<Rightarrow> executor" where
  "PrimaryExecutor nodeName = \<lparr>exec_Type = ExecutorTypePrimary, exec_ID = nodeName\<rparr>"

definition AnyExecutor :: executor where
  "AnyExecutor = \<lparr>exec_Type = ExecutorTypeAny, exec_ID = []\<rparr>"

definition ManagerExecutor :: executor where
  "ManagerExecutor = \<lparr>exec_Type = ExecutorTypeManager, exec_ID = []\<rparr>"

definition Identifier_String :: "ident \<Rightarrow> string" where
  "Identifier_String r = ident_Type r @ ''::'' @ ident_ID r"

section \<open>Versions of a state\<close>

definition StateVersion_1_0_0 :: version where
  "StateVersion_1_0_0 = \<lparr>Components = [1, 0, 0]\<rparr>"

definition StateVersion_1_1_0 :: version where
  "StateVersion_1_1_0 = \<lparr>Components = [1, 1, 0]\<rparr>"

definition StateVersion_1_2_0 :: version where
  "StateVersion_1_2_0 = \<lparr>Components = [1, 2, 0]\<rparr>"

definition CurrentVersion :: version where
  "CurrentVersion = StateVersion_1_2_0"

definition NewState :: state where
  "NewState = \<lparr>Version = Some CurrentVersion, Resources = []\<rparr>"

text \<open>\<^verbatim>\<open>ValidateVersion\<close> also replaces a nil version by the empty one.\<close>

definition ValidateVersion :: "state \<Rightarrow> state_error option \<times> state" where
  "ValidateVersion s =
     (let s' = (case Version s of None \<Rightarrow> s\<lparr>Version := Some \<lparr>Components = []\<rparr>\<rparr> | Some _ \<Rightarrow> s);
          comparison = Version_Compare CurrentVersion (the (Version s'))
      in (if comparison < 0 then Some ErrControlPlaneNeedsUpgrade
          else if comparison > 0 then Some ErrStateNeedsUpgrade
          else None, s'))"

section \<open>Operations\<close>

definition add_one :: "state \<Rightarrow> resource_data \<Rightarrow> state" where
  "add_one s d =
     (let resources = (case gm_get (Resources s) (ident_Type (Identifier d)) of
                         Some m \<Rightarrow> m | None \<Rightarrow> [])
      in s\<lparr>Resources := gm_put (Resources s) (ident_Type (Identifier d))
             (gm_put resources (ident_ID (Identifier d)) d)\<rparr>)"

definition State_Add :: "state \<Rightarrow> resource_data list \<Rightarrow> state" where
  "State_Add s data = foldl add_one s data"

definition RemoveByIdentifier :: "state \<Rightarrow> ident \<Rightarrow> state" where
  "RemoveByIdentifier s identifier =
     (case gm_get (Resources s) (ident_Type identifier) of
        None \<Rightarrow> s
      | Some resources \<Rightarrow>
          let resources' = gm_delete resources (ident_ID identifier)
          in if length resources' = 0
             then s\<lparr>Resources := gm_delete (Resources s) (ident_Type identifier)\<rparr>
             else s\<lparr>Resources := gm_put (Resources s) (ident_Type identifier) resources'\<rparr>)"

definition State_Remove :: "state \<Rightarrow> resource_data \<Rightarrow> state" where
  "State_Remove s data = RemoveByIdentifier s (Identifier data)"

definition State_Get :: "state \<Rightarrow> ident \<Rightarrow> resource_data option" where
  "State_Get s identifier =
     (case gm_get (Resources s) (ident_Type identifier) of
        None \<Rightarrow> None
      | Some resources \<Rightarrow>
          (case gm_get resources (ident_ID identifier) of
             None \<Rightarrow> None
           | Some resource \<Rightarrow> Some resource))"

definition State_GetAll :: "state \<Rightarrow> resource_type \<Rightarrow> resource_data list" where
  "State_GetAll s resourceType =
     gm_values (case gm_get (Resources s) resourceType of Some m \<Rightarrow> m | None \<Rightarrow> [])"

definition State_Apply :: "state \<Rightarrow> 'p event \<Rightarrow> (state_error, state) res" where
  "State_Apply s event =
     (case ev_Type event of
        EventTypeRefresh \<Rightarrow> Inr (State_Add s [ev_Resource event])
      | EventTypeCreate \<Rightarrow> Inr (State_Add s [ev_Resource event])
      | EventTypeUpdate \<Rightarrow> Inr (State_Add s [ev_Resource event])
      | EventTypeDelete \<Rightarrow> Inr (State_Remove s (ev_Resource event))
      | UnknownEventType t \<Rightarrow> Inl (ErrUnknownEventType t))"

fun merge_types :: "(resource_type, (string, resource_data) gomap) gomap \<Rightarrow>
    (resource_type, (string, resource_data) gomap) gomap \<Rightarrow>
    (resource_type, (string, resource_data) gomap) gomap" where
  "merge_types rs [] = rs"
| "merge_types rs ((t, byID) # other) =
     (let mine = (case gm_get rs t of Some m \<Rightarrow> m | None \<Rightarrow> [])
      in merge_types (gm_put rs t (gm_copy mine byID)) other)"

definition State_Merge :: "state \<Rightarrow> state \<Rightarrow> state" where
  "State_Merge s other = s\<lparr>Resources := merge_types (Resources s) (Resources other)\<rparr>"

text \<open>
  \<^verbatim>\<open>PreparePendingDeletesAndRecreates\<close>: for each type, mark the resources that the end state does not
  have, and drop those that need to be recreated and are in the end state. A type keeps its entry even
  when the last of its resources is dropped.
\<close>

definition prepare_type :: "(string, resource_data) gomap \<Rightarrow> (string, resource_data) gomap \<Rightarrow>
    (string, resource_data) gomap" where
  "prepare_type byType endByType =
     map (\<lambda>(id, resource). (id,
         if gm_get endByType id = None then resource\<lparr>PendingDeletion := True\<rparr> else resource))
       (filter (\<lambda>(id, resource). \<not> (gm_get endByType id \<noteq> None \<and> NeedsRecreate resource)) byType)"

definition PreparePendingDeletesAndRecreates :: "state \<Rightarrow> state \<Rightarrow> state" where
  "PreparePendingDeletesAndRecreates s end_state =
     s\<lparr>Resources := map (\<lambda>(t, byType). (t,
         case gm_get (Resources end_state) t of
           None \<Rightarrow> map (\<lambda>(id, resource). (id, resource\<lparr>PendingDeletion := True\<rparr>)) byType
         | Some endByType \<Rightarrow> prepare_type byType endByType)) (Resources s)\<rparr>"

fun HasResources :: "state \<Rightarrow> ident list \<Rightarrow> bool" where
  "HasResources s [] = True"
| "HasResources s (identifier # rest) =
     (case State_Get s identifier of None \<Rightarrow> False | Some _ \<Rightarrow> HasResources s rest)"

section \<open>Well-formed states and the abstraction\<close>

text \<open>
  A state is well formed when its maps have no duplicate keys and every resource is stored under its
  own identifier.
\<close>

definition state_wf :: "state \<Rightarrow> bool" where
  "state_wf s \<longleftrightarrow> gomap_wf (Resources s) \<and>
     (\<forall>(t, m) \<in> set (Resources s). gomap_wf m \<and>
        (\<forall>(i, r) \<in> set m. Identifier r = \<lparr>ident_ID = i, ident_Type = t\<rparr>))"

definition all_resources :: "state \<Rightarrow> resource_data list" where
  "all_resources s = concat (map (\<lambda>(t, m). gm_values m) (Resources s))"

lemma ident_eq_iff: "(i :: ident) = j \<longleftrightarrow> ident_ID i = ident_ID j \<and> ident_Type i = ident_Type j"
  by (cases i; cases j) simp

lemma state_wf_iff:
  "state_wf s \<longleftrightarrow> gomap_wf (Resources s) \<and>
     (\<forall>t m. gm_get (Resources s) t = Some m \<longrightarrow> gomap_wf m \<and>
        (\<forall>i r. gm_get m i = Some r \<longrightarrow> Identifier r = \<lparr>ident_ID = i, ident_Type = t\<rparr>))"
  by (auto simp: state_wf_def gm_get_iff_mem split_beta) (fastforce simp: gm_get_iff_mem)+

lemma state_wfD:
  assumes "state_wf s" and "gm_get (Resources s) t = Some m"
  shows "gomap_wf m" and "gm_get m i = Some r \<Longrightarrow> Identifier r = \<lparr>ident_ID = i, ident_Type = t\<rparr>"
  using assms by (simp_all add: state_wf_iff)

lemma state_wf_NewState [simp]: "state_wf NewState"
  by (simp add: state_wf_def NewState_def)

lemma State_Get_NewState [simp]: "State_Get NewState i = None"
  by (simp add: State_Get_def NewState_def)

lemma State_Get_Identifier: "state_wf s \<Longrightarrow> State_Get s i = Some r \<Longrightarrow> Identifier r = i"
  by (auto simp: State_Get_def dest: state_wfD(2) split: option.splits)

lemma state_wf_put:
  assumes "state_wf s" and "gomap_wf m"
    and "\<And>i r. gm_get m i = Some r \<Longrightarrow> Identifier r = \<lparr>ident_ID = i, ident_Type = t\<rparr>"
  shows "state_wf (s\<lparr>Resources := gm_put (Resources s) t m\<rparr>)"
  using assms by (simp add: state_wf_iff)

lemma State_Get_put:
  "State_Get (s\<lparr>Resources := gm_put (Resources s) t m\<rparr>) i =
   (if ident_Type i = t then gm_get m (ident_ID i) else State_Get s i)"
  by (auto simp: State_Get_def split: option.splits)

lemma add_one_get: "State_Get (add_one s d) i = (if i = Identifier d then Some d else State_Get s i)"
  by (auto simp: add_one_def State_Get_put State_Get_def Let_def ident_eq_iff split: option.splits)

lemma add_one_wf: "state_wf s \<Longrightarrow> state_wf (add_one s d)"
  unfolding add_one_def Let_def
  by (rule state_wf_put) (auto split: option.splits if_splits dest: state_wfD)

lemma State_Add_Nil [simp]: "State_Add s [] = s"
  by (simp add: State_Add_def)

lemma State_Add_Cons [simp]: "State_Add s (d # ds) = State_Add (add_one s d) ds"
  by (simp add: State_Add_def)

lemma State_Add_wf: "state_wf s \<Longrightarrow> state_wf (State_Add s ds)"
  by (induction ds arbitrary: s) (simp_all add: add_one_wf)

lemma RemoveByIdentifier_get:
  "State_Get (RemoveByIdentifier s i) j = (if j = i then None else State_Get s j)"
proof (cases "gm_get (Resources s) (ident_Type i)")
  case None
  then show ?thesis by (auto simp: RemoveByIdentifier_def State_Get_def)
next
  case (Some m)
  show ?thesis
  proof (cases "gm_delete m (ident_ID i) = []")
    case True
    then have "gm_get (gm_delete m (ident_ID i)) k = None" for k by simp
    then have "gm_get m k = None" if "k \<noteq> ident_ID i" for k
      using that by (metis gm_get_delete)
    with True Some show ?thesis
      by (auto simp: RemoveByIdentifier_def State_Get_def ident_eq_iff split: option.splits)
  next
    case False
    with Some show ?thesis
      by (auto simp: RemoveByIdentifier_def State_Get_def Let_def ident_eq_iff split: option.splits)
  qed
qed

lemma RemoveByIdentifier_wf:
  assumes "state_wf s" shows "state_wf (RemoveByIdentifier s i)"
proof (cases "gm_get (Resources s) (ident_Type i)")
  case None
  with assms show ?thesis by (simp add: RemoveByIdentifier_def)
next
  case (Some m)
  have "state_wf (s\<lparr>Resources := gm_put (Resources s) (ident_Type i) (gm_delete m (ident_ID i))\<rparr>)"
    using assms state_wfD [OF assms Some]
    by (intro state_wf_put) (auto split: if_splits)
  moreover have "state_wf (s\<lparr>Resources := gm_delete (Resources s) (ident_Type i)\<rparr>)"
    using assms by (simp add: state_wf_iff)
  ultimately show ?thesis using Some by (simp add: RemoveByIdentifier_def Let_def)
qed

lemma merge_types_get:
  "gomap_wf other \<Longrightarrow> gm_get (merge_types rs other) t =
   (case gm_get other t of
      None \<Rightarrow> gm_get rs t
    | Some byID \<Rightarrow> Some (gm_copy (case gm_get rs t of Some m \<Rightarrow> m | None \<Rightarrow> []) byID))"
proof (induction rs other rule: merge_types.induct)
  case (1 rs)
  show ?case by simp
next
  case (2 rs t' byID other)
  then have "gomap_wf other" and "gm_get other t' = None"
    by (simp_all add: gomap_wf_def map_of_eq_None_iff)
  with 2 show ?case by (auto simp: Let_def split: option.splits)
qed

lemma merge_types_wf: "gomap_wf rs \<Longrightarrow> gomap_wf (merge_types rs other)"
  by (induction rs other rule: merge_types.induct) (simp_all add: Let_def)

lemma State_Merge_get:
  assumes "state_wf other"
  shows "State_Get (State_Merge s other) i =
    (case State_Get other i of Some r \<Rightarrow> Some r | None \<Rightarrow> State_Get s i)"
proof -
  have "gomap_wf (Resources other)" using assms by (simp add: state_wf_iff)
  moreover have "gm_get (Resources other) (ident_Type i) = Some m \<Longrightarrow> gomap_wf m" for m
    using assms by (simp add: state_wf_iff)
  ultimately show ?thesis
    by (auto simp: State_Get_def State_Merge_def merge_types_get split: option.splits)
qed

lemma State_Merge_wf:
  assumes "state_wf s" and "state_wf other"
  shows "state_wf (State_Merge s other)"
proof -
  have wf: "gomap_wf (Resources other)" "gomap_wf (Resources s)" using assms by (simp_all add: state_wf_iff)
  have "gomap_wf m \<and> (\<forall>i r. gm_get m i = Some r \<longrightarrow> Identifier r = \<lparr>ident_ID = i, ident_Type = t\<rparr>)"
    if m: "gm_get (merge_types (Resources s) (Resources other)) t = Some m" for t m
  proof (cases "gm_get (Resources other) t")
    case None
    with m wf have "gm_get (Resources s) t = Some m" by (simp add: merge_types_get)
    with assms(1) show ?thesis by (simp add: state_wf_iff)
  next
    case (Some byID)
    then have "gomap_wf byID" using assms(2) by (simp add: state_wfD)
    moreover have "m = gm_copy (case gm_get (Resources s) t of Some m \<Rightarrow> m | None \<Rightarrow> []) byID"
      using m wf Some by (simp add: merge_types_get)
    ultimately show ?thesis
      using state_wfD [OF assms(2) Some] state_wfD [OF assms(1), of t]
      by (auto split: option.splits)
  qed
  with wf show ?thesis by (simp add: state_wf_iff State_Merge_def merge_types_wf)
qed

lemma prepare_type_get:
  "gomap_wf m \<Longrightarrow> gm_get (prepare_type m e) i =
   (case gm_get m i of
      None \<Rightarrow> None
    | Some r \<Rightarrow> if gm_get e i = None then Some (r\<lparr>PendingDeletion := True\<rparr>)
               else if NeedsRecreate r then None else Some r)"
  by (auto simp: prepare_type_def gm_get_filter split: option.splits)

lemma prepare_type_wf: "gomap_wf m \<Longrightarrow> gomap_wf (prepare_type m e)"
  by (simp add: prepare_type_def)

lemma Prepare_get:
  assumes "state_wf s"
  shows "State_Get (PreparePendingDeletesAndRecreates s e) i =
    (case State_Get s i of
       None \<Rightarrow> None
     | Some r \<Rightarrow> if State_Get e i = None then Some (r\<lparr>PendingDeletion := True\<rparr>)
                else if NeedsRecreate r then None else Some r)"
proof -
  have "gm_get (Resources s) (ident_Type i) = Some m \<Longrightarrow> gomap_wf m" for m
    using assms by (simp add: state_wf_iff)
  then show ?thesis
    by (auto simp: State_Get_def PreparePendingDeletesAndRecreates_def prepare_type_get
        split: option.splits)
qed

lemma Prepare_wf:
  assumes "state_wf s" shows "state_wf (PreparePendingDeletesAndRecreates s e)"
proof -
  have "gomap_wf m' \<and> (\<forall>i r. gm_get m' i = Some r \<longrightarrow> Identifier r = \<lparr>ident_ID = i, ident_Type = t\<rparr>)"
    if m': "gm_get (Resources (PreparePendingDeletesAndRecreates s e)) t = Some m'" for t m'
  proof -
    from m' obtain m where m: "gm_get (Resources s) t = Some m"
      and "m' = (case gm_get (Resources e) t of
           None \<Rightarrow> map (\<lambda>(id, resource). (id, resource\<lparr>PendingDeletion := True\<rparr>)) m
         | Some endByType \<Rightarrow> prepare_type m endByType)"
      by (auto simp: PreparePendingDeletesAndRecreates_def)
    with state_wfD [OF assms m] show ?thesis
      by (auto simp: prepare_type_wf prepare_type_get split: option.splits if_splits)
  qed
  moreover have "gomap_wf (Resources (PreparePendingDeletesAndRecreates s e))"
    using assms by (simp add: PreparePendingDeletesAndRecreates_def state_wf_iff)
  ultimately show ?thesis by (simp add: state_wf_iff)
qed

section \<open>The interface of a state\<close>

text \<open>
  What the users of a state rely on: lookup after adding and after removing, and an invariant that
  both keep.
\<close>

locale resource_map =
  fixes get :: "'s \<Rightarrow> ident \<Rightarrow> resource_data option"
    and add :: "'s \<Rightarrow> resource_data \<Rightarrow> 's"
    and remove :: "'s \<Rightarrow> ident \<Rightarrow> 's"
    and invar :: "'s \<Rightarrow> bool"
  assumes get_add: "invar s \<Longrightarrow> get (add s d) i = (if i = Identifier d then Some d else get s i)"
    and get_remove: "invar s \<Longrightarrow> get (remove s i) j = (if j = i then None else get s j)"
    and invar_add: "invar s \<Longrightarrow> invar (add s d)"
    and invar_remove: "invar s \<Longrightarrow> invar (remove s i)"
begin

lemma invar_foldl_add: "invar s \<Longrightarrow> invar (foldl add s ds)"
  by (induction ds arbitrary: s) (simp_all add: invar_add)

lemma get_foldl_add:
  "invar s \<Longrightarrow> get (foldl add s ds) i =
     (case find (\<lambda>d. Identifier d = i) (rev ds) of Some d \<Rightarrow> Some d | None \<Rightarrow> get s i)"
proof (induction ds arbitrary: s rule: rev_induct)
  case Nil
  show ?case by simp
next
  case (snoc d ds)
  then show ?case by (auto simp: get_add invar_foldl_add)
qed

lemma get_foldl_remove:
  "invar s \<Longrightarrow> get (foldl remove s is) i = (if i \<in> set is then None else get s i) \<and>
     invar (foldl remove s is)"
  by (induction "is" arbitrary: s) (auto simp: get_remove invar_remove)

end

interpretation rstate: resource_map State_Get add_one RemoveByIdentifier state_wf
  by unfold_locales (simp_all add: add_one_get RemoveByIdentifier_get add_one_wf RemoveByIdentifier_wf)

lemma State_Add_get:
  "state_wf s \<Longrightarrow> State_Get (State_Add s ds) i =
     (case find (\<lambda>d. Identifier d = i) (rev ds) of Some d \<Rightarrow> Some d | None \<Rightarrow> State_Get s i)"
  unfolding State_Add_def by (rule rstate.get_foldl_add)

lemma HasResources_iff: "HasResources s is \<longleftrightarrow> (\<forall>i \<in> set is. State_Get s i \<noteq> None)"
  by (induction "is") (auto split: option.splits)

section \<open>The resources of a state\<close>

lemma all_resources_iff:
  assumes "state_wf s"
  shows "r \<in> set (all_resources s) \<longleftrightarrow> State_Get s (Identifier r) = Some r"
proof
  assume "r \<in> set (all_resources s)"
  then obtain t m where tm: "(t, m) \<in> set (Resources s)" and r: "r \<in> set (gm_values m)"
    by (auto simp: all_resources_def)
  from tm assms have t: "gm_get (Resources s) t = Some m" by (simp add: state_wf_iff gm_get_iff_mem)
  with r obtain i where i: "gm_get m i = Some r"
    using gm_value_iff [OF state_wfD(1) [OF assms t]] by blast
  with state_wfD(2) [OF assms t i] t show "State_Get s (Identifier r) = Some r"
    by (simp add: State_Get_def)
next
  assume "State_Get s (Identifier r) = Some r"
  then obtain m where t: "gm_get (Resources s) (ident_Type (Identifier r)) = Some m"
    and i: "gm_get m (ident_ID (Identifier r)) = Some r"
    by (auto simp: State_Get_def split: option.splits)
  then have "(ident_Type (Identifier r), m) \<in> set (Resources s)" and "r \<in> set (gm_values m)"
    by (auto dest: map_of_SomeD intro: rev_image_eqI)
  then show "r \<in> set (all_resources s)" by (force simp: all_resources_def)
qed

lemma distinct_concat_types:
  "gomap_wf rs \<Longrightarrow>
   (\<And>t m. (t, m) \<in> set rs \<Longrightarrow> distinct (map Identifier (gm_values m)) \<and>
      (\<forall>r \<in> set (gm_values m). ident_Type (Identifier r) = t)) \<Longrightarrow>
   distinct (map Identifier (concat (map (\<lambda>(t, m). gm_values m) rs)))"
proof (induction rs)
  case Nil
  show ?case by simp
next
  case (Cons p rs)
  obtain t m where p: "p = (t, m)" by (cases p)
  let ?rest = "concat (map (\<lambda>(t, m). gm_values m) rs)"
  have m: "distinct (map Identifier (gm_values m))" "\<forall>r \<in> set (gm_values m). ident_Type (Identifier r) = t"
    using Cons.prems(2) [of t m] by (simp_all add: p)
  have "Identifier r \<noteq> Identifier r'" if r: "r \<in> set (gm_values m)" and r': "r' \<in> set ?rest" for r r'
  proof
    assume eq: "Identifier r = Identifier r'"
    from r' obtain t' m' where tm: "(t', m') \<in> set rs" and "r' \<in> set (gm_values m')" by auto
    then have "ident_Type (Identifier r') = t'" using Cons.prems(2) by (metis list.set_intros(2))
    with eq m(2) r have "t = t'" by metis
    with tm have "t \<in> set (gm_keys rs)" by force
    with Cons.prems(1) show False by (simp add: p gomap_wf_def)
  qed
  then have "set (map Identifier (gm_values m)) \<inter> set (map Identifier ?rest) = {}"
    unfolding set_map by blast
  moreover have "distinct (map Identifier ?rest)"
  proof (rule Cons.IH)
    show "gomap_wf rs" using Cons.prems(1) by (simp add: gomap_wf_def)
  qed (use Cons.prems(2) in \<open>meson list.set_intros(2)\<close>)
  ultimately have "distinct (map Identifier (gm_values m) @ map Identifier ?rest)"
    using m(1) by (simp only: distinct_append)
  then show ?case by (simp only: p list.map prod.case concat.simps map_append)
qed

lemma distinct_identifiers:
  assumes "state_wf s"
  shows "distinct (map Identifier (all_resources s))"
  unfolding all_resources_def
proof (rule distinct_concat_types)
  show "gomap_wf (Resources s)" using assms by (simp add: state_wf_iff)
  fix t m assume "(t, m) \<in> set (Resources s)"
  with assms have m: "gomap_wf m" "\<forall>(i, r) \<in> set m. Identifier r = \<lparr>ident_ID = i, ident_Type = t\<rparr>"
    unfolding state_wf_def by blast+
  then have "map Identifier (gm_values m) = map (\<lambda>i. \<lparr>ident_ID = i, ident_Type = t\<rparr>) (gm_keys m)"
    by auto
  moreover have "distinct (map (\<lambda>i. \<lparr>ident_ID = i, ident_Type = t\<rparr>) (gm_keys m))"
    using m(1) by (simp add: gomap_wf_def distinct_map inj_on_def)
  ultimately show "distinct (map Identifier (gm_values m)) \<and>
      (\<forall>r \<in> set (gm_values m). ident_Type (Identifier r) = t)"
    using m(2) by (simp only: simp_thms) auto
qed

section \<open>A state is a map from identifiers to resources\<close>

text \<open>
  C26. A state refines a partial map from identifiers to resource data: looking up an identifier after
  \<^verbatim>\<open>Add\<close>, \<^verbatim>\<open>RemoveByIdentifier\<close> or \<^verbatim>\<open>Merge\<close> gives what the corresponding operation on the map gives.
  Of several added resources with one identifier the last one counts, and a merged state takes
  precedence.
\<close>
theorem state_refines_map:
  assumes "state_wf s" and "state_wf other"
  shows "State_Get (State_Add s ds) i =
      (case find (\<lambda>d. Identifier d = i) (rev ds) of Some d \<Rightarrow> Some d | None \<Rightarrow> State_Get s i) \<and>
    State_Get (RemoveByIdentifier s j) i = (if i = j then None else State_Get s i) \<and>
    State_Get (State_Merge s other) i =
      (case State_Get other i of Some r \<Rightarrow> Some r | None \<Rightarrow> State_Get s i) \<and>
    (State_Get s i = Some r \<longleftrightarrow> r \<in> set (all_resources s) \<and> Identifier r = i)"
  using State_Add_get [OF assms(1)] RemoveByIdentifier_get State_Merge_get [OF assms(2)]
    all_resources_iff [OF assms(1), of r] State_Get_Identifier [OF assms(1), of i r] by auto

definition sample_resource :: "string \<Rightarrow> string \<Rightarrow> resource_data" where
  "sample_resource t i = \<lparr>NeedsRecreate = False, Executor = AnyExecutor,
     Identifier = \<lparr>ident_ID = i, ident_Type = t\<rparr>, Attributes = ''{}'', Dependencies = [],
     TypeDependencies = [], DiffIgnore = [], ResourceVersion = ''1'', PendingDeletion = False, Error = []\<rparr>"

theorem state_refines_map_witness:
  "State_Get (State_Merge NewState (State_Add NewState [sample_resource ''t'' ''a'']))
     \<lparr>ident_ID = ''a'', ident_Type = ''t''\<rparr> = Some (sample_resource ''t'' ''a'')"
  using state_refines_map [OF state_wf_NewState State_Add_wf [OF state_wf_NewState],
      of "[]" "\<lparr>ident_ID = ''a'', ident_Type = ''t''\<rparr>" _ "[sample_resource ''t'' ''a'']"]
  by (simp add: add_one_get sample_resource_def)

text \<open>
  C27. Every operation that changes a state keeps it well formed: each resource stays filed under its
  own identifier and no key is duplicated.
\<close>
theorem state_operations_keep_wf:
  assumes "state_wf s" and "state_wf other"
  shows "state_wf (State_Add s ds) \<and> state_wf (RemoveByIdentifier s i) \<and> state_wf (State_Merge s other) \<and>
    state_wf (PreparePendingDeletesAndRecreates s other) \<and> state_wf (snd (ValidateVersion s)) \<and>
    (case State_Apply s e of Inr s' \<Rightarrow> state_wf s' | Inl _ \<Rightarrow> \<exists>t. ev_Type e = UnknownEventType t)"
proof -
  have "state_wf (snd (ValidateVersion s))"
    using assms(1) by (simp add: ValidateVersion_def state_wf_iff Let_def split: option.splits)
  then show ?thesis
    using assms State_Add_wf RemoveByIdentifier_wf State_Merge_wf Prepare_wf
    by (cases "ev_Type e") (auto simp: State_Apply_def State_Remove_def add_one_wf)
qed

theorem state_operations_keep_wf_witness:
  "state_wf (State_Merge (State_Add NewState [sample_resource ''t'' ''a'']) NewState)"
  using state_operations_keep_wf [OF State_Add_wf [OF state_wf_NewState] state_wf_NewState,
      of "[sample_resource ''t'' ''a'']"] by blast

text \<open>
  C28. \<^verbatim>\<open>PreparePendingDeletesAndRecreates\<close> marks exactly the resources that the end state does not
  have, drops exactly those that need to be recreated and are in the end state, and leaves every other
  resource unchanged.
\<close>
theorem prepare_marks_and_drops:
  assumes "state_wf s"
  shows "State_Get (PreparePendingDeletesAndRecreates s end_state) i =
    (case State_Get s i of
       None \<Rightarrow> None
     | Some r \<Rightarrow> if State_Get end_state i = None then Some (r\<lparr>PendingDeletion := True\<rparr>)
                else if NeedsRecreate r then None else Some r)"
  using assms by (rule Prepare_get)

theorem prepare_marks_and_drops_witness:
  "State_Get (PreparePendingDeletesAndRecreates (State_Add NewState [sample_resource ''t'' ''a'']) NewState)
     \<lparr>ident_ID = ''a'', ident_Type = ''t''\<rparr> = Some (sample_resource ''t'' ''a''\<lparr>PendingDeletion := True\<rparr>)"
  using prepare_marks_and_drops [OF State_Add_wf [OF state_wf_NewState], of "[sample_resource ''t'' ''a'']" NewState
      "\<lparr>ident_ID = ''a'', ident_Type = ''t''\<rparr>"]
  by (simp add: add_one_get sample_resource_def)

text \<open>
  A state passes \<^verbatim>\<open>ValidateVersion\<close> exactly when its version is the current one; an older one, or
  none, asks for an upgrade of the state, and a newer one for an upgrade of the control plane.
\<close>
theorem ValidateVersion_branches:
  "fst (ValidateVersion s) =
    (case Version s of
       None \<Rightarrow> Some ErrStateNeedsUpgrade
     | Some v \<Rightarrow> if v = CurrentVersion then None
                else if Components v < Components CurrentVersion then Some ErrStateNeedsUpgrade
                else Some ErrControlPlaneNeedsUpgrade)"
proof (cases "Version s")
  case None
  have "Components CurrentVersion = [1, 2, 0]"
    by (simp add: CurrentVersion_def StateVersion_1_2_0_def)
  with None show ?thesis by (simp add: ValidateVersion_def Version_Compare_def)
next
  case (Some v)
  consider (same) "v = CurrentVersion" | (older) "Components v < Components CurrentVersion"
    | (newer) "Components CurrentVersion < Components v"
    using Version_Compare_eq [of v CurrentVersion]
    by (metis Version_Compare_ge Version_Compare_le linorder_le_less_linear order_antisym)
  then show ?thesis
  proof cases
    case same
    with Some show ?thesis by (simp add: ValidateVersion_def Version_Compare_def)
  next
    case older
    then have "v \<noteq> CurrentVersion" by auto
    moreover have "Version_Compare CurrentVersion v > 0" using older by (simp only: Version_Compare_greater)
    ultimately show ?thesis using Some older by (simp add: ValidateVersion_def)
  next
    case newer
    then have "v \<noteq> CurrentVersion" "\<not> Components v < Components CurrentVersion" by auto
    moreover have "Version_Compare CurrentVersion v < 0" using newer by (simp only: Version_Compare_less)
    ultimately show ?thesis using Some by (simp add: ValidateVersion_def)
  qed
qed

end
