(* ===== verification/Resource_Graph.thy ===== *)
theory Resource_Graph
  imports Resource_State Topo_Sort
begin

text \<open>
  The dependency graph of a state and its two traversal orders (\<^verbatim>\<open>State.graph\<close>, \<^verbatim>\<open>topoIter\<close>,
  \<^verbatim>\<open>CreationOrdered\<close>, \<^verbatim>\<open>DeletionOrdered\<close> of \<^verbatim>\<open>server/internal/resource/state.go\<close>). The graph type of
  the graph library is a parameter; its documented behaviour is the locale \<open>gonum_graph\<close>.
\<close>

record node =
  node_id :: int
  node_resource :: resource_data

record ('g, 'n) digraph = "('g, 'n) directed" +
  dg_New :: 'g
  dg_AddNode :: "'g \<Rightarrow> 'n \<Rightarrow> 'g"
  dg_Node :: "'g \<Rightarrow> int \<Rightarrow> 'n option"
  dg_SetEdge :: "'g \<Rightarrow> 'n \<Rightarrow> 'n \<Rightarrow> 'g"

record graphOptions =
  ignoreMissingDeps :: bool
  creationOrdered :: bool

datatype graph_error =
    ErrSelfDependency ident
  | ErrDependencyNotFound ident ident
  | ErrSelfTypeDependency ident resource_type
  | ErrSortFailed topo_error
  | NilNodePanic

text \<open>
  The orders of the map iterations: of the two passes over the resources, of the iterations of the
  sort, and of its range over the degrees.
\<close>

record iteration_orders =
  first_pass :: "resource_data list \<Rightarrow> resource_data list"
  second_pass :: "resource_data list \<Rightarrow> resource_data list"
  sort_orders :: "node orders"
  degree_order :: "(int \<times> int) list \<Rightarrow> (int \<times> int) list"

definition orders_ok :: "iteration_orders \<Rightarrow> bool" where
  "orders_ok I \<longleftrightarrow> range_ok (first_pass I) \<and> range_ok (second_pass I) \<and>
     order_ok (sort_orders I) \<and> range_ok (degree_order I)"

section \<open>Building the graph\<close>

definition addEdge :: "('g, node) digraph \<Rightarrow> graphOptions \<Rightarrow> 'g \<Rightarrow> node \<Rightarrow> node \<Rightarrow> 'g" where
  "addEdge G opts g from_node to_node =
     (if creationOrdered opts then dg_SetEdge G g from_node to_node
      else dg_SetEdge G g to_node from_node)"

text \<open>\<^verbatim>\<open>g.Node\<close> returns nil for an unknown id, and an edge with a nil end panics.\<close>

definition add_edge_by_id :: "('g, node) digraph \<Rightarrow> graphOptions \<Rightarrow> int \<Rightarrow> int \<Rightarrow> 'g \<Rightarrow>
    (graph_error, 'g) res" where
  "add_edge_by_id G opts fromID toID g =
     (case (dg_Node G g fromID, dg_Node G g toID) of
        (Some f, Some t) \<Rightarrow> Inr (addEdge G opts g f t)
      | _ \<Rightarrow> Inl NilNodePanic)"

fun add_nodes :: "('g, node) digraph \<Rightarrow> resource_data list \<Rightarrow> int \<Rightarrow>
    (ident, int) gomap \<Rightarrow> (resource_type, int list) gomap \<Rightarrow> 'g \<Rightarrow>
    (ident, int) gomap \<times> (resource_type, int list) gomap \<times> 'g" where
  "add_nodes G [] currID nodeIDs byType g = (nodeIDs, byType, g)"
| "add_nodes G (r # rs) currID nodeIDs byType g =
     (let t = ident_Type (Identifier r);
          ids = (case gm_get byType t of Some l \<Rightarrow> l | None \<Rightarrow> [])
      in add_nodes G rs (currID + 1) (gm_put nodeIDs (Identifier r) currID)
           (gm_put byType t (ids @ [currID]))
           (dg_AddNode G g \<lparr>node_id = currID, node_resource = r\<rparr>))"

definition add_dep :: "('g, node) digraph \<Rightarrow> graphOptions \<Rightarrow> (ident, int) gomap \<Rightarrow> resource_data \<Rightarrow> int \<Rightarrow>
    ident \<Rightarrow> 'g \<Rightarrow> (graph_error, 'g) res" where
  "add_dep G opts nodeIDs resource toID dep g =
     (if dep = Identifier resource then Inl (ErrSelfDependency (Identifier resource))
      else case gm_get nodeIDs dep of
             None \<Rightarrow> if ignoreMissingDeps opts then Inr g
                     else Inl (ErrDependencyNotFound (Identifier resource) dep)
           | Some fromID \<Rightarrow> add_edge_by_id G opts fromID toID g)"

definition add_type_dep :: "('g, node) digraph \<Rightarrow> graphOptions \<Rightarrow> (resource_type, int list) gomap \<Rightarrow>
    resource_data \<Rightarrow> int \<Rightarrow> resource_type \<Rightarrow> 'g \<Rightarrow> (graph_error, 'g) res" where
  "add_type_dep G opts byType resource toID ty g =
     (if ty = ident_Type (Identifier resource) then Inl (ErrSelfTypeDependency (Identifier resource) ty)
      else fold_res (\<lambda>fromID. add_edge_by_id G opts fromID toID)
             (case gm_get byType ty of Some l \<Rightarrow> l | None \<Rightarrow> []) g)"

definition add_resource_edges :: "('g, node) digraph \<Rightarrow> graphOptions \<Rightarrow> (ident, int) gomap \<Rightarrow>
    (resource_type, int list) gomap \<Rightarrow> resource_data \<Rightarrow> 'g \<Rightarrow> (graph_error, 'g) res" where
  "add_resource_edges G opts nodeIDs byType resource g =
     (let toID = (case gm_get nodeIDs (Identifier resource) of Some i \<Rightarrow> i | None \<Rightarrow> 0)
      in rbind (fold_res (add_dep G opts nodeIDs resource toID) (Dependencies resource) g)
           (\<lambda>g. fold_res (add_type_dep G opts byType resource toID) (TypeDependencies resource) g))"

definition State_graph :: "('g, node) digraph \<Rightarrow> iteration_orders \<Rightarrow> graphOptions \<Rightarrow> state \<Rightarrow>
    (graph_error, 'g) res" where
  "State_graph G I opts s =
     (let (nodeIDs, byType, g) = add_nodes G (first_pass I (all_resources s)) 1 [] [] (dg_New G)
      in fold_res (add_resource_edges G opts nodeIDs byType) (second_pass I (all_resources s)) g)"

definition topoIter :: "('g, node) digraph \<Rightarrow> iteration_orders \<Rightarrow> graphOptions \<Rightarrow> state \<Rightarrow>
    (graph_error, resource_data list list) res option" where
  "topoIter G I opts s =
     (case State_graph G I opts s of
        Inl e \<Rightarrow> Some (Inl e)
      | Inr g \<Rightarrow>
          (case layeredTopoSort G node_id (sort_orders I) (degree_order I) g of
             None \<Rightarrow> None
           | Some (Inl e) \<Rightarrow> Some (Inl (ErrSortFailed e))
           | Some (Inr layers) \<Rightarrow> Some (Inr (map (map node_resource) layers))))"

definition CreationOrdered :: "('g, node) digraph \<Rightarrow> iteration_orders \<Rightarrow> bool \<Rightarrow> state \<Rightarrow>
    (graph_error, resource_data list list) res option" where
  "CreationOrdered G I ignore_missing s =
     topoIter G I \<lparr>ignoreMissingDeps = ignore_missing, creationOrdered = True\<rparr> s"

definition DeletionOrdered :: "('g, node) digraph \<Rightarrow> iteration_orders \<Rightarrow> bool \<Rightarrow> state \<Rightarrow>
    (graph_error, resource_data list list) res option" where
  "DeletionOrdered G I ignore_missing s =
     topoIter G I \<lparr>ignoreMissingDeps = ignore_missing, creationOrdered = False\<rparr> s"

section \<open>What the graph library promises\<close>

text \<open>
  A new graph is empty; adding a node with a fresh id adds that node and no edge; setting an edge
  between two different nodes of the graph adds that edge and nothing else; nodes are found by id.
\<close>

locale gonum_graph =
  fixes G :: "('g, node) digraph"
  assumes new_ok: "directed_ok G node_id (dg_New G) \<and> dg_Nodes G (dg_New G) = []"
    and add_node: "directed_ok G node_id g \<Longrightarrow> node_id n \<notin> node_id ` set (dg_Nodes G g) \<Longrightarrow>
      directed_ok G node_id (dg_AddNode G g n) \<and>
      set (dg_Nodes G (dg_AddNode G g n)) = insert n (set (dg_Nodes G g)) \<and>
      (\<forall>i. set (dg_From G (dg_AddNode G g n) i) = set (dg_From G g i))"
    and find_node: "directed_ok G node_id g \<Longrightarrow>
      dg_Node G g i = Some n \<longleftrightarrow> n \<in> set (dg_Nodes G g) \<and> node_id n = i"
    and set_edge: "directed_ok G node_id g \<Longrightarrow> u \<in> set (dg_Nodes G g) \<Longrightarrow> v \<in> set (dg_Nodes G g) \<Longrightarrow>
      node_id u \<noteq> node_id v \<Longrightarrow>
      directed_ok G node_id (dg_SetEdge G g u v) \<and>
      set (dg_Nodes G (dg_SetEdge G g u v)) = set (dg_Nodes G g) \<and>
      (\<forall>i. set (dg_From G (dg_SetEdge G g u v) i) =
         (if i = node_id u then insert v (set (dg_From G g i)) else set (dg_From G g i)))"

section \<open>What a traversal promises\<close>

text \<open>
  The dependencies the code draws: of a resource on a resource it names, and on every resource of a
  type it names. \<open>deps_valid\<close> says that no error of \<^verbatim>\<open>State.graph\<close> applies.
\<close>

definition depends_on :: "resource_data \<Rightarrow> resource_data \<Rightarrow> bool" where
  "depends_on r d \<longleftrightarrow> Identifier d \<in> set (Dependencies r) \<or>
     ident_Type (Identifier d) \<in> set (TypeDependencies r)"

definition dependency_edges :: "state \<Rightarrow> (resource_data \<times> resource_data) set" where
  "dependency_edges s =
     {(d, r). d \<in> set (all_resources s) \<and> r \<in> set (all_resources s) \<and> depends_on r d}"

definition deps_valid :: "bool \<Rightarrow> state \<Rightarrow> bool" where
  "deps_valid ignore_missing s \<longleftrightarrow> (\<forall>r \<in> set (all_resources s).
     Identifier r \<notin> set (Dependencies r) \<and> ident_Type (Identifier r) \<notin> set (TypeDependencies r) \<and>
     (\<forall>d \<in> set (Dependencies r). ignore_missing \<or> State_Get s d \<noteq> None))"

section \<open>The layers through an injective renaming\<close>

lemma frontier_image:
  assumes "inj_on f V" and "E \<subseteq> V \<times> V" and "P \<subseteq> V"
  shows "frontier (f ` V) (map_prod f f ` E) (f ` P) = f ` frontier V E P"
proof -
  have mem: "f v \<in> f ` P \<longleftrightarrow> v \<in> P" if "v \<in> V" for v
    using assms(1,3) that by (meson inj_on_image_mem_iff)
  have pred: "(u', f v) \<in> map_prod f f ` E \<longleftrightarrow> (\<exists>u. u' = f u \<and> (u, v) \<in> E)" if "v \<in> V" for u' v
  proof
    assume "(u', f v) \<in> map_prod f f ` E"
    then obtain a b where "(a, b) \<in> E" "u' = f a" "f v = f b" by auto
    moreover from this that assms(1,2) have "v = b" by (meson inj_onD mem_Sigma_iff subsetD)
    ultimately show "\<exists>u. u' = f u \<and> (u, v) \<in> E" by blast
  qed force
  have "f v \<in> frontier (f ` V) (map_prod f f ` E) (f ` P) \<longleftrightarrow> v \<in> frontier V E P" if "v \<in> V" for v
  proof -
    have "(\<forall>u'. (u', f v) \<in> map_prod f f ` E \<longrightarrow> u' \<in> f ` P) \<longleftrightarrow> (\<forall>u. (u, v) \<in> E \<longrightarrow> f u \<in> f ` P)"
      unfolding pred [OF that] by blast
    also have "\<dots> \<longleftrightarrow> (\<forall>u. (u, v) \<in> E \<longrightarrow> u \<in> P)" using mem assms(2) by (meson mem_Sigma_iff subsetD)
    finally show ?thesis using mem [OF that] that by (simp add: frontier_def)
  qed
  moreover have "frontier (f ` V) (map_prod f f ` E) (f ` P) \<subseteq> f ` V" "frontier V E P \<subseteq> V"
    by (auto simp: frontier_def)
  ultimately show ?thesis by blast
qed

lemma layered_image:
  assumes "inj_on f V" and "E \<subseteq> V \<times> V"
  shows "P \<subseteq> V \<Longrightarrow> layered V E P Ls \<Longrightarrow>
    layered (f ` V) (map_prod f f ` E) (f ` P) (map (map f) Ls)"
proof (induction Ls arbitrary: P)
  case Nil
  then show ?case by (simp add: frontier_image [OF assms])
next
  case (Cons L Ls)
  have L: "L \<noteq> []" "distinct L" "set L = frontier V E P" using Cons.prems(2) by simp_all
  then have sub: "set L \<subseteq> V" by (auto simp: frontier_def)
  with Cons.prems(1) have "layered (f ` V) (map_prod f f ` E) (f ` (P \<union> set L)) (map (map f) Ls)"
    by (intro Cons.IH layered_ConsD [OF Cons.prems(2)]) blast
  moreover have "distinct (map f L)"
    using L(2) sub assms(1) by (simp add: distinct_map inj_on_subset)
  moreover have "set (map f L) = frontier (f ` V) (map_prod f f ` E) (f ` P)"
    using L(3) by (simp add: frontier_image [OF assms Cons.prems(1)])
  ultimately show ?case using L(1) by (simp add: image_Un)
qed

section \<open>The graph the code builds\<close>

fun mk_nodes :: "int \<Rightarrow> resource_data list \<Rightarrow> node list" where
  "mk_nodes k [] = []"
| "mk_nodes k (r # rs) = \<lparr>node_id = k, node_resource = r\<rparr> # mk_nodes (k + 1) rs"

lemma mk_nodes_resources [simp]: "map node_resource (mk_nodes k rs) = rs"
  by (induction k rs rule: mk_nodes.induct) simp_all

lemma mk_nodes_ids: "n \<in> set (mk_nodes k rs) \<Longrightarrow> k \<le> node_id n"
  by (induction k rs rule: mk_nodes.induct) force+

lemma mk_nodes_inj: "distinct rs \<Longrightarrow> inj_on node_resource (set (mk_nodes k rs))"
  using distinct_map [of node_resource "mk_nodes k rs"] by simp

lemma mk_nodes_ids_distinct: "distinct (map node_id (mk_nodes k rs))"
  by (induction k rs rule: mk_nodes.induct) (auto dest: mk_nodes_ids)

lemma mk_nodes_id_eq: "u \<in> set (mk_nodes k rs) \<Longrightarrow> v \<in> set (mk_nodes k rs) \<Longrightarrow>
    node_id u = node_id v \<longleftrightarrow> u = v"
  using mk_nodes_ids_distinct [of k rs] by (auto simp: distinct_map inj_on_def)

lemma mk_nodes_image: "node_resource ` set (mk_nodes k rs) = set rs"
  by (metis list.set_map mk_nodes_resources)

lemma filter_insert: "{n \<in> insert a A. Q n} = (if Q a then insert a {n \<in> A. Q n} else {n \<in> A. Q n})"
  by auto

definition type_ids :: "(resource_type, int list) gomap \<Rightarrow> resource_type \<Rightarrow> int list" where
  "type_ids byType t = (case gm_get byType t of Some l \<Rightarrow> l | None \<Rightarrow> [])"

lemma type_ids_put: "type_ids (gm_put byType t l) t' = (if t' = t then l else type_ids byType t')"
  by (simp add: type_ids_def)

context gonum_graph
begin

lemma add_nodes_graph:
  "directed_ok G node_id g \<Longrightarrow> \<forall>n \<in> set (dg_Nodes G g). node_id n < k \<Longrightarrow>
   add_nodes G rs k ids byType g = (ids', byType', g') \<Longrightarrow>
   directed_ok G node_id g' \<and> set (dg_Nodes G g') = set (dg_Nodes G g) \<union> set (mk_nodes k rs) \<and>
   (\<forall>i. set (dg_From G g' i) = set (dg_From G g i))"
proof (induction rs arbitrary: k ids byType g)
  case Nil
  then show ?case by simp
next
  case (Cons r rs)
  let ?n = "\<lparr>node_id = k, node_resource = r\<rparr>"
  have "node_id ?n \<notin> node_id ` set (dg_Nodes G g)" using Cons.prems(2) by auto
  from add_node [OF Cons.prems(1) this]
  have g1: "directed_ok G node_id (dg_AddNode G g ?n)"
    "set (dg_Nodes G (dg_AddNode G g ?n)) = insert ?n (set (dg_Nodes G g))"
    "\<forall>i. set (dg_From G (dg_AddNode G g ?n) i) = set (dg_From G g i)" by blast+
  have "\<forall>n \<in> set (dg_Nodes G (dg_AddNode G g ?n)). node_id n < k + 1"
    using g1(2) Cons.prems(2) by auto
  from Cons.IH [OF g1(1) this] Cons.prems(3) g1(2,3) show ?case by (auto simp: Let_def)
qed

end

lemma add_nodes_ids:
  "distinct (map Identifier rs) \<Longrightarrow> add_nodes G rs k ids byType g = (ids', byType', g') \<Longrightarrow>
   (\<forall>i. i \<notin> Identifier ` set rs \<longrightarrow> gm_get ids' i = gm_get ids i) \<and>
   (\<forall>n \<in> set (mk_nodes k rs). gm_get ids' (Identifier (node_resource n)) = Some (node_id n))"
proof (induction rs arbitrary: k ids byType g)
  case Nil
  then show ?case by simp
next
  case (Cons r rs)
  from Cons.IH [of "k + 1" "gm_put ids (Identifier r) k"] Cons.prems
  show ?case by (auto simp: Let_def)
qed

lemma add_nodes_types:
  "add_nodes G rs k ids byType g = (ids', byType', g') \<Longrightarrow>
   set (type_ids byType' t) = set (type_ids byType t) \<union>
     node_id ` {n \<in> set (mk_nodes k rs). ident_Type (Identifier (node_resource n)) = t}"
proof (induction rs arbitrary: k ids byType g)
  case Nil
  then show ?case by simp
next
  case (Cons r rs)
  let ?t = "ident_Type (Identifier r)"
  have "add_nodes G rs (k + 1) (gm_put ids (Identifier r) k)
      (gm_put byType ?t (type_ids byType ?t @ [k])) (dg_AddNode G g \<lparr>node_id = k, node_resource = r\<rparr>) =
      (ids', byType', g')"
    using Cons.prems by (simp add: Let_def type_ids_def)
  from Cons.IH [OF this] show ?case
    unfolding mk_nodes.simps list.set(2) filter_insert by (auto simp: type_ids_put)
qed

text \<open>
  The second pass: a list of steps each of which fails or adds its own edges adds all of them, or
  fails when one of them does.
\<close>

definition builds :: "('g, node) digraph \<Rightarrow> node set \<Rightarrow> 'g \<Rightarrow> (node \<times> node) set \<Rightarrow> bool" where
  "builds G N g E \<longleftrightarrow> directed_ok G node_id g \<and> set (dg_Nodes G g) = N \<and> edges G node_id g = E"

definition reports :: "graph_error \<Rightarrow> bool" where
  "reports e \<longleftrightarrow> e \<noteq> NilNodePanic \<and> (\<forall>t. e \<noteq> ErrSortFailed t)"

definition step_adds :: "('g, node) digraph \<Rightarrow> node set \<Rightarrow> ('g \<Rightarrow> (graph_error, 'g) res) \<Rightarrow> bool \<Rightarrow>
    (node \<times> node) set \<Rightarrow> bool" where
  "step_adds G N f bad F \<longleftrightarrow> (\<forall>g E. builds G N g E \<longrightarrow>
     (if bad then (\<exists>e. f g = Inl e \<and> reports e) else (\<exists>g'. f g = Inr g' \<and> builds G N g' (E \<union> F))))"

lemma step_adds_fold:
  "(\<And>x. x \<in> set xs \<Longrightarrow> step_adds G N (f x) (bad x) (F x)) \<Longrightarrow>
   step_adds G N (fold_res f xs) (\<exists>x \<in> set xs. bad x) (\<Union>x \<in> set xs. F x)"
proof (induction xs)
  case Nil
  show ?case by (simp add: step_adds_def)
next
  case (Cons x xs)
  have x: "step_adds G N (f x) (bad x) (F x)" using Cons.prems by simp
  have xs: "step_adds G N (fold_res f xs) (\<exists>x \<in> set xs. bad x) (\<Union>x \<in> set xs. F x)"
    using Cons.prems by (intro Cons.IH) simp
  show ?case
    unfolding step_adds_def
  proof (intro allI impI)
    fix g E assume g: "builds G N g E"
    show "if \<exists>y \<in> set (x # xs). bad y then \<exists>e. fold_res f (x # xs) g = Inl e \<and> reports e
      else \<exists>g'. fold_res f (x # xs) g = Inr g' \<and> builds G N g' (E \<union> (\<Union>y \<in> set (x # xs). F y))"
    proof (cases "bad x")
      case True
      with x g show ?thesis by (auto simp: step_adds_def)
    next
      case False
      with x g obtain g1 where g1: "f x g = Inr g1" "builds G N g1 (E \<union> F x)"
        by (auto simp: step_adds_def)
      with xs [unfolded step_adds_def, rule_format, OF g1(2)] False show ?thesis
        by (auto simp: Un_assoc split: if_splits)
    qed
  qed
qed

lemma step_adds_bind:
  assumes f: "step_adds G N f b F" and h: "step_adds G N h c H"
  shows "step_adds G N (\<lambda>g. rbind (f g) h) (b \<or> c) (F \<union> H)"
  unfolding step_adds_def
proof (intro allI impI)
  fix g E assume g: "builds G N g E"
  show "if b \<or> c then \<exists>e. rbind (f g) h = Inl e \<and> reports e
    else \<exists>g'. rbind (f g) h = Inr g' \<and> builds G N g' (E \<union> (F \<union> H))"
  proof (cases b)
    case True
    with f g show ?thesis by (auto simp: step_adds_def)
  next
    case False
    with f g obtain g1 where g1: "f g = Inr g1" "builds G N g1 (E \<union> F)" by (auto simp: step_adds_def)
    with h [unfolded step_adds_def, rule_format, OF g1(2)] False show ?thesis
      by (auto simp: Un_assoc split: if_splits)
  qed
qed

context gonum_graph
begin

lemma builds_SetEdge:
  assumes "builds G N g E" and "u \<in> N" and "v \<in> N" and "node_id u \<noteq> node_id v"
  shows "builds G N (dg_SetEdge G g u v) (E \<union> {(u, v)})"
proof -
  have g: "directed_ok G node_id g" "set (dg_Nodes G g) = N" "edges G node_id g = E"
    using assms(1) by (simp_all add: builds_def)
  note e = set_edge [OF g(1), of u v, unfolded g(2), OF assms(2-4)]
  have inj: "inj_on node_id N" using ident_inj [OF g(1)] g(2) by simp
  have "edges G node_id (dg_SetEdge G g u v) = E \<union> {(u, v)}"
    using e assms(2) inj unfolding g(3) [symmetric] edges_def g(2)
    by (auto simp: inj_on_def split: if_splits)
  with e show ?thesis by (simp add: builds_def)
qed

text \<open>The direction of the drawn edge follows the options.\<close>

lemma add_edge_by_id_adds:
  assumes "u \<in> N" and "v \<in> N" and "node_id u \<noteq> node_id v"
  shows "step_adds G N (add_edge_by_id G opts (node_id u) (node_id v)) False
    {if creationOrdered opts then (u, v) else (v, u)}"
  unfolding step_adds_def
proof (intro allI impI)
  fix g E assume g: "builds G N g E"
  then have "dg_Node G g (node_id u) = Some u" "dg_Node G g (node_id v) = Some v"
    using assms find_node [of g] by (auto simp: builds_def)
  moreover have "builds G N (addEdge G opts g u v)
      (E \<union> {if creationOrdered opts then (u, v) else (v, u)})"
    using builds_SetEdge [OF g assms] builds_SetEdge [OF g assms(2,1)] assms(3)
    by (auto simp: addEdge_def)
  ultimately show "if False then \<exists>e. add_edge_by_id G opts (node_id u) (node_id v) g = Inl e \<and> reports e
      else \<exists>g'. add_edge_by_id G opts (node_id u) (node_id v) g = Inr g' \<and>
        builds G N g' (E \<union> {if creationOrdered opts then (u, v) else (v, u)})"
    by (simp add: add_edge_by_id_def)
qed

end

text \<open>The tables of the first pass.\<close>

definition draw :: "graphOptions \<Rightarrow> node \<Rightarrow> node \<Rightarrow> node \<times> node" where
  "draw opts u v = (if creationOrdered opts then (u, v) else (v, u))"

definition tables_ok :: "node set \<Rightarrow> (ident, int) gomap \<Rightarrow> (resource_type, int list) gomap \<Rightarrow> bool" where
  "tables_ok N ids byType \<longleftrightarrow>
     inj_on node_id N \<and> inj_on (\<lambda>n. Identifier (node_resource n)) N \<and>
     (\<forall>n \<in> N. gm_get ids (Identifier (node_resource n)) = Some (node_id n)) \<and>
     (\<forall>i. i \<notin> (\<lambda>n. Identifier (node_resource n)) ` N \<longrightarrow> gm_get ids i = None) \<and>
     (\<forall>t. set (type_ids byType t) = node_id ` {n \<in> N. ident_Type (Identifier (node_resource n)) = t})"

definition bad_dep :: "graphOptions \<Rightarrow> node set \<Rightarrow> resource_data \<Rightarrow> ident \<Rightarrow> bool" where
  "bad_dep opts N r dep \<longleftrightarrow> dep = Identifier r \<or>
     dep \<notin> (\<lambda>n. Identifier (node_resource n)) ` N \<and> \<not> ignoreMissingDeps opts"

lemma step_adds_union: "step_adds G N f b F \<Longrightarrow> (b = c) \<Longrightarrow> (\<not> c \<Longrightarrow> F = H) \<Longrightarrow> step_adds G N f c H"
  by (cases c) (auto simp: step_adds_def)

context gonum_graph
begin

lemma add_dep_adds:
  assumes tab: "tables_ok N ids byType" and v: "v \<in> N"
  shows "step_adds G N (add_dep G opts ids (node_resource v) (node_id v) dep)
    (bad_dep opts N (node_resource v) dep)
    {draw opts u v | u. u \<in> N \<and> Identifier (node_resource u) = dep}"
proof (cases "dep = Identifier (node_resource v)")
  case True
  then show ?thesis by (simp add: step_adds_def add_dep_def bad_dep_def reports_def)
next
  case self: False
  show ?thesis
  proof (cases "dep \<in> (\<lambda>n. Identifier (node_resource n)) ` N")
    case True
    then obtain u where u: "u \<in> N" "dep = Identifier (node_resource u)" by auto
    with self v tab have ne: "node_id u \<noteq> node_id v" by (auto simp: tables_ok_def inj_on_def)
    have "{draw opts w v | w. w \<in> N \<and> Identifier (node_resource w) = dep} = {draw opts u v}"
      using u tab by (auto simp: tables_ok_def inj_on_def)
    moreover have "add_dep G opts ids (node_resource v) (node_id v) dep =
        add_edge_by_id G opts (node_id u) (node_id v)"
      using self u tab by (auto simp: add_dep_def tables_ok_def fun_eq_iff)
    ultimately show ?thesis
      using add_edge_by_id_adds [OF u(1) v ne, of opts] self True by (simp add: draw_def bad_dep_def)
  next
    case False
    then have none: "{draw opts u v | u. u \<in> N \<and> Identifier (node_resource u) = dep} = {}" by auto
    have "gm_get ids dep = None" using False tab by (simp add: tables_ok_def)
    with self False show ?thesis
      unfolding none by (simp add: step_adds_def add_dep_def bad_dep_def reports_def)
  qed
qed

lemma add_type_dep_adds:
  assumes tab: "tables_ok N ids byType" and v: "v \<in> N"
  shows "step_adds G N (add_type_dep G opts byType (node_resource v) (node_id v) ty)
    (ty = ident_Type (Identifier (node_resource v)))
    {draw opts u v | u. u \<in> N \<and> ident_Type (Identifier (node_resource u)) = ty}"
proof (cases "ty = ident_Type (Identifier (node_resource v))")
  case True
  then show ?thesis by (simp add: step_adds_def add_type_dep_def reports_def)
next
  case False
  let ?S = "{n \<in> N. ident_Type (Identifier (node_resource n)) = ty}"
  define nd where "nd = inv_into N node_id"
  have inj: "inj_on node_id N" and ids: "set (type_ids byType ty) = node_id ` ?S"
    using tab by (auto simp: tables_ok_def)
  have nd: "nd (node_id n) = n" if "n \<in> N" for n using that inj by (simp add: nd_def)
  have "step_adds G N (add_edge_by_id G opts i (node_id v)) False {draw opts (nd i) v}"
    if "i \<in> set (type_ids byType ty)" for i
  proof -
    from that ids obtain u where u: "u \<in> ?S" "i = node_id u" by auto
    with False v inj have "node_id u \<noteq> node_id v" by (auto simp: inj_on_def)
    with add_edge_by_id_adds [of u N v opts] u v show ?thesis by (auto simp: nd draw_def)
  qed
  then have fold: "step_adds G N (fold_res (\<lambda>i. add_edge_by_id G opts i (node_id v)) (type_ids byType ty))
      (\<exists>i \<in> set (type_ids byType ty). False) (\<Union>i \<in> set (type_ids byType ty). {draw opts (nd i) v})"
    by (rule step_adds_fold)
  have drawn: "(\<Union>i \<in> set (type_ids byType ty). {draw opts (nd i) v}) =
      {draw opts u v | u. u \<in> N \<and> ident_Type (Identifier (node_resource u)) = ty}"
    unfolding ids using nd by auto
  have "add_type_dep G opts byType (node_resource v) (node_id v) ty =
      fold_res (\<lambda>i. add_edge_by_id G opts i (node_id v)) (type_ids byType ty)"
    using False by (simp add: add_type_dep_def type_ids_def fun_eq_iff)
  with fold drawn False show ?thesis by simp
qed

lemma add_resource_edges_adds:
  assumes tab: "tables_ok N ids byType" and v: "v \<in> N"
  shows "step_adds G N (add_resource_edges G opts ids byType (node_resource v))
    ((\<exists>d \<in> set (Dependencies (node_resource v)). bad_dep opts N (node_resource v) d) \<or>
     ident_Type (Identifier (node_resource v)) \<in> set (TypeDependencies (node_resource v)))
    {draw opts u v | u. u \<in> N \<and> depends_on (node_resource v) (node_resource u)}"
proof -
  let ?r = "node_resource v"
  have id: "(case gm_get ids (Identifier ?r) of Some i \<Rightarrow> i | None \<Rightarrow> 0) = node_id v"
    using tab v by (simp add: tables_ok_def)
  have deps: "step_adds G N (fold_res (add_dep G opts ids ?r (node_id v)) (Dependencies ?r))
      (\<exists>d \<in> set (Dependencies ?r). bad_dep opts N ?r d)
      (\<Union>d \<in> set (Dependencies ?r). {draw opts u v | u. u \<in> N \<and> Identifier (node_resource u) = d})"
    by (rule step_adds_fold) (rule add_dep_adds [OF assms])
  have types: "step_adds G N (fold_res (add_type_dep G opts byType ?r (node_id v)) (TypeDependencies ?r))
      (\<exists>t \<in> set (TypeDependencies ?r). t = ident_Type (Identifier ?r))
      (\<Union>t \<in> set (TypeDependencies ?r).
         {draw opts u v | u. u \<in> N \<and> ident_Type (Identifier (node_resource u)) = t})"
    by (rule step_adds_fold) (rule add_type_dep_adds [OF assms])
  have "add_resource_edges G opts ids byType ?r = (\<lambda>g.
      rbind (fold_res (add_dep G opts ids ?r (node_id v)) (Dependencies ?r) g)
        (fold_res (add_type_dep G opts byType ?r (node_id v)) (TypeDependencies ?r)))"
    by (simp add: add_resource_edges_def id fun_eq_iff Let_def)
  with step_adds_bind [OF deps types] show ?thesis
    by (auto elim!: step_adds_union simp: depends_on_def)
qed

end

section \<open>The traversals\<close>

lemma first_pass_tables:
  assumes wf: "state_wf s" and rs: "mset rs = mset (all_resources s)"
    and run: "add_nodes G rs 1 [] [] g = (ids, byType, g')"
  shows "tables_ok (set (mk_nodes 1 rs)) ids byType"
    and "inj_on node_resource (set (mk_nodes 1 rs))"
    and "node_resource ` set (mk_nodes 1 rs) = set (all_resources s)"
proof -
  have dist: "distinct (map Identifier rs)"
    using distinct_identifiers [OF wf] rs by (metis mset_eq_imp_distinct_iff mset_map)
  then have "distinct rs" by (simp add: distinct_map)
  then show inj: "inj_on node_resource (set (mk_nodes 1 rs))" by (rule mk_nodes_inj)
  have img: "node_resource ` set (mk_nodes 1 rs) = set rs" by (rule mk_nodes_image)
  then show "node_resource ` set (mk_nodes 1 rs) = set (all_resources s)"
    using rs by (metis set_mset_mset)
  have "inj_on Identifier (set rs)" using dist by (simp add: distinct_map)
  then have "inj_on (\<lambda>n. Identifier (node_resource n)) (set (mk_nodes 1 rs))"
    using comp_inj_on [OF inj, of Identifier] img by (simp add: comp_def)
  moreover have "(\<lambda>n. Identifier (node_resource n)) ` set (mk_nodes 1 rs) = Identifier ` set rs"
    using img by (metis image_image)
  moreover have "inj_on node_id (set (mk_nodes 1 rs))"
    using mk_nodes_ids_distinct [of 1 rs] by (simp add: distinct_map)
  ultimately show "tables_ok (set (mk_nodes 1 rs)) ids byType"
    using add_nodes_ids [OF dist run] add_nodes_types [OF run]
    by (simp add: tables_ok_def type_ids_def [of "[]"])
qed

definition traversal_edges :: "graphOptions \<Rightarrow> state \<Rightarrow> (resource_data \<times> resource_data) set" where
  "traversal_edges opts s = (if creationOrdered opts then dependency_edges s else (dependency_edges s)\<inverse>)"

context gonum_graph
begin

lemma State_graph_builds:
  assumes I: "orders_ok I" and wf: "state_wf s"
  shows "\<exists>N. inj_on node_resource N \<and> node_resource ` N = set (all_resources s) \<and>
    (if deps_valid (ignoreMissingDeps opts) s
     then \<exists>g. State_graph G I opts s = Inr g \<and>
       builds G N g {draw opts u v | u v. u \<in> N \<and> v \<in> N \<and> depends_on (node_resource v) (node_resource u)}
     else \<exists>e. State_graph G I opts s = Inl e \<and> reports e)"
proof -
  define rs where "rs = first_pass I (all_resources s)"
  define N where "N = set (mk_nodes 1 rs)"
  obtain ids byType g where run: "add_nodes G rs 1 [] [] (dg_New G) = (ids, byType, g)"
    by (cases "add_nodes G rs 1 [] [] (dg_New G)")
  have rs: "mset rs = mset (all_resources s)" using I by (simp add: rs_def orders_ok_def range_ok_def)
  note tab = first_pass_tables [OF wf rs run, folded N_def]
  have second: "set (second_pass I (all_resources s)) = set (all_resources s)"
    using I unfolding orders_ok_def range_ok_def by (metis set_mset_mset)
  have new: "directed_ok G node_id (dg_New G)" "dg_Nodes G (dg_New G) = []" using new_ok by blast+
  have From_new: "set (dg_From G (dg_New G) i) = {}" for i
    using new by (simp add: directed_ok_def)
  have g: "builds G N g {}"
    using add_nodes_graph [OF new(1) _ run] by (simp add: builds_def new(2) N_def edges_def From_new)
  define nd where "nd = inv_into N node_resource"
  have nd: "nd r \<in> N" "node_resource (nd r) = r" if "r \<in> set (all_resources s)" for r
    using that tab(3) by (auto simp: nd_def inv_into_into f_inv_into_f)
  let ?bad = "\<lambda>r. (\<exists>d \<in> set (Dependencies r). bad_dep opts N r d) \<or>
      ident_Type (Identifier r) \<in> set (TypeDependencies r)"
  have each: "step_adds G N (add_resource_edges G opts ids byType r) (?bad r)
      {draw opts u (nd r) | u. u \<in> N \<and> depends_on r (node_resource u)}"
    if "r \<in> set (all_resources s)" for r
    using add_resource_edges_adds [OF tab(1), of "nd r" opts] nd [OF that] by simp
  have "step_adds G N (fold_res (add_resource_edges G opts ids byType) (second_pass I (all_resources s)))
      (\<exists>r \<in> set (all_resources s). ?bad r)
      (\<Union>r \<in> set (all_resources s). {draw opts u (nd r) | u. u \<in> N \<and> depends_on r (node_resource u)})"
    by (rule step_adds_fold [where xs = "second_pass I (all_resources s)", unfolded second]) (rule each)
  note fold = this [unfolded step_adds_def, rule_format, OF g]
  have "(\<Union>r \<in> set (all_resources s). {draw opts u (nd r) | u. u \<in> N \<and> depends_on r (node_resource u)}) =
      {draw opts u v | u v. u \<in> N \<and> v \<in> N \<and> depends_on (node_resource v) (node_resource u)}"
    unfolding tab(3) [symmetric] using tab(2) by (auto simp: nd_def)
  moreover have "(\<exists>r \<in> set (all_resources s). ?bad r) \<longleftrightarrow> \<not> deps_valid (ignoreMissingDeps opts) s"
  proof -
    have "d \<in> (\<lambda>n. Identifier (node_resource n)) ` N \<longleftrightarrow> State_Get s d \<noteq> None" for d
    proof -
      have "(\<lambda>n. Identifier (node_resource n)) ` N = Identifier ` set (all_resources s)"
        using tab(3) by (metis image_image)
      then show ?thesis
        using all_resources_iff [OF wf] State_Get_Identifier [OF wf, of d] by auto
    qed
    then show ?thesis unfolding deps_valid_def bad_dep_def by blast
  qed
  ultimately have "if deps_valid (ignoreMissingDeps opts) s
      then \<exists>g. State_graph G I opts s = Inr g \<and>
        builds G N g {draw opts u v | u v. u \<in> N \<and> v \<in> N \<and> depends_on (node_resource v) (node_resource u)}
      else \<exists>e. State_graph G I opts s = Inl e \<and> reports e"
    using fold run unfolding State_graph_def rs_def by (auto split: if_splits)
  with tab(2,3) show ?thesis by blast
qed

lemma traversal_edges_image:
  assumes "inj_on node_resource N" and "node_resource ` N = set (all_resources s)"
  shows "map_prod node_resource node_resource `
    {draw opts u v | u v. u \<in> N \<and> v \<in> N \<and> depends_on (node_resource v) (node_resource u)} =
    traversal_edges opts s"
proof -
  have N: "r \<in> set (all_resources s) \<longleftrightarrow> (\<exists>n \<in> N. r = node_resource n)" for r
    unfolding assms(2) [symmetric] by auto
  show ?thesis
    unfolding traversal_edges_def dependency_edges_def N draw_def
    by (cases "creationOrdered opts") (simp, blast, simp, blast)
qed

text \<open>
  A traversal returns. It reports an error of the dependencies, or it sorts: into the layers of the
  dependency relation when this has no cycle, with the cycle error otherwise.
\<close>

lemma topoIter_spec:
  assumes I: "orders_ok I" and wf: "state_wf s"
  shows "if deps_valid (ignoreMissingDeps opts) s
    then \<exists>Ls. layered (set (all_resources s)) (traversal_edges opts s) {} Ls \<and>
      topoIter G I opts s =
        Some (if acyclic (traversal_edges opts s) then Inr Ls else Inl (ErrSortFailed ErrCycleDetected))
    else \<exists>e. topoIter G I opts s = Some (Inl e) \<and> reports e"
proof -
  from State_graph_builds [OF assms, of opts] obtain N where inj: "inj_on node_resource N"
    and img: "node_resource ` N = set (all_resources s)"
    and built: "if deps_valid (ignoreMissingDeps opts) s
     then \<exists>g. State_graph G I opts s = Inr g \<and>
       builds G N g {draw opts u v | u v. u \<in> N \<and> v \<in> N \<and> depends_on (node_resource v) (node_resource u)}
     else \<exists>e. State_graph G I opts s = Inl e \<and> reports e" by blast
  let ?E = "{draw opts u v | u v. u \<in> N \<and> v \<in> N \<and> depends_on (node_resource v) (node_resource u)}"
  show ?thesis
  proof (cases "deps_valid (ignoreMissingDeps opts) s")
    case False
    with built show ?thesis by (auto simp: topoIter_def)
  next
    case True
    with built obtain g where g: "State_graph G I opts s = Inr g" "builds G N g ?E" by auto
    then have ok: "directed_ok G node_id g" and N: "set (dg_Nodes G g) = N" and E: "edges G node_id g = ?E"
      by (simp_all add: builds_def)
    have "order_ok (sort_orders I)" "range_ok (degree_order I)" using I by (simp_all add: orders_ok_def)
    from layeredTopoSort_result [OF ok this] obtain Ls where lay: "layered N ?E {} Ls"
      and res: "layeredTopoSort G node_id (sort_orders I) (degree_order I) g =
        Some (if acyclic ?E then Inr Ls else Inl ErrCycleDetected)"
      unfolding N E by blast
    have sub: "?E \<subseteq> N \<times> N" using edges_subset [OF ok] by (simp add: N E)
    have lay': "layered (set (all_resources s)) (traversal_edges opts s) {} (map (map node_resource) Ls)"
      using layered_image [OF inj sub _ lay] unfolding img traversal_edges_image [OF inj img] by simp
    have "finite N" using N by (metis finite_set)
    have "acyclic ?E \<longleftrightarrow> set (concat Ls) = N"
      using layered_complete [OF lay \<open>finite N\<close> sub] by simp
    also have "\<dots> \<longleftrightarrow> set (concat (map (map node_resource) Ls)) = set (all_resources s)"
    proof -
      have "set (concat (map (map node_resource) Ls)) = node_resource ` set (concat Ls)" by auto
      moreover have "set (concat Ls) \<subseteq> N" using layered_disjoint [OF lay] by blast
      ultimately show ?thesis
        using inj_on_image_eq_iff [OF inj] img by (metis subset_refl)
    qed
    also have "\<dots> \<longleftrightarrow> acyclic (traversal_edges opts s)"
      by (rule layered_complete [OF lay' finite_set])
        (auto simp: traversal_edges_def dependency_edges_def)
    finally have "topoIter G I opts s = Some (if acyclic (traversal_edges opts s)
        then Inr (map (map node_resource) Ls) else Inl (ErrSortFailed ErrCycleDetected))"
      using g(1) res by (simp add: topoIter_def)
    with lay' True show ?thesis by auto
  qed
qed

end

section \<open>The interface of the planners\<close>

text \<open>
  A traversal of a state along a relation: what it returns are the layers of that relation, and it
  returns them exactly when the state is acceptable and the relation has no cycle.
\<close>

locale ordered_traversal =
  fixes traverse :: "state \<Rightarrow> (graph_error, resource_data list list) res option"
    and relation :: "state \<Rightarrow> (resource_data \<times> resource_data) set"
    and acceptable :: "state \<Rightarrow> bool"
  assumes traverse_layers: "state_wf s \<Longrightarrow> acceptable s \<Longrightarrow> acyclic (relation s) \<Longrightarrow>
      \<exists>Ls. traverse s = Some (Inr Ls) \<and> layered (set (all_resources s)) (relation s) {} Ls"
    and traverse_error: "state_wf s \<Longrightarrow> \<not> (acceptable s \<and> acyclic (relation s)) \<Longrightarrow>
      \<exists>e. traverse s = Some (Inl e) \<and> e \<noteq> NilNodePanic"
    and relation_field: "relation s \<subseteq> set (all_resources s) \<times> set (all_resources s)"
begin

lemma traverse_SomeD:
  assumes "state_wf s" and "traverse s = Some (Inr Ls)"
  shows "acceptable s" and "acyclic (relation s)" and "layered (set (all_resources s)) (relation s) {} Ls"
proof -
  show ok: "acceptable s" "acyclic (relation s)"
    using traverse_error [OF assms(1)] assms(2) by auto
  show "layered (set (all_resources s)) (relation s) {} Ls"
    using traverse_layers [OF assms(1) ok] assms(2) by auto
qed

lemma traverse_complete:
  assumes "state_wf s" and "traverse s = Some (Inr Ls)"
  shows "distinct (concat Ls)" and "set (concat Ls) = set (all_resources s)"
    and "i < length Ls \<Longrightarrow> r \<in> set (Ls ! i) \<Longrightarrow> (d, r) \<in> relation s \<Longrightarrow> d \<in> set (concat (take i Ls))"
proof -
  note lay = traverse_SomeD(3) [OF assms]
  show "distinct (concat Ls)" by (rule layered_distinct [OF lay])
  show "set (concat Ls) = set (all_resources s)"
    using layered_complete [OF lay finite_set relation_field] traverse_SomeD(2) [OF assms] by simp
  show "i < length Ls \<Longrightarrow> r \<in> set (Ls ! i) \<Longrightarrow> (d, r) \<in> relation s \<Longrightarrow> d \<in> set (concat (take i Ls))"
    using layered_preds [OF lay] by simp
qed

end

locale gonum_orders = gonum_graph G for G :: "('g, node) digraph" +
  fixes I :: iteration_orders
  assumes orders: "orders_ok I"

sublocale gonum_orders \<subseteq> creation: ordered_traversal "CreationOrdered G I b" dependency_edges "deps_valid b" for b
proof
  fix s assume wf: "state_wf s"
  note spec = topoIter_spec [OF orders wf, of "\<lparr>ignoreMissingDeps = b, creationOrdered = True\<rparr>"]
  show "\<exists>Ls. CreationOrdered G I b s = Some (Inr Ls) \<and>
      layered (set (all_resources s)) (dependency_edges s) {} Ls"
    if "deps_valid b s" "acyclic (dependency_edges s)"
    using spec that by (auto simp: CreationOrdered_def traversal_edges_def)
  show "\<exists>e. CreationOrdered G I b s = Some (Inl e) \<and> e \<noteq> NilNodePanic"
    if "\<not> (deps_valid b s \<and> acyclic (dependency_edges s))"
    using spec that by (auto simp: CreationOrdered_def traversal_edges_def reports_def split: if_splits)
qed (auto simp: dependency_edges_def)

sublocale gonum_orders \<subseteq> deletion: ordered_traversal "DeletionOrdered G I b" "\<lambda>s. (dependency_edges s)\<inverse>" "deps_valid b" for b
proof
  fix s assume wf: "state_wf s"
  note spec = topoIter_spec [OF orders wf, of "\<lparr>ignoreMissingDeps = b, creationOrdered = False\<rparr>"]
  show "\<exists>Ls. DeletionOrdered G I b s = Some (Inr Ls) \<and>
      layered (set (all_resources s)) ((dependency_edges s)\<inverse>) {} Ls"
    if "deps_valid b s" "acyclic ((dependency_edges s)\<inverse>)"
    using spec that by (auto simp: DeletionOrdered_def traversal_edges_def)
  show "\<exists>e. DeletionOrdered G I b s = Some (Inl e) \<and> e \<noteq> NilNodePanic"
    if "\<not> (deps_valid b s \<and> acyclic ((dependency_edges s)\<inverse>))"
    using spec that by (auto simp: DeletionOrdered_def traversal_edges_def reports_def split: if_splits)
qed (auto simp: dependency_edges_def)

context gonum_orders
begin

lemma creation_result:
  assumes "state_wf s"
  shows "\<exists>res. CreationOrdered G I b s = Some res \<and>
    (case res of
       Inl e \<Rightarrow> e \<noteq> NilNodePanic \<and> \<not> (deps_valid b s \<and> acyclic (dependency_edges s))
     | Inr Ls \<Rightarrow> deps_valid b s \<and> acyclic (dependency_edges s) \<and>
         distinct (concat Ls) \<and> set (concat Ls) = set (all_resources s) \<and>
         (\<forall>i < length Ls. \<forall>r \<in> set (Ls ! i). \<forall>d \<in> set (all_resources s). depends_on r d \<longrightarrow>
            d \<in> set (concat (take i Ls))))"
proof (cases "deps_valid b s \<and> acyclic (dependency_edges s)")
  case True
  then obtain Ls where Ls: "CreationOrdered G I b s = Some (Inr Ls)"
    using creation.traverse_layers [OF assms] by blast
  note tc = creation.traverse_complete [OF assms Ls]
  have "d \<in> set (concat (take i Ls))"
    if "i < length Ls" "r \<in> set (Ls ! i)" "d \<in> set (all_resources s)" "depends_on r d" for i r d
  proof -
    have "r \<in> set (concat Ls)" using that by auto
    then have "r \<in> set (all_resources s)" by (simp only: tc(2))
    then have "(d, r) \<in> dependency_edges s" using that by (simp add: dependency_edges_def)
    with tc(3) that show ?thesis by blast
  qed
  with Ls True tc(1,2) show ?thesis by simp
next
  case False
  with creation.traverse_error [OF assms False]
  show ?thesis by auto
qed

lemma deletion_result:
  assumes "state_wf s"
  shows "\<exists>res. DeletionOrdered G I b s = Some res \<and>
    (case res of
       Inl e \<Rightarrow> e \<noteq> NilNodePanic \<and> \<not> (deps_valid b s \<and> acyclic (dependency_edges s))
     | Inr Ls \<Rightarrow> deps_valid b s \<and> acyclic (dependency_edges s) \<and>
         distinct (concat Ls) \<and> set (concat Ls) = set (all_resources s) \<and>
         (\<forall>i < length Ls. \<forall>d \<in> set (Ls ! i). \<forall>r \<in> set (all_resources s). depends_on r d \<longrightarrow>
            r \<in> set (concat (take i Ls))))"
proof (cases "deps_valid b s \<and> acyclic (dependency_edges s)")
  case True
  then obtain Ls where Ls: "DeletionOrdered G I b s = Some (Inr Ls)"
    using deletion.traverse_layers [OF assms]
    by (auto simp: acyclic_converse)
  note tc = deletion.traverse_complete [OF assms Ls]
  have "r \<in> set (concat (take i Ls))"
    if "i < length Ls" "d \<in> set (Ls ! i)" "r \<in> set (all_resources s)" "depends_on r d" for i r d
  proof -
    have "d \<in> set (concat Ls)" using that by auto
    then have "d \<in> set (all_resources s)" by (simp only: tc(2))
    then have "(r, d) \<in> (dependency_edges s)\<inverse>" using that by (simp add: dependency_edges_def)
    with tc(3) that show ?thesis by blast
  qed
  with Ls True tc(1,2) show ?thesis by simp
next
  case False
  with deletion.traverse_error [OF assms, of b]
  show ?thesis by (auto simp: acyclic_converse)
qed

end

section \<open>A graph of lists\<close>

text \<open>The library's contract has a model: nodes and edges in insertion order.\<close>

definition list_digraph :: "(node list \<times> (int \<times> node) list, node) digraph" where
  "list_digraph = \<lparr>
     dg_Nodes = fst,
     dg_From = (\<lambda>g i. remdups (map snd (filter (\<lambda>e. fst e = i) (snd g)))),
     dg_New = ([], []),
     dg_AddNode = (\<lambda>g n. (fst g @ [n], snd g)),
     dg_Node = (\<lambda>g i. find (\<lambda>n. node_id n = i) (fst g)),
     dg_SetEdge = (\<lambda>g u v. (fst g, snd g @ [(node_id u, v)]))\<rparr>"

definition list_orders :: iteration_orders where
  "list_orders = \<lparr>first_pass = (\<lambda>xs. xs), second_pass = (\<lambda>xs. xs), sort_orders = (\<lambda>_ xs. xs),
     degree_order = (\<lambda>xs. xs)\<rparr>"

lemma find_node_id:
  "distinct (map node_id ns) \<Longrightarrow> find (\<lambda>n. node_id n = i) ns = Some m \<longleftrightarrow> m \<in> set ns \<and> node_id m = i"
  by (induction ns) (auto simp: image_iff)

interpretation lg: gonum_orders list_digraph list_orders
proof
  show "directed_ok list_digraph node_id (dg_New list_digraph) \<and> dg_Nodes list_digraph (dg_New list_digraph) = []"
    by (simp add: directed_ok_def list_digraph_def)
  show "orders_ok list_orders"
    by (simp add: orders_ok_def list_orders_def range_ok_def order_ok_def)
next
  fix g :: "node list \<times> (int \<times> node) list" and n :: node
  assume "directed_ok list_digraph node_id g" and "node_id n \<notin> node_id ` set (dg_Nodes list_digraph g)"
  then show "directed_ok list_digraph node_id (dg_AddNode list_digraph g n) \<and>
      set (dg_Nodes list_digraph (dg_AddNode list_digraph g n)) = insert n (set (dg_Nodes list_digraph g)) \<and>
      (\<forall>i. set (dg_From list_digraph (dg_AddNode list_digraph g n) i) = set (dg_From list_digraph g i))"
    by (auto simp: directed_ok_def list_digraph_def)
next
  fix g :: "node list \<times> (int \<times> node) list" and i :: int and n :: node
  assume "directed_ok list_digraph node_id g"
  then show "(dg_Node list_digraph g i = Some n) = (n \<in> set (dg_Nodes list_digraph g) \<and> node_id n = i)"
    by (simp add: directed_ok_def list_digraph_def find_node_id)
next
  fix g :: "node list \<times> (int \<times> node) list" and u v :: node
  assume "directed_ok list_digraph node_id g" "u \<in> set (dg_Nodes list_digraph g)"
    "v \<in> set (dg_Nodes list_digraph g)" "node_id u \<noteq> node_id v"
  then show "directed_ok list_digraph node_id (dg_SetEdge list_digraph g u v) \<and>
      set (dg_Nodes list_digraph (dg_SetEdge list_digraph g u v)) = set (dg_Nodes list_digraph g) \<and>
      (\<forall>i. set (dg_From list_digraph (dg_SetEdge list_digraph g u v) i) =
         (if i = node_id u then insert v (set (dg_From list_digraph g i)) else set (dg_From list_digraph g i)))"
    by (auto simp: directed_ok_def list_digraph_def)
qed

section \<open>Creation and deletion order\<close>

text \<open>
  C10. \<^verbatim>\<open>CreationOrdered\<close> returns for every state. It succeeds exactly when no resource depends on
  itself or on its own type, every named dependency exists (unless missing ones are ignored) and the
  dependencies have no cycle; its layers then hold every resource once, and all dependencies of a
  resource are in earlier layers. It never dereferences a missing node.
\<close>
theorem CreationOrdered_correct:
  assumes "gonum_orders G I" and "state_wf s"
  shows "\<exists>res. CreationOrdered G I b s = Some res \<and>
    (case res of
       Inl e \<Rightarrow> e \<noteq> NilNodePanic \<and> \<not> (deps_valid b s \<and> acyclic (dependency_edges s))
     | Inr Ls \<Rightarrow> deps_valid b s \<and> acyclic (dependency_edges s) \<and>
         distinct (concat Ls) \<and> set (concat Ls) = set (all_resources s) \<and>
         (\<forall>i < length Ls. \<forall>r \<in> set (Ls ! i). \<forall>d \<in> set (all_resources s). depends_on r d \<longrightarrow>
            d \<in> set (concat (take i Ls))))"
  using assms by (rule gonum_orders.creation_result)

definition sample_chain :: state where
  "sample_chain = State_Add NewState
     [(sample_resource ''t'' ''b'')\<lparr>Dependencies := [\<lparr>ident_ID = ''a'', ident_Type = ''t''\<rparr>]\<rparr>,
      sample_resource ''t'' ''a'']"

lemma sample_chain_wf: "state_wf sample_chain"
  unfolding sample_chain_def by (rule State_Add_wf) simp

theorem CreationOrdered_correct_witness:
  "\<exists>res. CreationOrdered list_digraph list_orders False sample_chain = Some res"
  using CreationOrdered_correct [OF lg.gonum_orders_axioms sample_chain_wf] by blast

text \<open>
  \<^verbatim>\<open>DeletionOrdered\<close> succeeds exactly on the same states, and in its layers every dependent of a
  resource comes before that resource.
\<close>
theorem DeletionOrdered_correct:
  assumes "gonum_orders G I" and "state_wf s"
  shows "\<exists>res. DeletionOrdered G I b s = Some res \<and>
    (case res of
       Inl e \<Rightarrow> e \<noteq> NilNodePanic \<and> \<not> (deps_valid b s \<and> acyclic (dependency_edges s))
     | Inr Ls \<Rightarrow> deps_valid b s \<and> acyclic (dependency_edges s) \<and>
         distinct (concat Ls) \<and> set (concat Ls) = set (all_resources s) \<and>
         (\<forall>i < length Ls. \<forall>d \<in> set (Ls ! i). \<forall>r \<in> set (all_resources s). depends_on r d \<longrightarrow>
            r \<in> set (concat (take i Ls))))"
  using assms by (rule gonum_orders.deletion_result)

theorem DeletionOrdered_correct_witness:
  "\<exists>res. DeletionOrdered list_digraph list_orders True sample_chain = Some res"
  using DeletionOrdered_correct [OF lg.gonum_orders_axioms sample_chain_wf] by blast

end
