(* ===== verification/Resource_Plan.thy ===== *)
theory Resource_Plan
  imports Resource_Graph
begin

text \<open>
  Planning (\<^verbatim>\<open>Plan\<close>, \<^verbatim>\<open>planCreates\<close>, \<^verbatim>\<open>planDeletes\<close>, \<^verbatim>\<open>PlanRefresh\<close>, \<^verbatim>\<open>PlanAll\<close> of
  \<^verbatim>\<open>server/internal/resource/state.go\<close>, \<^verbatim>\<open>ResourceData.Diff\<close> of \<^verbatim>\<open>resource.go\<close>) and plan summaries
  (\<^verbatim>\<open>summary.go\<close>). The JSON comparison \<^verbatim>\<open>jsondiff.CompareJSON\<close> is an argument \<open>cmp\<close>.
\<close>

type_synonym 'p compareJSON = "string \<Rightarrow> string \<Rightarrow> string list \<Rightarrow> (string, 'p option) res"

type_synonym 'p plan = "'p event list list"

record PlanOptions =
  ForceUpdate :: bool

datatype plan_error =
    ErrOrder graph_error
  | ErrCompare ident string
  | ErrStateIndex nat plan_error

section \<open>Definitions\<close>

definition Diff :: "'p compareJSON \<Rightarrow> resource_data \<Rightarrow> resource_data \<Rightarrow> (string, 'p option) res" where
  "Diff cmp r other =
     (if ResourceVersion r \<noteq> ResourceVersion other then Inr None
      else cmp (Attributes r) (Attributes other) (DiffIgnore r))"

definition mk_event :: "event_type \<Rightarrow> resource_data \<Rightarrow> event_reason \<Rightarrow> 'p option \<Rightarrow> 'p event" where
  "mk_event t r reason diff =
     \<lparr>ev_Type = t, ev_Resource = r, ev_Reason = reason, ev_Diff = diff\<rparr>"

text \<open>The switch of \<^verbatim>\<open>planCreates\<close>; \<open>depUpdated\<close> is the condition of its dependency case.\<close>

definition planned_event :: "'p compareJSON \<Rightarrow> PlanOptions \<Rightarrow> state \<Rightarrow> bool \<Rightarrow> resource_data \<Rightarrow>
    (plan_error, 'p event option) res" where
  "planned_event cmp options s depUpdated resource =
     (case State_Get s (Identifier resource) of
        None \<Rightarrow> Inr (Some (mk_event EventTypeCreate resource EventReasonDoesNotExist None))
      | Some current \<Rightarrow>
          if PendingDeletion current then Inr None
          else if NeedsRecreate current
            then Inr (Some (mk_event EventTypeCreate resource EventReasonNeedsRecreate None))
          else if Error current \<noteq> []
            then Inr (Some (mk_event EventTypeUpdate resource EventReasonHasError None))
          else if ForceUpdate options
            then Inr (Some (mk_event EventTypeUpdate resource EventReasonForceUpdate None))
          else if depUpdated
            then Inr (Some (mk_event EventTypeUpdate resource EventReasonDependencyUpdated None))
          else (case Diff cmp current resource of
                  Inl err \<Rightarrow> Inl (ErrCompare (Identifier resource) err)
                | Inr None \<Rightarrow> Inr None
                | Inr (Some diff) \<Rightarrow>
                    Inr (Some (mk_event EventTypeUpdate resource EventReasonHasDiff (Some diff)))))"

type_synonym 'p creates_acc = "ident dset \<times> resource_type dset \<times> 'p event list"

definition plan_resource :: "'p compareJSON \<Rightarrow> PlanOptions \<Rightarrow> state \<Rightarrow> resource_data \<Rightarrow>
    'p creates_acc \<Rightarrow> (plan_error, 'p creates_acc) res" where
  "plan_resource cmp options s resource acc =
     (case acc of (modified, modifiedTypes, phase) \<Rightarrow>
        rbind (planned_event cmp options s
                 (list_ex (Set_Has modifiedTypes) (TypeDependencies resource) \<or>
                  list_ex (Set_Has modified) (Dependencies resource)) resource)
          (\<lambda>event. case event of
             None \<Rightarrow> Inr acc
           | Some e \<Rightarrow> Inr (Set_Add modified [Identifier resource],
               Set_Add modifiedTypes [ident_Type (Identifier resource)], phase @ [e])))"

definition plan_layer :: "'p compareJSON \<Rightarrow> PlanOptions \<Rightarrow> state \<Rightarrow> resource_data list \<Rightarrow>
    ident dset \<times> resource_type dset \<times> 'p plan \<Rightarrow>
    (plan_error, ident dset \<times> resource_type dset \<times> 'p plan) res" where
  "plan_layer cmp options s layer acc =
     (case acc of (modified, modifiedTypes, plan) \<Rightarrow>
        rbind (fold_res (plan_resource cmp options s) layer (modified, modifiedTypes, []))
          (\<lambda>(modified', modifiedTypes', phase).
             Inr (modified', modifiedTypes', if length phase > 0 then plan @ [phase] else plan)))"

definition planCreates :: "('g, node) digraph \<Rightarrow> iteration_orders \<Rightarrow> 'p compareJSON \<Rightarrow> state \<Rightarrow>
    PlanOptions \<Rightarrow> state \<Rightarrow> (plan_error, 'p plan) res option" where
  "planCreates G I cmp s options desired =
     (case CreationOrdered G I False desired of
        None \<Rightarrow> None
      | Some (Inl e) \<Rightarrow> Some (Inl (ErrOrder e))
      | Some (Inr layers) \<Rightarrow>
          Some (rbind (fold_res (plan_layer cmp options s) layers (NewSet [], NewSet [], []))
                  (\<lambda>(_, _, plan). Inr plan)))"

definition delete_phase :: "state \<Rightarrow> resource_data list \<Rightarrow> 'p event list" where
  "delete_phase desired layer =
     map (\<lambda>resource. mk_event EventTypeDelete resource NoReason None)
       (filter (\<lambda>resource. State_Get desired (Identifier resource) = None) layer)"

definition planDeletes :: "('g, node) digraph \<Rightarrow> iteration_orders \<Rightarrow> state \<Rightarrow> state \<Rightarrow>
    (plan_error, 'p plan) res option" where
  "planDeletes G I s desired =
     (case DeletionOrdered G I True s of
        None \<Rightarrow> None
      | Some (Inl e) \<Rightarrow> Some (Inl (ErrOrder e))
      | Some (Inr layers) \<Rightarrow>
          Some (Inr (filter (\<lambda>phase. length phase > 0) (map (delete_phase desired) layers))))"

definition Plan :: "('g, node) digraph \<Rightarrow> iteration_orders \<Rightarrow> 'p compareJSON \<Rightarrow> state \<Rightarrow> PlanOptions \<Rightarrow>
    state \<Rightarrow> (plan_error, 'p plan) res option" where
  "Plan G I cmp s options desired =
     (case planCreates G I cmp s options desired of
        None \<Rightarrow> None
      | Some (Inl e) \<Rightarrow> Some (Inl e)
      | Some (Inr creates) \<Rightarrow>
          (case planDeletes G I s desired of
             None \<Rightarrow> None
           | Some (Inl e) \<Rightarrow> Some (Inl e)
           | Some (Inr deletes) \<Rightarrow> Some (Inr (creates @ deletes))))"

definition PlanRefresh :: "('g, node) digraph \<Rightarrow> iteration_orders \<Rightarrow> state \<Rightarrow>
    (plan_error, 'p plan) res option" where
  "PlanRefresh G I s =
     (case CreationOrdered G I True s of
        None \<Rightarrow> None
      | Some (Inl e) \<Rightarrow> Some (Inl (ErrOrder e))
      | Some (Inr layers) \<Rightarrow>
          Some (Inr (map (map (\<lambda>resource. mk_event EventTypeRefresh resource NoReason None)) layers)))"

fun plan_states :: "('g, node) digraph \<Rightarrow> iteration_orders \<Rightarrow> 'p compareJSON \<Rightarrow> PlanOptions \<Rightarrow> nat \<Rightarrow>
    nat \<Rightarrow> state \<Rightarrow> state list \<Rightarrow> 'p plan list \<Rightarrow> (plan_error, 'p plan list) res option" where
  "plan_states G I cmp options n i current [] plans = Some (Inr plans)"
| "plan_states G I cmp options n i current (state # new) plans =
     (let opts = \<lparr>ForceUpdate = ForceUpdate options \<and> i = n - 1\<rparr>
      in case Plan G I cmp current opts state of
           None \<Rightarrow> None
         | Some (Inl e) \<Rightarrow> Some (Inl (ErrStateIndex i e))
         | Some (Inr plan) \<Rightarrow>
             plan_states G I cmp options n (i + 1) state new
               (if length plan > 0 then plans @ [plan] else plans))"

definition PlanAll :: "('g, node) digraph \<Rightarrow> iteration_orders \<Rightarrow> 'p compareJSON \<Rightarrow> state \<Rightarrow> PlanOptions \<Rightarrow>
    state list \<Rightarrow> (plan_error, 'p plan list) res option" where
  "PlanAll G I cmp s options new = plan_states G I cmp options (length new) 0 s new []"

text \<open>Applying a plan to a state, phase by phase.\<close>

definition apply_plan :: "state \<Rightarrow> 'p plan \<Rightarrow> (state_error, state) res" where
  "apply_plan s plan = fold_res (\<lambda>e s. State_Apply s e) (concat plan) s"

section \<open>The created and updated resources\<close>

text \<open>
  An assignment of an event to every desired resource is the fixed point the code computes: each
  resource gets the event of the switch, with the dependency case taken exactly when one of its
  dependencies has an event.
\<close>

definition plans_events :: "'p compareJSON \<Rightarrow> PlanOptions \<Rightarrow> state \<Rightarrow> state \<Rightarrow>
    (resource_data \<Rightarrow> 'p event option) \<Rightarrow> bool" where
  "plans_events cmp options s desired ev \<longleftrightarrow> (\<forall>r \<in> set (all_resources desired).
     planned_event cmp options s
       (\<exists>d \<in> set (all_resources desired). depends_on r d \<and> ev d \<noteq> None) r = Inr (ev r))"

definition creates_inv :: "'p compareJSON \<Rightarrow> PlanOptions \<Rightarrow> state \<Rightarrow> state \<Rightarrow>
    resource_data set \<Rightarrow> (resource_data \<Rightarrow> 'p event option) \<Rightarrow> ident dset \<Rightarrow> resource_type dset \<Rightarrow> bool" where
  "creates_inv cmp options s desired D ev modified modifiedTypes \<longleftrightarrow>
     set_wf modified \<and> set_wf modifiedTypes \<and>
     set_abs modified = Identifier ` {d \<in> D. ev d \<noteq> None} \<and>
     set_abs modifiedTypes = (\<lambda>d. ident_Type (Identifier d)) ` {d \<in> D. ev d \<noteq> None} \<and>
     D \<subseteq> set (all_resources desired) \<and>
     (\<forall>r \<in> D. \<forall>d \<in> set (all_resources desired). depends_on r d \<longrightarrow> d \<in> D) \<and>
     (\<forall>r \<in> D. planned_event cmp options s (\<exists>d \<in> D. depends_on r d \<and> ev d \<noteq> None) r = Inr (ev r))"

lemma creates_inv_has:
  assumes "creates_inv cmp options s desired D ev modified modifiedTypes"
  shows "list_ex (Set_Has modifiedTypes) (TypeDependencies r) \<or> list_ex (Set_Has modified) (Dependencies r) \<longleftrightarrow>
    (\<exists>d \<in> D. depends_on r d \<and> ev d \<noteq> None)"
proof -
  have acc: "set_wf modified" "set_wf modifiedTypes"
    "set_abs modified = Identifier ` {d \<in> D. ev d \<noteq> None}"
    "set_abs modifiedTypes = (\<lambda>d. ident_Type (Identifier d)) ` {d \<in> D. ev d \<noteq> None}"
    using assms unfolding creates_inv_def by blast+
  show ?thesis
    unfolding list_ex_iff Set_Has_iff [OF acc(1)] Set_Has_iff [OF acc(2)] acc(3,4) depends_on_def
    by blast
qed

lemma creates_inv_step:
  assumes inv: "creates_inv cmp options s desired D ev modified modifiedTypes"
    and r: "r \<in> set (all_resources desired)" "r \<notin> D"
    and deps: "\<forall>d \<in> set (all_resources desired). depends_on r d \<longrightarrow> d \<in> D"
    and run: "plan_resource cmp options s r (modified, modifiedTypes, phase) = Inr (modified', modifiedTypes', phase')"
  shows "\<exists>eo. creates_inv cmp options s desired (insert r D) (ev(r := eo)) modified' modifiedTypes' \<and>
    phase' = phase @ (case eo of None \<Rightarrow> [] | Some e \<Rightarrow> [e])"
proof -
  let ?dep = "\<exists>d \<in> D. depends_on r d \<and> ev d \<noteq> None"
  from run obtain eo where eo: "planned_event cmp options s ?dep r = Inr eo"
    and res: "(modified', modifiedTypes', phase') = (case eo of
        None \<Rightarrow> (modified, modifiedTypes, phase)
      | Some e \<Rightarrow> (Set_Add modified [Identifier r], Set_Add modifiedTypes [ident_Type (Identifier r)], phase @ [e]))"
    unfolding plan_resource_def by (auto simp: rbind_eq_Inr creates_inv_has [OF inv] split: option.splits)
  let ?ev = "ev(r := eo)"
  have acc: "set_wf modified" "set_wf modifiedTypes"
    "set_abs modified = Identifier ` {d \<in> D. ev d \<noteq> None}"
    "set_abs modifiedTypes = (\<lambda>d. ident_Type (Identifier d)) ` {d \<in> D. ev d \<noteq> None}"
    and closed: "D \<subseteq> set (all_resources desired)"
      "\<forall>r \<in> D. \<forall>d \<in> set (all_resources desired). depends_on r d \<longrightarrow> d \<in> D"
    and fix_old: "\<forall>r \<in> D. planned_event cmp options s (\<exists>d \<in> D. depends_on r d \<and> ev d \<noteq> None) r = Inr (ev r)"
    using inv unfolding creates_inv_def by blast+
  have chg: "{d \<in> insert r D. ?ev d \<noteq> None} = (if eo = None then {} else {r}) \<union> {d \<in> D. ev d \<noteq> None}"
    using r(2) by auto
  have self: "\<not> depends_on r r" using deps r by blast
  have old: "\<not> depends_on d r" if "d \<in> D" for d using closed(2) r that by blast
  have dep_r: "(\<exists>d \<in> insert r D. depends_on r d \<and> ?ev d \<noteq> None) \<longleftrightarrow> ?dep"
    using self r(2) by auto
  have dep_d: "(\<exists>d \<in> insert r D. depends_on x d \<and> ?ev d \<noteq> None) \<longleftrightarrow> (\<exists>d \<in> D. depends_on x d \<and> ev d \<noteq> None)"
    if "x \<in> D" for x using old [OF that] r(2) by auto
  have "\<forall>x \<in> insert r D. planned_event cmp options s (\<exists>d \<in> insert r D. depends_on x d \<and> ?ev d \<noteq> None) x = Inr (?ev x)"
  proof
    fix x assume "x \<in> insert r D"
    then consider "x = r" | "x \<in> D" by blast
    then show "planned_event cmp options s (\<exists>d \<in> insert r D. depends_on x d \<and> ?ev d \<noteq> None) x = Inr (?ev x)"
    proof cases
      case 1
      with eo dep_r show ?thesis by simp
    next
      case 2
      with r(2) have "?ev x = ev x" by auto
      with 2 dep_d [OF 2] fix_old show ?thesis by simp
    qed
  qed
  moreover have "set_wf modified'" "set_wf modifiedTypes'"
    "set_abs modified' = Identifier ` {d \<in> insert r D. ?ev d \<noteq> None}"
    "set_abs modifiedTypes' = (\<lambda>d. ident_Type (Identifier d)) ` {d \<in> insert r D. ?ev d \<noteq> None}"
    unfolding chg using res acc by (cases eo; simp)+
  moreover have "insert r D \<subseteq> set (all_resources desired)"
    and "\<forall>x \<in> insert r D. \<forall>d \<in> set (all_resources desired). depends_on x d \<longrightarrow> d \<in> insert r D"
    using closed deps r(1) by blast+
  ultimately have "creates_inv cmp options s desired (insert r D) ?ev modified' modifiedTypes'"
    unfolding creates_inv_def by blast
  moreover have "phase' = phase @ (case eo of None \<Rightarrow> [] | Some e \<Rightarrow> [e])"
    using res by (auto split: option.splits)
  ultimately show ?thesis by blast
qed

lemma creates_layer:
  "fold_res (plan_resource cmp options s) L (modified, modifiedTypes, phase) = Inr (modified', modifiedTypes', phase') \<Longrightarrow>
   creates_inv cmp options s desired D ev modified modifiedTypes \<Longrightarrow>
   distinct L \<Longrightarrow> set L \<inter> D = {} \<Longrightarrow> set L \<subseteq> set (all_resources desired) \<Longrightarrow>
   \<forall>r \<in> set L. \<forall>d \<in> set (all_resources desired). depends_on r d \<longrightarrow> d \<in> D \<Longrightarrow>
   \<exists>ev'. creates_inv cmp options s desired (D \<union> set L) ev' modified' modifiedTypes' \<and>
     (\<forall>d. d \<notin> set L \<longrightarrow> ev' d = ev d) \<and> phase' = phase @ List.map_filter ev' L"
proof (induction L arbitrary: modified modifiedTypes phase D ev)
  case Nil
  then show ?case by (intro exI [of _ ev]) (simp add: map_filter_simps)
next
  case (Cons r L)
  from Cons.prems(1) obtain m1 t1 p1
    where one: "plan_resource cmp options s r (modified, modifiedTypes, phase) = Inr (m1, t1, p1)"
      and rest: "fold_res (plan_resource cmp options s) L (m1, t1, p1) = Inr (modified', modifiedTypes', phase')"
    by (auto simp: rbind_eq_Inr)
  have r: "r \<in> set (all_resources desired)" "r \<notin> D" "r \<notin> set L" "distinct L"
    and L: "set L \<inter> insert r D = {}" "set L \<subseteq> set (all_resources desired)"
    using Cons.prems(3-5) by auto
  have deps: "\<forall>d \<in> set (all_resources desired). depends_on r d \<longrightarrow> d \<in> D"
    "\<forall>x \<in> set L. \<forall>d \<in> set (all_resources desired). depends_on x d \<longrightarrow> d \<in> insert r D"
    using Cons.prems(6) by auto
  from creates_inv_step [OF Cons.prems(2) r(1,2) deps(1) one] obtain eo
    where inv: "creates_inv cmp options s desired (insert r D) (ev(r := eo)) m1 t1"
      and p1: "p1 = phase @ (case eo of None \<Rightarrow> [] | Some e \<Rightarrow> [e])" by blast
  from Cons.IH [OF rest inv r(4) L deps(2)] obtain ev'
    where ev': "creates_inv cmp options s desired (insert r D \<union> set L) ev' modified' modifiedTypes'"
      "\<forall>d. d \<notin> set L \<longrightarrow> ev' d = (ev(r := eo)) d" "phase' = p1 @ List.map_filter ev' L" by blast
  have "ev' r = eo" using ev'(2) r(3) by simp
  with ev'(3) p1 have "phase' = phase @ List.map_filter ev' (r # L)"
    by (cases eo) (simp_all add: map_filter_simps)
  moreover have "\<forall>d. d \<notin> set (r # L) \<longrightarrow> ev' d = ev d" using ev'(2) by simp
  moreover have "insert r D \<union> set L = D \<union> set (r # L)" by auto
  ultimately show ?case using ev'(1) by metis
qed

lemma creates_layers:
  "fold_res (plan_layer cmp options s) Ls (modified, modifiedTypes, plan) = Inr (modified', modifiedTypes', plan') \<Longrightarrow>
   creates_inv cmp options s desired D ev modified modifiedTypes \<Longrightarrow>
   layered (set (all_resources desired)) (dependency_edges desired) D Ls \<Longrightarrow>
   \<exists>ev'. creates_inv cmp options s desired (D \<union> set (concat Ls)) ev' modified' modifiedTypes' \<and>
     (\<forall>d. d \<notin> set (concat Ls) \<longrightarrow> ev' d = ev d) \<and>
     plan' = plan @ filter (\<lambda>phase. length phase > 0) (map (List.map_filter ev') Ls)"
proof (induction Ls arbitrary: modified modifiedTypes plan D ev)
  case Nil
  then show ?case by (intro exI [of _ ev]) simp
next
  case (Cons L Ls)
  from Cons.prems(1) obtain m1 t1 phase
    where one: "fold_res (plan_resource cmp options s) L (modified, modifiedTypes, []) = Inr (m1, t1, phase)"
      and rest: "fold_res (plan_layer cmp options s) Ls
        (m1, t1, if length phase > 0 then plan @ [phase] else plan) = Inr (modified', modifiedTypes', plan')"
    by (auto simp: plan_layer_def [of cmp options s L] rbind_eq_Inr)
  have L: "distinct L" "set L = frontier (set (all_resources desired)) (dependency_edges desired) D"
    using Cons.prems(3) by simp_all
  then have sub: "set L \<inter> D = {}" "set L \<subseteq> set (all_resources desired)"
    by (auto simp: frontier_def)
  have deps: "\<forall>r \<in> set L. \<forall>d \<in> set (all_resources desired). depends_on r d \<longrightarrow> d \<in> D"
    using L(2) by (auto simp: frontier_def dependency_edges_def)
  from creates_layer [OF one Cons.prems(2) L(1) sub deps] obtain ev1
    where inv: "creates_inv cmp options s desired (D \<union> set L) ev1 m1 t1"
      and ev1: "\<forall>d. d \<notin> set L \<longrightarrow> ev1 d = ev d" and phase: "phase = List.map_filter ev1 L" by auto
  note lay = layered_ConsD [OF Cons.prems(3)]
  from Cons.IH [OF rest inv lay] obtain ev'
    where inv': "creates_inv cmp options s desired (D \<union> set L \<union> set (concat Ls)) ev' modified' modifiedTypes'"
      and ev': "\<forall>d. d \<notin> set (concat Ls) \<longrightarrow> ev' d = ev1 d"
      and plan': "plan' = (if length phase > 0 then plan @ [phase] else plan) @
        filter (\<lambda>phase. length phase > 0) (map (List.map_filter ev') Ls)" by blast
  have "set (concat Ls) \<inter> set L = {}" using layered_disjoint [OF lay] by blast
  then have "\<forall>d \<in> set L. ev1 d = ev' d" using ev' by (metis disjoint_iff)
  then have "List.map_filter ev1 L = List.map_filter ev' L"
    by (simp add: List.map_filter_def cong: map_cong filter_cong)
  with plan' phase have "plan' = plan @ filter (\<lambda>phase. length phase > 0) (map (List.map_filter ev') (L # Ls))"
    by simp
  moreover have "\<forall>d. d \<notin> set (concat (L # Ls)) \<longrightarrow> ev' d = ev d" using ev' ev1 by simp
  moreover have "D \<union> set L \<union> set (concat Ls) = D \<union> set (concat (L # Ls))" by auto
  ultimately show ?case using inv' by metis
qed

lemma planned_event_resource:
  "planned_event cmp options s b r = Inr (Some e) \<Longrightarrow> ev_Resource e = r \<and> ev_Type e \<in> {EventTypeCreate, EventTypeUpdate}"
  by (auto simp: planned_event_def mk_event_def split: option.splits if_splits sum.splits)

context gonum_orders
begin

lemma planCreates_spec:
  assumes wf: "state_wf desired" and run: "planCreates G I cmp s options desired = Some (Inr plan)"
  shows "\<exists>Ls ev. CreationOrdered G I False desired = Some (Inr Ls) \<and>
    plans_events cmp options s desired ev \<and>
    plan = filter (\<lambda>phase. length phase > 0) (map (List.map_filter ev) Ls)"
proof -
  from run obtain Ls m' t' where Ls: "CreationOrdered G I False desired = Some (Inr Ls)"
    and fold: "fold_res (plan_layer cmp options s) Ls (NewSet [], NewSet [], []) = Inr (m', t', plan)"
    by (auto simp: planCreates_def rbind_eq_Inr split: option.splits sum.splits)
  have init: "creates_inv cmp options s desired {} (\<lambda>_. None) (NewSet []) (NewSet [])"
    by (simp add: creates_inv_def)
  note lay = creation.traverse_SomeD(3) [OF wf Ls]
  from creates_layers [OF fold init lay] obtain ev
    where inv: "creates_inv cmp options s desired (set (concat Ls)) ev m' t'"
      and plan: "plan = filter (\<lambda>phase. length phase > 0) (map (List.map_filter ev) Ls)" by auto
  have all: "set (concat Ls) = set (all_resources desired)" by (rule creation.traverse_complete(2) [OF wf Ls])
  have "plans_events cmp options s desired ev"
    using inv unfolding all creates_inv_def plans_events_def by blast
  with Ls plan show ?thesis by blast
qed

lemma planDeletes_spec:
  assumes wf: "state_wf s" and run: "planDeletes G I s desired = Some (Inr plan)"
  shows "\<exists>Ls. DeletionOrdered G I True s = Some (Inr Ls) \<and>
    plan = filter (\<lambda>phase. length phase > 0) (map (delete_phase desired) Ls)"
  using run by (auto simp: planDeletes_def split: option.splits sum.splits)

end

section \<open>What a plan contains\<close>

lemma map_filter_resources:
  assumes "\<And>r e. r \<in> set L \<Longrightarrow> ev r = Some e \<Longrightarrow> ev_Resource e = r"
  shows "map ev_Resource (List.map_filter ev L) = filter (\<lambda>r. ev r \<noteq> None) L"
  using assms by (induction L) (auto simp: map_filter_simps split: option.splits)

lemma set_map_filter: "e \<in> set (List.map_filter f xs) \<longleftrightarrow> (\<exists>x \<in> set xs. f x = Some e)"
  by (auto simp: List.map_filter_def) force

lemma concat_filter_nonempty: "concat (filter (\<lambda>xs. length xs > 0) xss) = concat xss"
  by (induction xss) auto

lemma separated_disjoint: "A \<subseteq> X \<Longrightarrow> \<forall>x \<in> X. f x \<noteq> None \<Longrightarrow> \<forall>x \<in> B. f x = None \<Longrightarrow> A \<inter> B = {}"
  by blast

lemma map_filter_concat: "concat (map (List.map_filter f) xss) = List.map_filter f (concat xss)"
  by (induction xss) (auto simp: List.map_filter_def)

lemma filter_take_nth:
  assumes "i < length (filter P xs)"
  shows "\<exists>j < length xs. filter P xs ! i = xs ! j \<and> take i (filter P xs) = filter P (take j xs)"
  using assms
proof (induction xs arbitrary: i)
  case Nil
  then show ?case by simp
next
  case (Cons x xs)
  show ?case
  proof (cases "P x")
    case True
    show ?thesis
    proof (cases i)
      case 0
      with True show ?thesis by (intro exI [of _ 0]) simp
    next
      case (Suc i')
      with True Cons.prems Cons.IH [of i'] obtain j where "j < length xs" "filter P xs ! i' = xs ! j"
        "take i' (filter P xs) = filter P (take j xs)" by auto
      with True Suc show ?thesis by (intro exI [of _ "Suc j"]) simp
    qed
  next
    case False
    with Cons.prems Cons.IH [of i] obtain j where "j < length xs" "filter P xs ! i = xs ! j"
      "take i (filter P xs) = filter P (take j xs)" by auto
    with False show ?thesis by (intro exI [of _ "Suc j"]) simp
  qed
qed

text \<open>
  The order of a plan: an event's phase comes after the phases of all events on which it waits,
  creations and updates after those of their dependencies, deletions after those of their dependents.
\<close>

definition created :: "'p event \<Rightarrow> bool" where
  "created e \<longleftrightarrow> ev_Type e = EventTypeCreate \<or> ev_Type e = EventTypeUpdate"

definition waits_for :: "'p event \<Rightarrow> 'p event \<Rightarrow> bool" where
  "waits_for e f \<longleftrightarrow>
     (created e \<and> created f \<and> depends_on (ev_Resource e) (ev_Resource f)) \<or>
     (ev_Type e = EventTypeDelete \<and> ev_Type f = EventTypeDelete \<and>
        depends_on (ev_Resource f) (ev_Resource e)) \<or>
     (ev_Type e = EventTypeDelete \<and> created f)"

definition phases_ordered :: "'p plan \<Rightarrow> bool" where
  "phases_ordered plan \<longleftrightarrow> (\<forall>i < length plan. \<forall>e \<in> set (plan ! i). \<forall>f \<in> set (concat plan).
     waits_for e f \<longrightarrow> f \<in> set (concat (take i plan)))"

lemma phases_ordered_layers:
  assumes phases: "plan = filter (\<lambda>phase. length phase > 0) (map h Ls)"
    and order: "\<And>i e f. i < length Ls \<Longrightarrow> e \<in> set (h (Ls ! i)) \<Longrightarrow> f \<in> set (concat (map h Ls)) \<Longrightarrow>
      waits_for e f \<Longrightarrow> f \<in> set (concat (map h (take i Ls)))"
  shows "phases_ordered plan"
  unfolding phases_ordered_def
proof (intro allI impI ballI)
  fix i e f
  assume i: "i < length plan" and e: "e \<in> set (plan ! i)" and f: "f \<in> set (concat plan)" and w: "waits_for e f"
  from filter_take_nth [of i "\<lambda>phase. length phase > 0" "map h Ls"] i obtain j
    where j: "j < length Ls" "plan ! i = h (Ls ! j)"
      "take i plan = filter (\<lambda>phase. length phase > 0) (map h (take j Ls))"
    unfolding phases by (auto simp: take_map)
  have "f \<in> set (concat (map h Ls))" using f unfolding phases concat_filter_nonempty .
  with order [OF j(1), of e f] e j(2) w have "f \<in> set (concat (map h (take j Ls)))" by simp
  then show "f \<in> set (concat (take i plan))" unfolding j(3) concat_filter_nonempty .
qed

lemma phases_ordered_append:
  assumes "phases_ordered cs" and "phases_ordered ds"
    and "\<And>e. e \<in> set (concat cs) \<Longrightarrow> created e" and "\<And>e. e \<in> set (concat ds) \<Longrightarrow> ev_Type e = EventTypeDelete"
  shows "phases_ordered (cs @ ds)"
  unfolding phases_ordered_def
proof (intro allI impI ballI)
  fix i e f
  assume i: "i < length (cs @ ds)" and e: "e \<in> set ((cs @ ds) ! i)" and f: "f \<in> set (concat (cs @ ds))"
    and w: "waits_for e f"
  show "f \<in> set (concat (take i (cs @ ds)))"
  proof (cases "i < length cs")
    case True
    then have ei: "e \<in> set (cs ! i)" using e by (simp add: nth_append)
    with True have "e \<in> set (concat cs)" using nth_mem [OF True] by auto
    with ei assms(3) have ec: "e \<in> set (cs ! i)" "created e" by simp_all
    have "created f" using w ec(2) by (auto simp: waits_for_def created_def)
    then have "f \<notin> set (concat ds)" using assms(4) [of f] unfolding created_def by (intro notI) (simp only: event_type.distinct simp_thms)
    then have "f \<in> set (concat cs)" using f by simp
    with assms(1) True ec w show ?thesis by (auto simp: phases_ordered_def)
  next
    case False
    then have ed: "e \<in> set (ds ! (i - length cs))" "i - length cs < length ds" using e i by (auto simp: nth_append)
    show ?thesis
    proof (cases "f \<in> set (concat cs)")
      case True
      with False show ?thesis by auto
    next
      case f': False
      with f have "f \<in> set (concat ds)" by auto
      with assms(2) ed w have "f \<in> set (concat (take (i - length cs) ds))"
        unfolding phases_ordered_def by blast
      with False show ?thesis by auto
    qed
  qed
qed

section \<open>Applying events with distinct identifiers\<close>

definition event_id :: "'p event \<Rightarrow> ident" where
  "event_id e = Identifier (ev_Resource e)"

definition event_result :: "'p event \<Rightarrow> resource_data option" where
  "event_result e = (if ev_Type e = EventTypeDelete then None else Some (ev_Resource e))"

lemma State_Apply_get:
  assumes "state_wf s" and "\<forall>t. ev_Type e \<noteq> UnknownEventType t"
  shows "\<exists>s'. State_Apply s e = Inr s' \<and> state_wf s' \<and>
    (\<forall>i. State_Get s' i = (if i = event_id e then event_result e else State_Get s i))"
  using assms
  by (cases "ev_Type e")
    (auto simp: State_Apply_def State_Remove_def event_id_def event_result_def add_one_get add_one_wf
      RemoveByIdentifier_get RemoveByIdentifier_wf)

lemma apply_events_get:
  "state_wf s \<Longrightarrow> \<forall>e \<in> set es. \<forall>t. ev_Type e \<noteq> UnknownEventType t \<Longrightarrow> distinct (map event_id es) \<Longrightarrow>
   \<exists>s'. fold_res (\<lambda>e s. State_Apply s e) es s = Inr s' \<and> state_wf s' \<and>
     (\<forall>e \<in> set es. State_Get s' (event_id e) = event_result e) \<and>
     (\<forall>i. i \<notin> event_id ` set es \<longrightarrow> State_Get s' i = State_Get s i)"
proof (induction es arbitrary: s)
  case Nil
  then show ?case by simp
next
  case (Cons e es)
  then obtain s1 where s1: "State_Apply s e = Inr s1" "state_wf s1"
    "\<forall>i. State_Get s1 i = (if i = event_id e then event_result e else State_Get s i)"
    using State_Apply_get [of s e] by auto
  from Cons.IH [OF s1(2)] Cons.prems obtain s' where
    "fold_res (\<lambda>e s. State_Apply s e) es s1 = Inr s'" "state_wf s'"
    "\<forall>e \<in> set es. State_Get s' (event_id e) = event_result e"
    "\<forall>i. i \<notin> event_id ` set es \<longrightarrow> State_Get s' i = State_Get s1 i" by auto
  with s1 Cons.prems(3) show ?case by auto
qed

context gonum_orders
begin

lemma Plan_parts:
  assumes "state_wf s" and "state_wf desired" and "Plan G I cmp s options desired = Some (Inr plan)"
  shows "\<exists>Cs ev Ds. CreationOrdered G I False desired = Some (Inr Cs) \<and>
    DeletionOrdered G I True s = Some (Inr Ds) \<and> plans_events cmp options s desired ev \<and>
    plan = filter (\<lambda>phase. length phase > 0) (map (List.map_filter ev) Cs) @
      filter (\<lambda>phase. length phase > 0) (map (delete_phase desired) Ds)"
proof -
  from assms(3) obtain cs ds where cs: "planCreates G I cmp s options desired = Some (Inr cs)"
    and ds: "planDeletes G I s desired = Some (Inr ds)" and plan: "plan = cs @ ds"
    by (auto simp: Plan_def split: option.splits sum.splits)
  from planCreates_spec [OF assms(2) cs] planDeletes_spec [OF assms(1) ds] plan show ?thesis by blast
qed

lemma traversal_ids:
  assumes "state_wf s" and "distinct (concat Ls)" and "set (concat Ls) = set (all_resources s)"
  shows "distinct (map Identifier (concat Ls))"
proof -
  have "mset (concat Ls) = mset (all_resources s)"
    using assms(2,3) distinct_identifiers [OF assms(1)] by (metis distinct_map set_eq_iff_mset_eq_distinct)
  then show ?thesis
    using distinct_identifiers [OF assms(1)] by (metis mset_eq_imp_distinct_iff mset_map)
qed

lemma Plan_content:
  assumes wf: "state_wf s" "state_wf desired" and run: "Plan G I cmp s options desired = Some (Inr plan)"
  shows "\<exists>ev. plans_events cmp options s desired ev \<and>
    set (concat plan) = {e. \<exists>r \<in> set (all_resources desired). ev r = Some e} \<union>
      (\<lambda>r. mk_event EventTypeDelete r NoReason None) `
        {r \<in> set (all_resources s). State_Get desired (Identifier r) = None} \<and>
    distinct (map event_id (concat plan)) \<and> phases_ordered plan"
proof -
  from Plan_parts [OF assms] obtain Cs ev Ds where Cs: "CreationOrdered G I False desired = Some (Inr Cs)"
    and Ds: "DeletionOrdered G I True s = Some (Inr Ds)" and ev: "plans_events cmp options s desired ev"
    and plan: "plan = filter (\<lambda>phase. length phase > 0) (map (List.map_filter ev) Cs) @
      filter (\<lambda>phase. length phase > 0) (map (delete_phase desired) Ds)" by blast
  note C = creation.traverse_complete [OF wf(2) Cs] and D = deletion.traverse_complete [OF wf(1) Ds]
  have ev_res: "ev_Resource e = r \<and> created e" if "r \<in> set (concat Cs)" "ev r = Some e" for r e
  proof -
    from that(1) have "r \<in> set (all_resources desired)" by (simp only: C(2))
    then have "planned_event cmp options s
        (\<exists>d \<in> set (all_resources desired). depends_on r d \<and> ev d \<noteq> None) r = Inr (Some e)"
      using ev that(2) by (simp add: plans_events_def)
    then show ?thesis using planned_event_resource by (fastforce simp: created_def)
  qed
  let ?cs = "concat (map (List.map_filter ev) Cs)" and ?ds = "concat (map (delete_phase desired) Ds)"
  have conc: "concat plan = ?cs @ ?ds" unfolding plan concat_append concat_filter_nonempty ..
  have cs: "?cs = List.map_filter ev (concat Cs)" by (rule map_filter_concat)
  have ds: "?ds = delete_phase desired (concat Ds)"
    unfolding delete_phase_def by (simp add: map_concat filter_concat comp_def)
  have cs_ids: "map event_id ?cs = map Identifier (filter (\<lambda>r. ev r \<noteq> None) (concat Cs))"
    using map_filter_resources [of "concat Cs" ev] ev_res unfolding cs
    by (simp add: event_id_def [abs_def] flip: map_map [unfolded comp_def])
  have d1: "distinct (map event_id ?cs)"
    unfolding cs_ids using traversal_ids [OF wf(2) C(1,2)] by (rule distinct_map_filter)
  have i1: "set (map event_id ?cs) \<subseteq> Identifier ` set (all_resources desired)"
    unfolding cs_ids C(2) [symmetric] by auto
  have ds_ids: "map event_id ?ds = map Identifier (filter (\<lambda>r. State_Get desired (Identifier r) = None) (concat Ds))"
    unfolding ds delete_phase_def by (simp add: event_id_def mk_event_def comp_def)
  have d2: "distinct (map event_id ?ds)" and i2: "\<forall>i \<in> set (map event_id ?ds). State_Get desired i = None"
    unfolding ds_ids using traversal_ids [OF wf(1) D(1,2)] by (rule distinct_map_filter) auto
  have "\<forall>i \<in> Identifier ` set (all_resources desired). State_Get desired i \<noteq> None"
    using all_resources_iff [OF wf(2)] by auto
  with i1 have "set (map event_id ?cs) \<inter> set (map event_id ?ds) = {}" using i2 by (rule separated_disjoint)
  with d1 d2 have "distinct (map event_id (concat plan))"
    unfolding conc map_append distinct_append by blast
  moreover have "set (concat plan) = {e. \<exists>r \<in> set (all_resources desired). ev r = Some e} \<union>
      (\<lambda>r. mk_event EventTypeDelete r NoReason None) `
        {r \<in> set (all_resources s). State_Get desired (Identifier r) = None}"
    unfolding conc set_append cs ds C(2) [symmetric] D(2) [symmetric]
    by (simp only: set_map_filter [abs_def] delete_phase_def set_map set_filter)
      (auto simp only: set_map_filter)
  moreover have "phases_ordered plan"
    unfolding plan
  proof (rule phases_ordered_append)
    show "phases_ordered (filter (\<lambda>phase. length phase > 0) (map (List.map_filter ev) Cs))"
    proof (rule phases_ordered_layers [OF refl])
      fix i e f
      assume i: "i < length Cs" and "e \<in> set (List.map_filter ev (Cs ! i))" "f \<in> set ?cs" and w: "waits_for e f"
      then obtain r d where r: "r \<in> set (Cs ! i)" "ev r = Some e" and d: "d \<in> set (concat Cs)" "ev d = Some f"
        unfolding cs by (auto simp only: set_map_filter)
      have rC: "r \<in> set (concat Cs)" using i r(1) nth_mem [OF i] by auto
      with ev_res r d have "ev_Resource e = r" "ev_Resource f = d" "created e" "created f" by blast+
      with w have "depends_on r d" by (auto simp: waits_for_def created_def)
      with rC d(1) have "(d, r) \<in> dependency_edges desired" unfolding C(2) by (simp add: dependency_edges_def)
      from C(3) [OF i r(1) this] d(2) show "f \<in> set (concat (map (List.map_filter ev) (take i Cs)))"
        unfolding map_filter_concat set_map_filter by blast
    qed
    show "phases_ordered (filter (\<lambda>phase. length phase > 0) (map (delete_phase desired) Ds) :: 'c plan)"
    proof (rule phases_ordered_layers [OF refl])
      fix i and e f :: "'c event"
      assume i: "i < length Ds" and e: "e \<in> set (delete_phase desired (Ds ! i))"
        and f: "f \<in> set (concat (map (delete_phase desired) Ds))" and w: "waits_for e f"
      from e obtain r where r: "r \<in> set (Ds ! i)" "ev_Resource e = r" "ev_Type e = EventTypeDelete"
        by (auto simp: delete_phase_def mk_event_def)
      from f obtain d where d: "d \<in> set (concat Ds)" "f = mk_event EventTypeDelete d NoReason None"
        "State_Get desired (Identifier d) = None"
        by (auto simp: delete_phase_def)
      have "ev_Resource f = d" "\<not> created f" using d(2) by (simp_all add: mk_event_def created_def)
      with w r have "depends_on d r" by (auto simp: waits_for_def created_def)
      moreover have "r \<in> set (concat Ds)" using i r(1) nth_mem [OF i] by auto
      ultimately have "(d, r) \<in> (dependency_edges s)\<inverse>"
        using d(1) unfolding D(2) by (simp add: dependency_edges_def)
      from D(3) [OF i r(1) this] d show "f \<in> set (concat (map (delete_phase desired) (take i Ds)))"
        by (auto simp: delete_phase_def)
    qed
    show "created e" if "e \<in> set (concat (filter (\<lambda>phase. length phase > 0) (map (List.map_filter ev) Cs)))" for e
      using that ev_res unfolding concat_filter_nonempty map_filter_concat set_map_filter by blast
    show "ev_Type e = EventTypeDelete"
      if "e \<in> set (concat (filter (\<lambda>phase. length phase > 0) (map (delete_phase desired) Ds)))" for e :: "'c event"
      using that unfolding concat_filter_nonempty by (auto simp: delete_phase_def mk_event_def)
  qed
  ultimately show ?thesis using ev by blast
qed

end

end
