(* ===== verification/Plan_Correct.thy ===== *)
theory Plan_Correct
  imports Resource_Plan
begin

text \<open>
  The theorems on plans: the order of their phases, their events, the state they reach, convergence,
  the refresh plan, sequences of plans, and plan summaries.
\<close>

section \<open>Plans are correct\<close>

text \<open>
  C2. A plan orders its events safely: the creation or update of a resource is in a later phase than
  those of its dependencies, the deletion of a resource is in a later phase than those of its
  dependents, and deletions come after all creations and updates. No resource has two events.
\<close>
theorem Plan_ordered:
  assumes "gonum_orders G I" and "state_wf s" and "state_wf desired"
    and "Plan G I cmp s options desired = Some (Inr plan)"
  shows "phases_ordered plan \<and> distinct (map event_id (concat plan))"
  using gonum_orders.Plan_content [OF assms] by blast


lemma planned_event_None:
  "planned_event cmp options s b r = Inr None \<Longrightarrow> State_Get s (Identifier r) \<noteq> None"
  by (auto simp: planned_event_def split: option.splits)

lemma plans_eventsD:
  assumes "plans_events cmp options s desired ev" and "r \<in> set (all_resources desired)"
  shows "ev r = Some e \<Longrightarrow> ev_Resource e = r \<and> ev_Type e \<in> {EventTypeCreate, EventTypeUpdate}"
    and "ev r = None \<Longrightarrow> State_Get s (Identifier r) \<noteq> None"
proof -
  from assms obtain b where "planned_event cmp options s b r = Inr (ev r)"
    unfolding plans_events_def by blast
  then show "ev r = Some e \<Longrightarrow> ev_Resource e = r \<and> ev_Type e \<in> {EventTypeCreate, EventTypeUpdate}"
    and "ev r = None \<Longrightarrow> State_Get s (Identifier r) \<noteq> None"
    using planned_event_resource [of cmp options s b r e] planned_event_None [of cmp options s b r]
    by simp_all
qed

text \<open>
  C4. Applying a plan reaches the desired state: the identifiers of the resulting state are exactly
  those of the desired state, and each resource is the desired one or one for which the plan has no
  event and which was there already.
\<close>
theorem Plan_reaches_desired:
  assumes G: "gonum_orders G I" and wf: "state_wf s" "state_wf desired"
    and run: "Plan G I cmp s options desired = Some (Inr plan)"
  shows "\<exists>s'. apply_plan s plan = Inr s' \<and> state_wf s' \<and>
    (\<forall>i. case State_Get desired i of
       None \<Rightarrow> State_Get s' i = None
     | Some r \<Rightarrow> (if i \<in> event_id ` set (concat plan) then State_Get s' i = Some r
                  else State_Get s' i = State_Get s i \<and> State_Get s i \<noteq> None))"
proof -
  from gonum_orders.Plan_content [OF assms] obtain ev where ev: "plans_events cmp options s desired ev"
    and es: "set (concat plan) = {e. \<exists>r \<in> set (all_resources desired). ev r = Some e} \<union>
      (\<lambda>r. mk_event EventTypeDelete r NoReason None) `
        {r \<in> set (all_resources s). State_Get desired (Identifier r) = None}"
    and dist: "distinct (map event_id (concat plan))" by blast
  have create: "ev_Resource e = r \<and> ev_Type e \<in> {EventTypeCreate, EventTypeUpdate}"
    if "r \<in> set (all_resources desired)" "ev r = Some e" for r e
    using plans_eventsD(1) [OF ev that] .
  have "\<forall>e \<in> set (concat plan). \<forall>t. ev_Type e \<noteq> UnknownEventType t"
    unfolding es using create by (fastforce simp: mk_event_def)
  from apply_events_get [OF wf(1) this dist] obtain s' where
    s': "apply_plan s plan = Inr s'" "state_wf s'"
      "\<forall>e \<in> set (concat plan). State_Get s' (event_id e) = event_result e"
      "\<forall>i. i \<notin> event_id ` set (concat plan) \<longrightarrow> State_Get s' i = State_Get s i"
    unfolding apply_plan_def by blast
  have "case State_Get desired i of
       None \<Rightarrow> State_Get s' i = None
     | Some r \<Rightarrow> (if i \<in> event_id ` set (concat plan) then State_Get s' i = Some r
                  else State_Get s' i = State_Get s i \<and> State_Get s i \<noteq> None)" for i
  proof (cases "State_Get desired i")
    case None
    have "State_Get s' i = None"
    proof (cases "i \<in> event_id ` set (concat plan)")
      case True
      then obtain e where e: "e \<in> set (concat plan)" "i = event_id e" by blast
      then have "e \<notin> {e. \<exists>r \<in> set (all_resources desired). ev r = Some e}"
        using create None all_resources_iff [OF wf(2)] by (fastforce simp: event_id_def)
      with e es have "ev_Type e = EventTypeDelete" by (auto simp: mk_event_def)
      with bspec [OF s'(3) e(1)] e(2) show ?thesis by (simp add: event_result_def)
    next
      case False
      have "State_Get s i = None"
      proof (rule ccontr)
        assume "State_Get s i \<noteq> None"
        then obtain r where r: "State_Get s i = Some r" by blast
        then have "Identifier r = i" by (rule State_Get_Identifier [OF wf(1)])
        with r None have "mk_event EventTypeDelete r NoReason None \<in> set (concat plan)"
          using es all_resources_iff [OF wf(1)] by auto
        with \<open>Identifier r = i\<close> False show False by (force simp: event_id_def mk_event_def)
      qed
      with s'(4) False show ?thesis by simp
    qed
    with None show ?thesis by simp
  next
    case (Some r)
    have id: "Identifier r = i" by (rule State_Get_Identifier [OF wf(2) Some])
    with Some have r: "r \<in> set (all_resources desired)" using all_resources_iff [OF wf(2)] by simp
    show ?thesis
    proof (cases "i \<in> event_id ` set (concat plan)")
      case True
      then obtain e where e: "e \<in> set (concat plan)" "i = event_id e" by blast
      then have "e \<notin> (\<lambda>r. mk_event EventTypeDelete r NoReason None) `
          {r \<in> set (all_resources s). State_Get desired (Identifier r) = None}"
        using Some by (auto simp: event_id_def mk_event_def)
      with e es obtain q where q: "q \<in> set (all_resources desired)" "ev q = Some e" by blast
      with create e have "Identifier q = i" by (auto simp: event_id_def)
      with q(1) Some have "q = r" using all_resources_iff [OF wf(2)] by simp
      with q create bspec [OF s'(3) e(1)] e(2) have "State_Get s' i = Some r"
        by (fastforce simp: event_result_def)
      with Some True show ?thesis by simp
    next
      case False
      have "ev r = None"
      proof (rule ccontr)
        assume "ev r \<noteq> None"
        then obtain e where e: "ev r = Some e" by blast
        with r es have "e \<in> set (concat plan)" by blast
        moreover have "event_id e = i" using create [OF r e] id by (simp add: event_id_def)
        ultimately show False using False by blast
      qed
      then have "State_Get s (Identifier r) \<noteq> None" by (rule plans_eventsD(2) [OF ev r])
      with Some False s'(4) id show ?thesis by simp
    qed
  qed
  with s'(1,2) show ?thesis by blast
qed

section \<open>Planning returns\<close>

lemma planned_event_total:
  assumes "\<And>a b ig. \<exists>d. cmp a b ig = Inr d"
  shows "\<exists>e. planned_event cmp options s b r = Inr e"
proof (cases "State_Get s (Identifier r)")
  case None
  then show ?thesis by (simp add: planned_event_def)
next
  case (Some c)
  have "\<exists>d. Diff cmp c r = Inr d" using assms by (simp add: Diff_def)
  then obtain d where "Diff cmp c r = Inr d" ..
  with Some show ?thesis by (cases d) (simp_all add: planned_event_def)
qed

lemma plan_layer_total:
  assumes "\<And>a b ig. \<exists>d. cmp a b ig = Inr d"
  shows "\<exists>acc'. plan_layer cmp options s layer acc = Inr acc'"
proof -
  have "\<exists>a'. plan_resource cmp options s r a = Inr a'" for r a
    unfolding plan_resource_def prod.case_eq_if
    by (intro rbind_total planned_event_total assms) (cases a, auto split: option.splits)
  then have "\<exists>a'. fold_res (plan_resource cmp options s) layer a = Inr a'" for a
    by (intro fold_res_total) blast
  then show ?thesis
    unfolding plan_layer_def prod.case_eq_if by (intro rbind_total) auto
qed

context gonum_orders
begin

lemma Plan_succeeds:
  assumes wf: "state_wf s" "state_wf desired" and cmp: "\<And>a b ig. \<exists>d. cmp a b ig = Inr d"
    and desired: "deps_valid False desired" "acyclic (dependency_edges desired)"
    and current: "deps_valid True s" "acyclic (dependency_edges s)"
  shows "\<exists>plan. Plan G I cmp s options desired = Some (Inr plan)"
proof -
  from creation.traverse_layers [OF wf(2) desired] obtain Cs
    where "CreationOrdered G I False desired = Some (Inr Cs)" by blast
  moreover have "\<exists>a. fold_res (plan_layer cmp options s) Cs acc = Inr a" for acc
    by (intro fold_res_total) (rule plan_layer_total [where cmp = cmp, OF cmp])
  moreover from this have "\<exists>cs. rbind (fold_res (plan_layer cmp options s) Cs (NewSet [], NewSet [], []))
      (\<lambda>(_, _, plan). Inr plan) = Inr cs"
    by (intro rbind_total) auto
  ultimately obtain cs where "planCreates G I cmp s options desired = Some (Inr cs)"
    by (auto simp: planCreates_def)
  moreover from deletion.traverse_layers [OF wf(1) current(1)] current(2) obtain Ds
    where "DeletionOrdered G I True s = Some (Inr Ds)" by (auto simp: acyclic_converse)
  ultimately show ?thesis by (simp add: Plan_def planDeletes_def)
qed

lemma Plan_returns:
  assumes wf: "state_wf s" "state_wf desired"
  shows "\<exists>res. Plan G I cmp s options desired = Some res"
proof -
  have c: "\<exists>r. CreationOrdered G I False desired = Some r"
    using creation_result [OF wf(2), of False] by blast
  have d: "\<exists>r. DeletionOrdered G I True s = Some r" using deletion_result [OF wf(1), of True] by blast
  show ?thesis
    using c d unfolding Plan_def planCreates_def planDeletes_def by (auto split: sum.splits option.splits)
qed

lemma Plan_phases_nonempty:
  assumes "state_wf s" and "state_wf desired" and "Plan G I cmp s options desired = Some (Inr plan)"
    and "phase \<in> set plan"
  shows "phase \<noteq> []"
  using Plan_parts [OF assms(1-3)] assms(4) by auto

lemma Plan_settled:
  assumes wf: "state_wf s" and valid: "deps_valid False s" "acyclic (dependency_edges s)"
    and cmp: "\<And>a b ig. \<exists>d. cmp a b ig = Inr d" and same: "\<And>a ig. cmp a a ig = Inr None"
    and settled: "\<forall>r \<in> set (all_resources s). \<not> NeedsRecreate r \<and> Error r = []"
  shows "Plan G I cmp s \<lparr>ForceUpdate = False\<rparr> s = Some (Inr [])"
proof -
  have "deps_valid True s" using valid(1) by (auto simp: deps_valid_def)
  from Plan_succeeds [where cmp = cmp, OF wf wf cmp valid this valid(2), where options = "\<lparr>ForceUpdate = False\<rparr>"] obtain plan
    where plan: "Plan G I cmp s \<lparr>ForceUpdate = False\<rparr> s = Some (Inr plan)" by blast
  from Plan_content [OF wf wf plan] obtain ev where ev: "plans_events cmp \<lparr>ForceUpdate = False\<rparr> s s ev"
    and es: "set (concat plan) = {e. \<exists>r \<in> set (all_resources s). ev r = Some e} \<union>
      (\<lambda>r. mk_event EventTypeDelete r NoReason None) `
        {r \<in> set (all_resources s). State_Get s (Identifier r) = None}" by blast
  have "finite (dependency_edges s)"
    by (rule finite_subset [of _ "set (all_resources s) \<times> set (all_resources s)"])
      (auto simp: dependency_edges_def)
  then have "wf (dependency_edges s)" using valid(2) by (rule finite_acyclic_wf)
  then have none: "r \<in> set (all_resources s) \<Longrightarrow> ev r = None" for r
  proof (induction r rule: wf_induct_rule)
    case (less r)
    have flag: "\<not> (\<exists>d \<in> set (all_resources s). depends_on r d \<and> ev d \<noteq> None)"
      using less by (auto simp: dependency_edges_def)
    have "State_Get s (Identifier r) = Some r" using less.prems all_resources_iff [OF wf] by simp
    then have "planned_event cmp \<lparr>ForceUpdate = False\<rparr> s False r = Inr None"
      using settled less.prems same by (simp add: planned_event_def Diff_def)
    moreover have "planned_event cmp \<lparr>ForceUpdate = False\<rparr> s False r = Inr (ev r)"
      using bspec [OF ev [unfolded plans_events_def] less.prems] by (simp only: flag)
    ultimately show ?case by simp
  qed
  have "set (concat plan) = {}"
    unfolding es using none all_resources_iff [OF wf] by auto
  then have "plan = []" using Plan_phases_nonempty [OF wf wf plan] by (cases plan) auto
  with plan show ?thesis by simp
qed

end

section \<open>A plan that exists\<close>

text \<open>Two resources, one depending on the other, planned against the empty state.\<close>

definition no_diff :: "unit compareJSON" where
  "no_diff a b ig = Inr None"

lemma no_diff_total: "\<exists>d. no_diff a b ig = Inr d"
  by (simp add: no_diff_def)

lemma sample_chain_resources:
  "all_resources sample_chain =
     [(sample_resource ''t'' ''b'')\<lparr>Dependencies := [\<lparr>ident_ID = ''a'', ident_Type = ''t''\<rparr>]\<rparr>,
      sample_resource ''t'' ''a'']"
  by (simp add: all_resources_def sample_chain_def add_one_def NewState_def sample_resource_def)

lemma sample_chain_valid: "deps_valid b sample_chain"
proof -
  have "State_Get sample_chain \<lparr>ident_ID = ''a'', ident_Type = ''t''\<rparr> \<noteq> None"
    by (simp add: sample_chain_def add_one_get sample_resource_def)
  then show ?thesis
    by (simp add: deps_valid_def sample_chain_resources) (simp add: sample_resource_def)
qed

lemma sample_chain_acyclic: "acyclic (dependency_edges sample_chain)"
proof -
  have "dependency_edges sample_chain \<subseteq> measure (\<lambda>r. length (Dependencies r))"
    by (auto simp: dependency_edges_def sample_chain_resources depends_on_def sample_resource_def)
  then show ?thesis by (meson acyclic_subset wf_acyclic wf_measure)
qed

lemma NewState_valid: "deps_valid b NewState" "acyclic (dependency_edges NewState)"
  by (simp_all add: deps_valid_def dependency_edges_def all_resources_def NewState_def acyclic_def)

lemma sample_plan_exists:
  "\<exists>plan. Plan list_digraph list_orders no_diff NewState \<lparr>ForceUpdate = False\<rparr> sample_chain = Some (Inr plan)"
  by (rule lg.Plan_succeeds [OF state_wf_NewState sample_chain_wf no_diff_total sample_chain_valid
        sample_chain_acyclic NewState_valid])





section \<open>Refreshing and sequences of plans\<close>

text \<open>
  The refresh plan has exactly one refresh event for every resource of the state, and refreshes the
  dependencies of a resource in earlier phases.
\<close>
theorem PlanRefresh_correct:
  assumes G: "gonum_orders G I" and wf: "state_wf s"
    and run: "(PlanRefresh G I s :: (plan_error, 'p plan) res option) = Some (Inr plan)"
  shows "distinct (map ev_Resource (concat plan)) \<and>
    set (concat plan) = (\<lambda>r. mk_event EventTypeRefresh r NoReason None) ` set (all_resources s) \<and>
    (\<forall>i < length plan. \<forall>e \<in> set (plan ! i). \<forall>d \<in> set (all_resources s).
       depends_on (ev_Resource e) d \<longrightarrow> d \<in> ev_Resource ` set (concat (take i plan)))"
proof -
  let ?ev = "\<lambda>r. mk_event EventTypeRefresh r NoReason None :: 'p event"
  have res: "ev_Resource (?ev r) = r" for r by (simp add: mk_event_def)
  from run obtain Ls where Ls: "CreationOrdered G I True s = Some (Inr Ls)" and plan: "plan = map (map ?ev) Ls"
    by (auto simp: PlanRefresh_def split: option.splits sum.splits)
  from gonum_orders.creation_result [OF G wf, of True] Ls
  have C: "distinct (concat Ls)" "set (concat Ls) = set (all_resources s)"
    "\<forall>i < length Ls. \<forall>r \<in> set (Ls ! i). \<forall>d \<in> set (all_resources s). depends_on r d \<longrightarrow>
       d \<in> set (concat (take i Ls))" by auto
  have conc: "concat (map (map ?ev) Ms) = map ?ev (concat Ms)" for Ms by (simp add: map_concat)
  have "map ev_Resource (concat plan) = concat Ls" unfolding plan conc by (simp add: comp_def res)
  moreover have "set (concat plan) = ?ev ` set (all_resources s)" unfolding plan conc C(2) [symmetric] by simp
  moreover have "d \<in> ev_Resource ` set (concat (take i plan))"
    if i: "i < length plan" and e: "e \<in> set (plan ! i)" and d: "d \<in> set (all_resources s)"
      "depends_on (ev_Resource e) d" for i e d
  proof -
    from i e plan obtain r where "r \<in> set (Ls ! i)" "e = ?ev r" by auto
    with C(3) i d plan have "d \<in> set (concat (take i Ls))" by (simp add: res)
    then have "?ev d \<in> set (concat (take i plan))" unfolding plan take_map conc by simp
    then show ?thesis using res by (metis imageI)
  qed
  ultimately show ?thesis using C(1) by simp
qed

theorem PlanRefresh_correct_witness:
  "\<exists>plan :: unit plan. PlanRefresh list_digraph list_orders sample_chain = Some (Inr plan) \<and>
     distinct (map ev_Resource (concat plan))"
proof -
  obtain Ls where "CreationOrdered list_digraph list_orders True sample_chain = Some (Inr Ls)"
    using lg.creation.traverse_layers [OF sample_chain_wf sample_chain_valid sample_chain_acyclic] by blast
  then obtain plan :: "unit plan" where "PlanRefresh list_digraph list_orders sample_chain = Some (Inr plan)"
    by (simp add: PlanRefresh_def)
  with PlanRefresh_correct [OF lg.gonum_orders_axioms sample_chain_wf this] show ?thesis by blast
qed

text \<open>The pairs of consecutive states that \<^verbatim>\<open>PlanAll\<close> plans between, with their options.\<close>

fun plan_chain :: "PlanOptions \<Rightarrow> state \<Rightarrow> state list \<Rightarrow> (state \<times> PlanOptions \<times> state) list" where
  "plan_chain options s [] = []"
| "plan_chain options s (t # ts) =
     (s, \<lparr>ForceUpdate = ForceUpdate options \<and> ts = []\<rparr>, t) # plan_chain options t ts"

lemma plan_states_chain:
  "plan_states G I cmp options (i + length new) i s new plans = Some (Inr plans') \<Longrightarrow>
   \<exists>ps. map (\<lambda>(s, opts, t). Plan G I cmp s opts t) (plan_chain options s new) = map (\<lambda>p. Some (Inr p)) ps \<and>
     plans' = plans @ filter (\<lambda>p. length p > 0) ps"
proof (induction options s new arbitrary: i plans rule: plan_chain.induct)
  case (1 options s)
  then show ?case by simp
next
  case (2 options s t ts)
  have force: "i = i + length (t # ts) - 1 \<longleftrightarrow> ts = []" by auto
  from "2.prems" obtain p where p: "Plan G I cmp s \<lparr>ForceUpdate = ForceUpdate options \<and> ts = []\<rparr> t = Some (Inr p)"
    and rest: "plan_states G I cmp options ((i + 1) + length ts) (i + 1) t ts
      (if length p > 0 then plans @ [p] else plans) = Some (Inr plans')"
    unfolding plan_states.simps Let_def force by (auto split: option.splits sum.splits)
  from "2.IH" [OF rest] obtain ps where
    "map (\<lambda>(s, opts, t). Plan G I cmp s opts t) (plan_chain options t ts) = map (\<lambda>p. Some (Inr p)) ps"
    "plans' = (if length p > 0 then plans @ [p] else plans) @ filter (\<lambda>p. length p > 0) ps" by blast
  with p show ?case by (intro exI [of _ "p # ps"]) simp
qed

text \<open>
  \<^verbatim>\<open>PlanAll\<close> plans each given state against the one before it, starting with the current state. It
  forces updates only in the plan for the last state, and returns the plans in order without the
  empty ones.
\<close>
theorem PlanAll_chain:
  assumes "PlanAll G I cmp s options new = Some (Inr plans)"
  shows "\<exists>ps. map (\<lambda>(s, opts, t). Plan G I cmp s opts t) (plan_chain options s new) =
      map (\<lambda>p. Some (Inr p)) ps \<and> plans = filter (\<lambda>p. length p > 0) ps"
  using plan_states_chain [of G I cmp options 0 new s "[]" plans] assms by (simp add: PlanAll_def)

theorem PlanAll_chain_witness:
  "\<exists>ps. map (\<lambda>(s, opts, t). Plan list_digraph list_orders no_diff s opts t)
     (plan_chain \<lparr>ForceUpdate = False\<rparr> NewState []) = map (\<lambda>p. Some (Inr p)) ps \<and> [] = filter (\<lambda>p. length p > 0) ps"
  by (rule PlanAll_chain) (simp add: PlanAll_def)

theorem Plan_ordered_witness:
  "\<exists>plan. Plan list_digraph list_orders no_diff NewState \<lparr>ForceUpdate = False\<rparr> sample_chain = Some (Inr plan) \<and>
     phases_ordered plan"
proof -
  from sample_plan_exists obtain plan where
    "Plan list_digraph list_orders no_diff NewState \<lparr>ForceUpdate = False\<rparr> sample_chain = Some (Inr plan)" ..
  with Plan_ordered [OF lg.gonum_orders_axioms state_wf_NewState sample_chain_wf this] show ?thesis by blast
qed


theorem Plan_reaches_desired_witness:
  "\<exists>plan s'. Plan list_digraph list_orders no_diff NewState \<lparr>ForceUpdate = False\<rparr> sample_chain = Some (Inr plan) \<and>
     apply_plan NewState plan = Inr s' \<and> State_Get s' \<lparr>ident_ID = ''zzz'', ident_Type = ''t''\<rparr> = None"
proof -
  from sample_plan_exists obtain plan where
    plan: "Plan list_digraph list_orders no_diff NewState \<lparr>ForceUpdate = False\<rparr> sample_chain = Some (Inr plan)" ..
  have none: "State_Get sample_chain \<lparr>ident_ID = ''zzz'', ident_Type = ''t''\<rparr> = None"
    by (simp add: sample_chain_def add_one_get sample_resource_def)
  from Plan_reaches_desired [OF lg.gonum_orders_axioms state_wf_NewState sample_chain_wf plan]
  obtain s' where s': "apply_plan NewState plan = Inr s'" and
    "\<forall>i. case State_Get sample_chain i of None \<Rightarrow> State_Get s' i = None
       | Some r \<Rightarrow> (if i \<in> event_id ` set (concat plan) then State_Get s' i = Some r
                  else State_Get s' i = State_Get NewState i \<and> State_Get NewState i \<noteq> None)" by blast
  from this(2) [rule_format, of "\<lparr>ident_ID = ''zzz'', ident_Type = ''t''\<rparr>"] none s' plan show ?thesis by auto
qed

end
