(* ===== verification/Resource_Event.thy ===== *)
theory Resource_Event
  imports Resource_Plan
begin

text \<open>
  Applying events to resources (\<^verbatim>\<open>server/internal/resource/event.go\<close>), the registry and the
  conversions between resources and resource data (\<^verbatim>\<open>resource.go\<close>, \<^verbatim>\<open>state.go\<close>), and plan summaries
  (\<^verbatim>\<open>summary.go\<close>). A resource is a value of a parameter type \<open>'r\<close>; the methods of the Go interface
  \<^verbatim>\<open>Resource\<close> and its JSON form are the record \<open>resource_iface\<close>. The methods that act on the outside
  world also take and return the state \<open>'w\<close> of that world.
\<close>

datatype op_error = NotFoundError string | OtherError string

fun error_text :: "op_error \<Rightarrow> string" where
  "error_text (NotFoundError m) = m"
| "error_text (OtherError m) = m"

type_synonym ('r, 'w) lifecycle = "'r \<Rightarrow> 'w \<Rightarrow> op_error option \<times> 'r \<times> 'w"

record ('r, 'w) resource_iface =
  if_Executor :: "'r \<Rightarrow> executor"
  if_Identifier :: "'r \<Rightarrow> ident"
  if_Dependencies :: "'r \<Rightarrow> ident list"
  if_TypeDependencies :: "'r \<Rightarrow> resource_type list"
  if_DiffIgnore :: "'r \<Rightarrow> string list"
  if_ResourceVersion :: "'r \<Rightarrow> string"
  if_Marshal :: "'r \<Rightarrow> (string, string) res"
  if_Refresh :: "('r, 'w) lifecycle"
  if_Create :: "('r, 'w) lifecycle"
  if_Update :: "('r, 'w) lifecycle"
  if_Delete :: "('r, 'w) lifecycle"

datatype event_error =
    ErrUnknownResourceType resource_type
  | ErrCreateResource string
  | ErrMarshal string
  | ErrRefresh ident op_error
  | ErrDelete ident op_error
  | ErrEventType string
  | ErrStateNotFound ident
  | ErrResourceNeedsRecreate ident
  | ErrUnmarshal string

section \<open>Resources and their data\<close>

definition ToResourceData :: "('r, 'w) resource_iface \<Rightarrow> 'r \<Rightarrow> (event_error, resource_data) res" where
  "ToResourceData R resource =
     (case if_Marshal R resource of
        Inl e \<Rightarrow> Inl (ErrMarshal e)
      | Inr attributes \<Rightarrow> Inr
          \<lparr>NeedsRecreate = False, Executor = if_Executor R resource, Identifier = if_Identifier R resource,
           Attributes = attributes, Dependencies = if_Dependencies R resource,
           TypeDependencies = if_TypeDependencies R resource, DiffIgnore = if_DiffIgnore R resource,
           ResourceVersion = if_ResourceVersion R resource, PendingDeletion = False, Error = []\<rparr>)"

fun ToResourceDataSlice_loop :: "('r, 'w) resource_iface \<Rightarrow> 'r list \<Rightarrow> event_error list \<Rightarrow> resource_data list \<Rightarrow>
    event_error list \<times> resource_data list" where
  "ToResourceDataSlice_loop R [] errs data = (errs, data)"
| "ToResourceDataSlice_loop R (r # rs) errs data =
     (case ToResourceData R r of
        Inl e \<Rightarrow> ToResourceDataSlice_loop R rs (errs @ [e]) data
      | Inr d \<Rightarrow> ToResourceDataSlice_loop R rs errs (data @ [d]))"

definition ToResourceDataSlice :: "('r, 'w) resource_iface \<Rightarrow> 'r list \<Rightarrow>
    (event_error list, resource_data list) res" where
  "ToResourceDataSlice R resources =
     (case ToResourceDataSlice_loop R resources [] [] of (errs, data) \<Rightarrow>
        if errs \<noteq> [] then Inl errs else Inr data)"

definition AddResource :: "('r, 'w) resource_iface \<Rightarrow> 'r list \<Rightarrow> state \<Rightarrow> (event_error, state) res" where
  "AddResource R resources s =
     fold_res (\<lambda>r s. rbind (ToResourceData R r) (\<lambda>data. Inr (State_Add s [data]))) resources s"

text \<open>\<^verbatim>\<open>ToResource\<close> decodes the attributes with \<^verbatim>\<open>json.Unmarshal\<close>, an argument here.\<close>

definition ToResource :: "(string \<Rightarrow> (string, 'r) res) \<Rightarrow> resource_data \<Rightarrow> (event_error, 'r) res" where
  "ToResource unmarshal data =
     (case unmarshal (Attributes data) of Inl e \<Rightarrow> Inl (ErrUnmarshal e) | Inr r \<Rightarrow> Inr r)"

definition FromState :: "(string \<Rightarrow> (string, 'r) res) \<Rightarrow> state \<Rightarrow> ident \<Rightarrow> (event_error, 'r) res" where
  "FromState unmarshal s identifier =
     (case State_Get s identifier of
        None \<Rightarrow> Inl (ErrStateNotFound identifier)
      | Some data \<Rightarrow>
          if NeedsRecreate data then Inl (ErrResourceNeedsRecreate identifier)
          else ToResource unmarshal data)"

definition AllFromState :: "(string \<Rightarrow> (string, 'r) res) \<Rightarrow> state \<Rightarrow> resource_type \<Rightarrow> (event_error, 'r list) res" where
  "AllFromState unmarshal s resourceType = map_res (ToResource unmarshal) (State_GetAll s resourceType)"

type_synonym 'r registry = "(resource_type, resource_data \<Rightarrow> (event_error, 'r) res) gomap"

definition NewRegistry :: "'r registry" where
  "NewRegistry = []"

definition Registry_Resource :: "'r registry \<Rightarrow> resource_data \<Rightarrow> (event_error, 'r) res" where
  "Registry_Resource factories data =
     (case gm_get factories (ident_Type (Identifier data)) of
        None \<Rightarrow> Inl (ErrUnknownResourceType (ident_Type (Identifier data)))
      | Some f \<Rightarrow> f data)"

definition RegisterResourceType :: "(string \<Rightarrow> (string, 'r) res) \<Rightarrow> 'r registry \<Rightarrow> resource_type \<Rightarrow> 'r registry" where
  "RegisterResourceType unmarshal registry t = gm_put registry t (ToResource unmarshal)"

section \<open>Applying an event\<close>

definition event_refresh :: "('r, 'w) resource_iface \<Rightarrow> 'p event \<Rightarrow> 'r \<Rightarrow> 'w \<Rightarrow>
    (event_error, 'p event) res \<times> 'w" where
  "event_refresh R e resource w =
     (case if_Refresh R resource w of (err, resource', w') \<Rightarrow>
        (case err of
           Some (OtherError m) \<Rightarrow> (Inl (ErrRefresh (if_Identifier R resource') (OtherError m)), w')
         | _ \<Rightarrow>
             let needsRecreate = (case err of Some (NotFoundError m) \<Rightarrow> True | _ \<Rightarrow> NeedsRecreate (ev_Resource e));
                 applyErr = Error (ev_Resource e)
             in (rbind (ToResourceData R resource') (\<lambda>updated.
                   Inr (e\<lparr>ev_Resource := updated\<lparr>NeedsRecreate := needsRecreate, Error := applyErr\<rparr>\<rparr>)), w')))"

definition event_create :: "('r, 'w) resource_iface \<Rightarrow> 'p event \<Rightarrow> 'r \<Rightarrow> 'w \<Rightarrow>
    (event_error, 'p event) res \<times> 'w" where
  "event_create R e resource w =
     (case if_Create R resource w of (err, resource', w') \<Rightarrow>
        let needsRecreate = (err \<noteq> None);
            applyErr = (case err of None \<Rightarrow> []
              | Some x \<Rightarrow> ''failed to create resource '' @ Identifier_String (if_Identifier R resource') @ '': '' @ error_text x)
        in (rbind (ToResourceData R resource') (\<lambda>updated.
              Inr (e\<lparr>ev_Resource := updated\<lparr>NeedsRecreate := needsRecreate, Error := applyErr\<rparr>\<rparr>)), w'))"

definition event_update :: "('r, 'w) resource_iface \<Rightarrow> 'p event \<Rightarrow> 'r \<Rightarrow> 'w \<Rightarrow>
    (event_error, 'p event) res \<times> 'w" where
  "event_update R e resource w =
     (case if_Update R resource w of (err, resource', w') \<Rightarrow>
        let applyErr = (case err of None \<Rightarrow> []
              | Some x \<Rightarrow> ''failed to update resource '' @ Identifier_String (if_Identifier R resource') @ '': '' @ error_text x)
        in (rbind (ToResourceData R resource') (\<lambda>updated.
              Inr (e\<lparr>ev_Resource := updated\<lparr>Error := applyErr\<rparr>\<rparr>)), w'))"

definition event_delete :: "('r, 'w) resource_iface \<Rightarrow> 'p event \<Rightarrow> 'r \<Rightarrow> 'w \<Rightarrow>
    (event_error, 'p event) res \<times> 'w" where
  "event_delete R e resource w =
     (case if_Delete R resource w of (err, resource', w') \<Rightarrow>
        (case err of
           Some x \<Rightarrow> (Inl (ErrDelete (if_Identifier R resource') x), w')
         | None \<Rightarrow> (rbind (ToResourceData R resource') (\<lambda>updated. Inr (e\<lparr>ev_Resource := updated\<rparr>)), w')))"

definition Event_Apply :: "('r, 'w) resource_iface \<Rightarrow> 'r registry \<Rightarrow> 'p event \<Rightarrow> 'w \<Rightarrow>
    (event_error, 'p event) res \<times> 'w" where
  "Event_Apply R registry e w =
     (case Registry_Resource registry (ev_Resource e) of
        Inl err \<Rightarrow> (Inl err, w)
      | Inr resource \<Rightarrow>
          (case ev_Type e of
             EventTypeRefresh \<Rightarrow> event_refresh R e resource w
           | EventTypeCreate \<Rightarrow> event_create R e resource w
           | EventTypeUpdate \<Rightarrow> event_update R e resource w
           | EventTypeDelete \<Rightarrow> event_delete R e resource w
           | UnknownEventType t \<Rightarrow> (Inl (ErrEventType t), w)))"

definition ResourceError :: "'p event \<Rightarrow> string option" where
  "ResourceError e = (if Error (ev_Resource e) \<noteq> [] then Some (Error (ev_Resource e)) else None)"

section \<open>Summaries\<close>

record EventSummary =
  sum_Type :: event_type
  sum_ResourceID :: string
  sum_Reason :: event_reason
  sum_Diff :: string

definition RawJSON_MarshalJSON :: "string option \<Rightarrow> string" where
  "RawJSON_MarshalJSON a = (case a of None \<Rightarrow> ''null'' | Some b \<Rightarrow> b)"

definition RawJSON_UnmarshalJSON :: "(string \<Rightarrow> (string, string) res) \<Rightarrow> string \<Rightarrow> (event_error, string) res" where
  "RawJSON_UnmarshalJSON compact data =
     (case compact data of Inl e \<Rightarrow> Inl (ErrUnmarshal e) | Inr b \<Rightarrow> Inr b)"

definition Event_Summary :: "('p option \<Rightarrow> (string, string) res) \<Rightarrow> 'p event \<Rightarrow> EventSummary" where
  "Event_Summary marshal e =
     \<lparr>sum_Type = ev_Type e, sum_ResourceID = Identifier_String (Identifier (ev_Resource e)),
      sum_Reason = ev_Reason e,
      sum_Diff = (case marshal (ev_Diff e) of Inl _ \<Rightarrow> ''<invalid operation>'' | Inr d \<Rightarrow> d)\<rparr>"

definition Plan_Summary :: "('p option \<Rightarrow> (string, string) res) \<Rightarrow> 'p plan \<Rightarrow> EventSummary list list" where
  "Plan_Summary marshal p =
     map (\<lambda>phase. sort_func (\<lambda>a b. go_compare (sum_ResourceID a) (sum_ResourceID b))
            (map (Event_Summary marshal) phase)) p"

definition SummarizePlans :: "('p option \<Rightarrow> (string, string) res) \<Rightarrow> 'p plan list \<Rightarrow> EventSummary list list list" where
  "SummarizePlans marshal plans = map (Plan_Summary marshal) plans"

section \<open>The outcome of an event and the next plan\<close>

text \<open>
  The lifecycle methods of a resource change the world, not what the resource is: its identifier stays
  the one its data was stored under, and its data can be encoded.
\<close>

definition faithful_resource :: "('r, 'w) resource_iface \<Rightarrow> 'r registry \<Rightarrow> resource_data \<Rightarrow> bool" where
  "faithful_resource R registry d \<longleftrightarrow>
     (\<exists>r. Registry_Resource registry d = Inr r \<and>
       (\<forall>w. \<forall>m \<in> {if_Refresh R, if_Create R, if_Update R, if_Delete R}.
          if_Identifier R (fst (snd (m r w))) = Identifier d \<and>
          (\<exists>a. if_Marshal R (fst (snd (m r w))) = Inr a)))"

lemma ToResourceData_Inr:
  "if_Marshal R r = Inr a \<Longrightarrow> \<exists>d. ToResourceData R r = Inr d \<and> Identifier d = if_Identifier R r \<and>
     \<not> NeedsRecreate d \<and> \<not> PendingDeletion d \<and> Error d = []"
  by (simp add: ToResourceData_def)

lemma Event_Apply_create:
  assumes "faithful_resource R registry (ev_Resource e)" and "ev_Type e = EventTypeCreate"
  shows "\<exists>r e'. Registry_Resource registry (ev_Resource e) = Inr r \<and> fst (Event_Apply R registry e w) = Inr e' \<and>
    ev_Type e' = EventTypeCreate \<and> event_id e' = event_id e \<and> \<not> PendingDeletion (ev_Resource e') \<and>
    (NeedsRecreate (ev_Resource e') \<longleftrightarrow> fst (if_Create R r w) \<noteq> None) \<and>
    (Error (ev_Resource e') \<noteq> [] \<longleftrightarrow> fst (if_Create R r w) \<noteq> None)"
proof -
  from assms(1) obtain r a where r: "Registry_Resource registry (ev_Resource e) = Inr r"
    and id: "if_Identifier R (fst (snd (if_Create R r w))) = Identifier (ev_Resource e)"
    and a: "if_Marshal R (fst (snd (if_Create R r w))) = Inr a"
    unfolding faithful_resource_def by blast
  obtain err r' w' where c: "if_Create R r w = (err, r', w')" by (cases "if_Create R r w")
  from ToResourceData_Inr [of R r' a] a c obtain d where "ToResourceData R r' = Inr d"
    "Identifier d = if_Identifier R r'" "\<not> PendingDeletion d" by auto
  with r c id assms(2) show ?thesis
    by (auto simp: Event_Apply_def event_create_def event_id_def Let_def split: option.splits)
qed

lemma Event_Apply_update:
  assumes "faithful_resource R registry (ev_Resource e)" and "ev_Type e = EventTypeUpdate"
  shows "\<exists>r e'. Registry_Resource registry (ev_Resource e) = Inr r \<and> fst (Event_Apply R registry e w) = Inr e' \<and>
    ev_Type e' = EventTypeUpdate \<and> event_id e' = event_id e \<and> \<not> PendingDeletion (ev_Resource e') \<and>
    \<not> NeedsRecreate (ev_Resource e') \<and>
    (Error (ev_Resource e') \<noteq> [] \<longleftrightarrow> fst (if_Update R r w) \<noteq> None)"
proof -
  from assms(1) obtain r a where r: "Registry_Resource registry (ev_Resource e) = Inr r"
    and id: "if_Identifier R (fst (snd (if_Update R r w))) = Identifier (ev_Resource e)"
    and a: "if_Marshal R (fst (snd (if_Update R r w))) = Inr a"
    unfolding faithful_resource_def by blast
  obtain err r' w' where c: "if_Update R r w = (err, r', w')" by (cases "if_Update R r w")
  from ToResourceData_Inr [of R r' a] a c obtain d where "ToResourceData R r' = Inr d"
    "Identifier d = if_Identifier R r'" "\<not> PendingDeletion d" "\<not> NeedsRecreate d" by auto
  with r c id assms(2) show ?thesis
    by (auto simp: Event_Apply_def event_update_def event_id_def Let_def split: option.splits)
qed

text \<open>Applying an event and recording its outcome in the state, as the reconciler does.\<close>

definition apply_and_record :: "('r, 'w) resource_iface \<Rightarrow> 'r registry \<Rightarrow> state \<Rightarrow> 'p event \<Rightarrow> 'w \<Rightarrow> state" where
  "apply_and_record R registry s e w =
     (case fst (Event_Apply R registry e w) of
        Inl _ \<Rightarrow> s
      | Inr e' \<Rightarrow> (case State_Apply s e' of Inl _ \<Rightarrow> s | Inr s' \<Rightarrow> s'))"

text \<open>
  C29. A failed creation is retried: recording the outcome leaves the resource in the state, marked for
  recreation and with the error, so that the next plan creates it again; after a creation that
  succeeded neither mark is set.
\<close>
theorem failed_create_is_retried:
  assumes "state_wf s" and "faithful_resource R registry (ev_Resource e)" and "ev_Type e = EventTypeCreate"
    and "Registry_Resource registry (ev_Resource e) = Inr r" and "Identifier d = Identifier (ev_Resource e)"
  shows "\<exists>c. State_Get (apply_and_record R registry s e w) (Identifier d) = Some c \<and>
    (NeedsRecreate c \<longleftrightarrow> fst (if_Create R r w) \<noteq> None) \<and> (Error c \<noteq> [] \<longleftrightarrow> fst (if_Create R r w) \<noteq> None) \<and>
    (fst (if_Create R r w) \<noteq> None \<longrightarrow>
      planned_event cmp options (apply_and_record R registry s e w) b d =
        Inr (Some (mk_event EventTypeCreate d EventReasonNeedsRecreate None)))"
proof -
  from Event_Apply_create [OF assms(2,3), of w] assms(4) obtain e' where
    e': "fst (Event_Apply R registry e w) = Inr e'" "ev_Type e' = EventTypeCreate" "event_id e' = event_id e"
      "\<not> PendingDeletion (ev_Resource e')"
      "NeedsRecreate (ev_Resource e') \<longleftrightarrow> fst (if_Create R r w) \<noteq> None"
      "Error (ev_Resource e') \<noteq> [] \<longleftrightarrow> fst (if_Create R r w) \<noteq> None" by auto
  then have "apply_and_record R registry s e w = add_one s (ev_Resource e')"
    by (simp add: apply_and_record_def State_Apply_def)
  then have "State_Get (apply_and_record R registry s e w) (Identifier d) = Some (ev_Resource e')"
    using e'(3) assms(5) by (simp add: add_one_get event_id_def)
  with e' show ?thesis by (auto simp: planned_event_def)
qed

text \<open>
  A failed update is retried: the resource keeps the error in the state, and the next plan updates
  it again because of that error; a failed deletion leaves the state untouched, so that the next plan
  deletes it again.
\<close>
theorem failed_update_and_delete_are_retried:
  assumes "state_wf s" and "faithful_resource R registry (ev_Resource e)"
    and "Registry_Resource registry (ev_Resource e) = Inr r" and "Identifier d = Identifier (ev_Resource e)"
  shows "(ev_Type e = EventTypeUpdate \<and> fst (if_Update R r w) \<noteq> None \<longrightarrow>
      planned_event cmp options (apply_and_record R registry s e w) b d =
        Inr (Some (mk_event EventTypeUpdate d EventReasonHasError None))) \<and>
    (ev_Type e = EventTypeDelete \<and> fst (if_Delete R r w) \<noteq> None \<longrightarrow>
      apply_and_record R registry s e w = s)"
proof (intro conjI impI)
  assume u: "ev_Type e = EventTypeUpdate \<and> fst (if_Update R r w) \<noteq> None"
  with Event_Apply_update [OF assms(2), of w] assms(3) obtain e' where
    e': "fst (Event_Apply R registry e w) = Inr e'" "ev_Type e' = EventTypeUpdate" "event_id e' = event_id e"
      "\<not> PendingDeletion (ev_Resource e')" "\<not> NeedsRecreate (ev_Resource e')" "Error (ev_Resource e') \<noteq> []"
    by auto
  then have "apply_and_record R registry s e w = add_one s (ev_Resource e')"
    by (simp add: apply_and_record_def State_Apply_def)
  then have "State_Get (apply_and_record R registry s e w) (Identifier d) = Some (ev_Resource e')"
    using e'(3) assms(4) by (simp add: add_one_get event_id_def)
  with e' show "planned_event cmp options (apply_and_record R registry s e w) b d =
      Inr (Some (mk_event EventTypeUpdate d EventReasonHasError None))"
    by (simp add: planned_event_def)
next
  assume "ev_Type e = EventTypeDelete \<and> fst (if_Delete R r w) \<noteq> None"
  with assms(3) show "apply_and_record R registry s e w = s"
    by (auto simp: apply_and_record_def Event_Apply_def event_delete_def split: prod.splits option.splits)
qed

section \<open>A resource whose methods fail or succeed as given\<close>

definition stub_iface :: "op_error option \<Rightarrow> (resource_data, unit) resource_iface" where
  "stub_iface err =
     \<lparr>if_Executor = Executor, if_Identifier = Identifier, if_Dependencies = Dependencies,
      if_TypeDependencies = TypeDependencies, if_DiffIgnore = DiffIgnore,
      if_ResourceVersion = ResourceVersion, if_Marshal = (\<lambda>r. Inr (Attributes r)),
      if_Refresh = (\<lambda>r w. (err, r, w)), if_Create = (\<lambda>r w. (err, r, w)),
      if_Update = (\<lambda>r w. (err, r, w)), if_Delete = (\<lambda>r w. (err, r, w))\<rparr>"

definition stub_registry :: "resource_data registry" where
  "stub_registry = gm_put NewRegistry ''t'' Inr"

lemma stub_faithful: "faithful_resource (stub_iface err) stub_registry (sample_resource ''t'' ''a'')"
  by (simp add: faithful_resource_def Registry_Resource_def stub_registry_def NewRegistry_def stub_iface_def
      sample_resource_def)

lemma stub_registered: "Registry_Resource stub_registry (sample_resource ''t'' ''a'') = Inr (sample_resource ''t'' ''a'')"
  by (simp add: Registry_Resource_def stub_registry_def NewRegistry_def sample_resource_def)

theorem failed_create_is_retried_witness:
  "planned_event (\<lambda>_ _ _. Inr None) \<lparr>ForceUpdate = False\<rparr> (apply_and_record (stub_iface (Some (OtherError ''disk full''))) stub_registry
     NewState (mk_event EventTypeCreate (sample_resource ''t'' ''a'') EventReasonDoesNotExist (None :: unit option)) ())
     False (sample_resource ''t'' ''a'') =
   Inr (Some (mk_event EventTypeCreate (sample_resource ''t'' ''a'') EventReasonNeedsRecreate None))"
proof -
  let ?e = "mk_event EventTypeCreate (sample_resource ''t'' ''a'') EventReasonDoesNotExist (None :: unit option)"
  have res: "ev_Resource ?e = sample_resource ''t'' ''a''" "ev_Type ?e = EventTypeCreate"
    by (simp_all add: mk_event_def)
  from failed_create_is_retried [of NewState "stub_iface (Some (OtherError ''disk full''))" stub_registry ?e
      "sample_resource ''t'' ''a''" "sample_resource ''t'' ''a''" "()" "\<lambda>_ _ _. Inr None" "\<lparr>ForceUpdate = False\<rparr>" False]
  show ?thesis
    using stub_faithful stub_registered unfolding res by (auto simp: stub_iface_def)
qed

theorem failed_update_and_delete_are_retried_witness:
  "apply_and_record (stub_iface (Some (OtherError ''busy''))) stub_registry NewState
     (mk_event EventTypeDelete (sample_resource ''t'' ''a'') NoReason (None :: unit option)) () = NewState"
proof -
  let ?e = "mk_event EventTypeDelete (sample_resource ''t'' ''a'') NoReason (None :: unit option)"
  have res: "ev_Resource ?e = sample_resource ''t'' ''a''" "ev_Type ?e = EventTypeDelete"
    by (simp_all add: mk_event_def)
  from failed_update_and_delete_are_retried [of NewState "stub_iface (Some (OtherError ''busy''))" stub_registry ?e
      "sample_resource ''t'' ''a''" "sample_resource ''t'' ''a''" "()"]
  show ?thesis
    using stub_faithful stub_registered unfolding res by (auto simp: stub_iface_def)
qed

end
