(* ===== verification/Db_Resource.thy ===== *)
theory Db_Resource
  imports Resource_Event
begin

text \<open>
  The resources of a database (\<^verbatim>\<open>server/internal/database\<close>, \<^verbatim>\<open>server/internal/monitor\<close>): their fields and the
  methods of the interface \<^verbatim>\<open>Resource\<close> that describe them to the planner. The lifecycle methods and the JSON
  form are taken from a given interface record. Of an instance the model has the fields that the operations
  read; the others are one value of a parameter type.
\<close>

section \<open>Identifiers\<close>

definition id2 :: "string \<Rightarrow> string \<Rightarrow> string" where
  "id2 a b = a @ '':'' @ b"

definition id3 :: "string \<Rightarrow> string \<Rightarrow> string \<Rightarrow> string" where
  "id3 a b c = a @ '':'' @ b @ '':'' @ c"

definition InstanceResourceIdentifier :: "string \<Rightarrow> ident" where
  "InstanceResourceIdentifier instanceID = \<lparr>ident_ID = instanceID, ident_Type = ''database.instance''\<rparr>"

definition NodeResourceIdentifier :: "string \<Rightarrow> ident" where
  "NodeResourceIdentifier nodeName = \<lparr>ident_ID = nodeName, ident_Type = ''database.node''\<rparr>"

definition PostgresDatabaseResourceIdentifier :: "string \<Rightarrow> string \<Rightarrow> ident" where
  "PostgresDatabaseResourceIdentifier nodeName dbName = \<lparr>ident_ID = id2 nodeName dbName, ident_Type = ''database.postgres_database''\<rparr>"

definition InstanceMonitorResourceIdentifier :: "string \<Rightarrow> ident" where
  "InstanceMonitorResourceIdentifier instanceID = \<lparr>ident_ID = instanceID, ident_Type = ''monitor.instance''\<rparr>"

definition ServiceInstanceMonitorResourceIdentifier :: "string \<Rightarrow> ident" where
  "ServiceInstanceMonitorResourceIdentifier serviceInstanceID = \<lparr>ident_ID = serviceInstanceID, ident_Type = ''monitor.service_instance''\<rparr>"

definition ReplicationSlotResourceIdentifier :: "string \<Rightarrow> string \<Rightarrow> string \<Rightarrow> ident" where
  "ReplicationSlotResourceIdentifier providerNode subscriberNode databaseName = \<lparr>ident_ID = id3 providerNode subscriberNode databaseName, ident_Type = ''database.replication_slot''\<rparr>"

definition SubscriptionResourceIdentifier :: "string \<Rightarrow> string \<Rightarrow> string \<Rightarrow> ident" where
  "SubscriptionResourceIdentifier providerNode subscriberNode databaseName = \<lparr>ident_ID = id3 providerNode subscriberNode databaseName, ident_Type = ''database.subscription''\<rparr>"

definition subName :: "string \<Rightarrow> string \<Rightarrow> string" where
  "subName providerName subscriberName = ''sub_'' @ providerName @ ''_'' @ subscriberName"

definition ReplicationSlotName :: "string \<Rightarrow> string \<Rightarrow> string \<Rightarrow> string" where
  "ReplicationSlotName databaseName providerName subscriberName =
     ''spk_'' @ databaseName @ ''_'' @ providerName @ ''_'' @ subName providerName subscriberName"

definition ReplicationSlotCreateResourceIdentifier :: "string \<Rightarrow> string \<Rightarrow> string \<Rightarrow> ident" where
  "ReplicationSlotCreateResourceIdentifier databaseName providerNode subscriberNode = \<lparr>ident_ID = ReplicationSlotName databaseName providerNode subscriberNode, ident_Type = ''database.replication_slot_create''\<rparr>"

definition SyncEventResourceIdentifier :: "string \<Rightarrow> string \<Rightarrow> string \<Rightarrow> ident" where
  "SyncEventResourceIdentifier providerNode subscriberNode databaseName = \<lparr>ident_ID = id3 providerNode subscriberNode databaseName, ident_Type = ''database.sync_event''\<rparr>"

definition WaitForSyncEventResourceIdentifier :: "string \<Rightarrow> string \<Rightarrow> string \<Rightarrow> ident" where
  "WaitForSyncEventResourceIdentifier providerNode subscriberNode databaseName = \<lparr>ident_ID = id3 providerNode subscriberNode databaseName, ident_Type = ''database.wait_for_sync_event''\<rparr>"

definition PeerCatchupResourceIdentifier :: "string \<Rightarrow> string \<Rightarrow> string \<Rightarrow> ident" where
  "PeerCatchupResourceIdentifier sourceNode peerNode databaseName = \<lparr>ident_ID = id3 sourceNode peerNode databaseName, ident_Type = ''database.peer_catchup''\<rparr>"

definition LagTrackerCommitTSIdentifier :: "string \<Rightarrow> string \<Rightarrow> string \<Rightarrow> ident" where
  "LagTrackerCommitTSIdentifier originNode receiverNode databaseName = \<lparr>ident_ID = id3 originNode receiverNode databaseName, ident_Type = ''database.lag_tracker_commit_ts''\<rparr>"

definition ReplicationSlotAdvanceFromCTSResourceIdentifier :: "string \<Rightarrow> string \<Rightarrow> string \<Rightarrow> ident" where
  "ReplicationSlotAdvanceFromCTSResourceIdentifier providerNode subscriberNode databaseName = \<lparr>ident_ID = id3 providerNode subscriberNode databaseName, ident_Type = ''database.replication_slot_advance_from_cts''\<rparr>"

definition ReplicationOriginAdvanceResourceIdentifier :: "string \<Rightarrow> string \<Rightarrow> string \<Rightarrow> ident" where
  "ReplicationOriginAdvanceResourceIdentifier providerNode subscriberNode databaseName = \<lparr>ident_ID = id3 providerNode subscriberNode databaseName, ident_Type = ''database.replication_origin_advance''\<rparr>"

definition DumpRolesResourceIdentifier :: "string \<Rightarrow> ident" where
  "DumpRolesResourceIdentifier nodeName = \<lparr>ident_ID = nodeName, ident_Type = ''database.dump_roles''\<rparr>"

definition RolesSourceResourceIdentifier :: "string \<Rightarrow> ident" where
  "RolesSourceResourceIdentifier nodeName = \<lparr>ident_ID = nodeName, ident_Type = ''database.roles_source''\<rparr>"

section \<open>Resources\<close>

record Script =
  sc_DatabaseID :: string
  sc_NodeName :: string
  sc_Name :: string
  sc_Statements :: "string list"
  sc_Succeeded :: bool
  sc_NeedsToRun :: bool

record 'i InstanceResource =
  ir_InstanceID :: string
  ir_DatabaseID :: string
  ir_HostID :: string
  ir_DatabaseName :: string
  ir_NodeName :: string
  ir_OrchestratorDependencies :: "ident list"
  ir_Other :: 'i

record NodeResource =
  nd_Name :: string
  nd_InstanceIDs :: "string list"
  nd_PrimaryInstanceID :: string

record PostgresDatabaseResource =
  pd_DatabaseID :: string
  pd_NodeName :: string
  pd_DatabaseName :: string
  pd_Owner :: string
  pd_RenameFrom :: string
  pd_HasRestoreConfig :: bool
  pd_ExtraDependencies :: "ident list"
  pd_PostDatabaseCreate :: "Script option"

record InstanceMonitorResource =
  im_DatabaseID :: string
  im_InstanceID :: string
  im_DatabaseName :: string
  im_HostID :: string

record ServiceInstanceMonitorResource =
  sm_DatabaseID :: string
  sm_ServiceInstanceID :: string
  sm_HostID :: string

record ReplicationSlotResource =
  rs_DatabaseName :: string
  rs_ProviderNode :: string
  rs_SubscriberNode :: string

record SubscriptionResource =
  sb_DatabaseName :: string
  sb_SubscriberNode :: string
  sb_ProviderNode :: string
  sb_Disabled :: bool
  sb_SyncStructure :: bool
  sb_SyncData :: bool
  sb_ExtraDependencies :: "ident list"
  sb_NeedsUpdate :: bool

record ReplicationSlotCreateResource =
  rc_DatabaseName :: string
  rc_ProviderNode :: string
  rc_SubscriberNode :: string

record SyncEventResource =
  sy_DatabaseName :: string
  sy_ProviderNode :: string
  sy_SubscriberNode :: string
  sy_SyncEventLsn :: string
  sy_ExtraDependencies :: "ident list"

record WaitForSyncEventResource =
  ws_DatabaseName :: string
  ws_SubscriberNode :: string
  ws_ProviderNode :: string

record PeerCatchupResource =
  pc_DatabaseName :: string
  pc_SourceNode :: string
  pc_PeerNode :: string

record LagTrackerCommitTimestampResource =
  lt_OriginNode :: string
  lt_ReceiverNode :: string
  lt_DatabaseName :: string
  lt_ExtraDependencies :: "ident list"
  lt_CommitTimestamp :: "int option"

record ReplicationSlotAdvanceFromCTSResource =
  ra_DatabaseName :: string
  ra_ProviderNode :: string
  ra_SubscriberNode :: string
  ra_AdvancedToLSN :: string

record ReplicationOriginAdvanceResource =
  ro_DatabaseName :: string
  ro_ProviderNode :: string
  ro_SubscriberNode :: string

record DumpRolesResource =
  dr_NodeName :: string
  dr_Roles :: "string list"
  dr_Statements :: "string list"

record RolesSourceResource =
  rl_NodeName :: string
  rl_SourceNodeName :: string

datatype 'i db_resource =
    Instance "'i InstanceResource"
  | Node NodeResource
  | PostgresDatabase PostgresDatabaseResource
  | InstanceMonitor InstanceMonitorResource
  | ServiceInstanceMonitor ServiceInstanceMonitorResource
  | ReplicationSlot ReplicationSlotResource
  | Subscription SubscriptionResource
  | ReplicationSlotCreate ReplicationSlotCreateResource
  | SyncEvent SyncEventResource
  | WaitForSyncEvent WaitForSyncEventResource
  | PeerCatchup PeerCatchupResource
  | LagTrackerCommitTimestamp LagTrackerCommitTimestampResource
  | ReplicationSlotAdvanceFromCTS ReplicationSlotAdvanceFromCTSResource
  | ReplicationOriginAdvance ReplicationOriginAdvanceResource
  | DumpRoles DumpRolesResource
  | RolesSource RolesSourceResource

section \<open>Methods\<close>

text \<open>What the methods \<^verbatim>\<open>Executor\<close>, \<^verbatim>\<open>Identifier\<close>, \<^verbatim>\<open>Dependencies\<close>, \<^verbatim>\<open>TypeDependencies\<close>, \<^verbatim>\<open>DiffIgnore\<close> and \<^verbatim>\<open>ResourceVersion\<close> return.\<close>

record res_methods =
  rm_Executor :: executor
  rm_Identifier :: ident
  rm_Dependencies :: "ident list"
  rm_TypeDependencies :: "resource_type list"
  rm_DiffIgnore :: "string list"
  rm_ResourceVersion :: string

definition InstanceResource_methods :: "'i InstanceResource \<Rightarrow> res_methods" where
  "InstanceResource_methods r =
     \<lparr>rm_Executor = HostExecutor (ir_HostID r), rm_Identifier = InstanceResourceIdentifier (ir_InstanceID r),
      rm_Dependencies = ir_OrchestratorDependencies r,
      rm_TypeDependencies = [], rm_DiffIgnore = [''/primary_instance_id'', ''/primary_instance_id_updated_at'', ''/connection_info''], rm_ResourceVersion = ''1''\<rparr>"

definition NodeResource_methods :: "NodeResource \<Rightarrow> res_methods" where
  "NodeResource_methods n =
     \<lparr>rm_Executor = AnyExecutor, rm_Identifier = NodeResourceIdentifier (nd_Name n),
      rm_Dependencies = map InstanceResourceIdentifier (nd_InstanceIDs n),
      rm_TypeDependencies = [], rm_DiffIgnore = [''/primary_instance_id''], rm_ResourceVersion = ''1''\<rparr>"

definition PostgresDatabaseResource_methods :: "PostgresDatabaseResource \<Rightarrow> res_methods" where
  "PostgresDatabaseResource_methods p =
     \<lparr>rm_Executor = PrimaryExecutor (pd_NodeName p), rm_Identifier = PostgresDatabaseResourceIdentifier (pd_NodeName p) (pd_DatabaseName p),
      rm_Dependencies = [NodeResourceIdentifier (pd_NodeName p)] @ pd_ExtraDependencies p,
      rm_TypeDependencies = [], rm_DiffIgnore = [], rm_ResourceVersion = ''1''\<rparr>"

definition InstanceMonitorResource_methods :: "InstanceMonitorResource \<Rightarrow> res_methods" where
  "InstanceMonitorResource_methods m =
     \<lparr>rm_Executor = HostExecutor (im_HostID m), rm_Identifier = InstanceMonitorResourceIdentifier (im_InstanceID m),
      rm_Dependencies = [InstanceResourceIdentifier (im_InstanceID m)],
      rm_TypeDependencies = [], rm_DiffIgnore = [], rm_ResourceVersion = ''1''\<rparr>"

definition ServiceInstanceMonitorResource_methods :: "ServiceInstanceMonitorResource \<Rightarrow> res_methods" where
  "ServiceInstanceMonitorResource_methods m =
     \<lparr>rm_Executor = HostExecutor (sm_HostID m), rm_Identifier = ServiceInstanceMonitorResourceIdentifier (sm_ServiceInstanceID m),
      rm_Dependencies = [\<lparr>ident_ID = sm_ServiceInstanceID m, ident_Type = ''swarm.service_instance''\<rparr>],
      rm_TypeDependencies = [], rm_DiffIgnore = [], rm_ResourceVersion = ''1''\<rparr>"

definition ReplicationSlotResource_methods :: "ReplicationSlotResource \<Rightarrow> res_methods" where
  "ReplicationSlotResource_methods r =
     \<lparr>rm_Executor = PrimaryExecutor (rs_ProviderNode r), rm_Identifier = ReplicationSlotResourceIdentifier (rs_ProviderNode r) (rs_SubscriberNode r) (rs_DatabaseName r),
      rm_Dependencies = [PostgresDatabaseResourceIdentifier (rs_ProviderNode r) (rs_DatabaseName r)],
      rm_TypeDependencies = [], rm_DiffIgnore = [], rm_ResourceVersion = ''1''\<rparr>"

definition SubscriptionResource_methods :: "SubscriptionResource \<Rightarrow> res_methods" where
  "SubscriptionResource_methods r =
     \<lparr>rm_Executor = PrimaryExecutor (sb_SubscriberNode r), rm_Identifier = SubscriptionResourceIdentifier (sb_ProviderNode r) (sb_SubscriberNode r) (sb_DatabaseName r),
      rm_Dependencies = [PostgresDatabaseResourceIdentifier (sb_SubscriberNode r) (sb_DatabaseName r),
        PostgresDatabaseResourceIdentifier (sb_ProviderNode r) (sb_DatabaseName r),
        ReplicationSlotResourceIdentifier (sb_ProviderNode r) (sb_SubscriberNode r) (sb_DatabaseName r)] @ sb_ExtraDependencies r,
      rm_TypeDependencies = [], rm_DiffIgnore = [], rm_ResourceVersion = ''1''\<rparr>"

definition ReplicationSlotCreateResource_methods :: "ReplicationSlotCreateResource \<Rightarrow> res_methods" where
  "ReplicationSlotCreateResource_methods r =
     \<lparr>rm_Executor = PrimaryExecutor (rc_ProviderNode r), rm_Identifier = ReplicationSlotCreateResourceIdentifier (rc_DatabaseName r) (rc_ProviderNode r) (rc_SubscriberNode r),
      rm_Dependencies = [PostgresDatabaseResourceIdentifier (rc_ProviderNode r) (rc_DatabaseName r)],
      rm_TypeDependencies = [], rm_DiffIgnore = [], rm_ResourceVersion = ''1''\<rparr>"

definition SyncEventResource_methods :: "SyncEventResource \<Rightarrow> res_methods" where
  "SyncEventResource_methods r =
     \<lparr>rm_Executor = PrimaryExecutor (sy_ProviderNode r), rm_Identifier = SyncEventResourceIdentifier (sy_ProviderNode r) (sy_SubscriberNode r) (sy_DatabaseName r),
      rm_Dependencies = [SubscriptionResourceIdentifier (sy_ProviderNode r) (sy_SubscriberNode r) (sy_DatabaseName r)] @ sy_ExtraDependencies r,
      rm_TypeDependencies = [], rm_DiffIgnore = [], rm_ResourceVersion = ''1''\<rparr>"

definition WaitForSyncEventResource_methods :: "WaitForSyncEventResource \<Rightarrow> res_methods" where
  "WaitForSyncEventResource_methods r =
     \<lparr>rm_Executor = PrimaryExecutor (ws_SubscriberNode r), rm_Identifier = WaitForSyncEventResourceIdentifier (ws_ProviderNode r) (ws_SubscriberNode r) (ws_DatabaseName r),
      rm_Dependencies = [SyncEventResourceIdentifier (ws_ProviderNode r) (ws_SubscriberNode r) (ws_DatabaseName r)],
      rm_TypeDependencies = [], rm_DiffIgnore = [], rm_ResourceVersion = ''1''\<rparr>"

definition PeerCatchupResource_methods :: "PeerCatchupResource \<Rightarrow> res_methods" where
  "PeerCatchupResource_methods r =
     \<lparr>rm_Executor = PrimaryExecutor (pc_SourceNode r), rm_Identifier = PeerCatchupResourceIdentifier (pc_SourceNode r) (pc_PeerNode r) (pc_DatabaseName r),
      rm_Dependencies = [SyncEventResourceIdentifier (pc_PeerNode r) (pc_SourceNode r) (pc_DatabaseName r)],
      rm_TypeDependencies = [], rm_DiffIgnore = [], rm_ResourceVersion = ''1''\<rparr>"

definition LagTrackerCommitTimestampResource_methods :: "LagTrackerCommitTimestampResource \<Rightarrow> res_methods" where
  "LagTrackerCommitTimestampResource_methods r =
     \<lparr>rm_Executor = PrimaryExecutor (lt_ReceiverNode r), rm_Identifier = LagTrackerCommitTSIdentifier (lt_OriginNode r) (lt_ReceiverNode r) (lt_DatabaseName r),
      rm_Dependencies = [PostgresDatabaseResourceIdentifier (lt_ReceiverNode r) (lt_DatabaseName r),
        PostgresDatabaseResourceIdentifier (lt_OriginNode r) (lt_DatabaseName r)] @ lt_ExtraDependencies r,
      rm_TypeDependencies = [], rm_DiffIgnore = [''commit_timestamp''], rm_ResourceVersion = ''1''\<rparr>"

definition ReplicationSlotAdvanceFromCTSResource_methods :: "ReplicationSlotAdvanceFromCTSResource \<Rightarrow> res_methods" where
  "ReplicationSlotAdvanceFromCTSResource_methods r =
     \<lparr>rm_Executor = PrimaryExecutor (ra_ProviderNode r), rm_Identifier = ReplicationSlotAdvanceFromCTSResourceIdentifier (ra_ProviderNode r) (ra_SubscriberNode r) (ra_DatabaseName r),
      rm_Dependencies = [PostgresDatabaseResourceIdentifier (ra_ProviderNode r) (ra_DatabaseName r),
        PostgresDatabaseResourceIdentifier (ra_SubscriberNode r) (ra_DatabaseName r),
        LagTrackerCommitTSIdentifier (ra_ProviderNode r) (ra_SubscriberNode r) (ra_DatabaseName r)],
      rm_TypeDependencies = [], rm_DiffIgnore = [''advanced_to_lsn''], rm_ResourceVersion = ''1''\<rparr>"

definition ReplicationOriginAdvanceResource_methods :: "ReplicationOriginAdvanceResource \<Rightarrow> res_methods" where
  "ReplicationOriginAdvanceResource_methods r =
     \<lparr>rm_Executor = PrimaryExecutor (ro_SubscriberNode r), rm_Identifier = ReplicationOriginAdvanceResourceIdentifier (ro_ProviderNode r) (ro_SubscriberNode r) (ro_DatabaseName r),
      rm_Dependencies = [ReplicationSlotAdvanceFromCTSResourceIdentifier (ro_ProviderNode r) (ro_SubscriberNode r) (ro_DatabaseName r)],
      rm_TypeDependencies = [], rm_DiffIgnore = [], rm_ResourceVersion = ''1''\<rparr>"

definition DumpRolesResource_methods :: "DumpRolesResource \<Rightarrow> res_methods" where
  "DumpRolesResource_methods r =
     \<lparr>rm_Executor = PrimaryExecutor (dr_NodeName r), rm_Identifier = DumpRolesResourceIdentifier (dr_NodeName r),
      rm_Dependencies = [NodeResourceIdentifier (dr_NodeName r)],
      rm_TypeDependencies = [], rm_DiffIgnore = [], rm_ResourceVersion = ''1''\<rparr>"

definition RolesSourceResource_methods :: "RolesSourceResource \<Rightarrow> res_methods" where
  "RolesSourceResource_methods r =
     \<lparr>rm_Executor = AnyExecutor, rm_Identifier = RolesSourceResourceIdentifier (rl_NodeName r),
      rm_Dependencies = [DumpRolesResourceIdentifier (rl_SourceNodeName r)],
      rm_TypeDependencies = [], rm_DiffIgnore = [], rm_ResourceVersion = ''1''\<rparr>"

fun db_methods :: "'i db_resource \<Rightarrow> res_methods" where
  "db_methods (Instance r) = InstanceResource_methods r"
| "db_methods (Node r) = NodeResource_methods r"
| "db_methods (PostgresDatabase r) = PostgresDatabaseResource_methods r"
| "db_methods (InstanceMonitor r) = InstanceMonitorResource_methods r"
| "db_methods (ServiceInstanceMonitor r) = ServiceInstanceMonitorResource_methods r"
| "db_methods (ReplicationSlot r) = ReplicationSlotResource_methods r"
| "db_methods (Subscription r) = SubscriptionResource_methods r"
| "db_methods (ReplicationSlotCreate r) = ReplicationSlotCreateResource_methods r"
| "db_methods (SyncEvent r) = SyncEventResource_methods r"
| "db_methods (WaitForSyncEvent r) = WaitForSyncEventResource_methods r"
| "db_methods (PeerCatchup r) = PeerCatchupResource_methods r"
| "db_methods (LagTrackerCommitTimestamp r) = LagTrackerCommitTimestampResource_methods r"
| "db_methods (ReplicationSlotAdvanceFromCTS r) = ReplicationSlotAdvanceFromCTSResource_methods r"
| "db_methods (ReplicationOriginAdvance r) = ReplicationOriginAdvanceResource_methods r"
| "db_methods (DumpRoles r) = DumpRolesResource_methods r"
| "db_methods (RolesSource r) = RolesSourceResource_methods r"

definition db_iface :: "('i db_resource, 'w) resource_iface \<Rightarrow> ('i db_resource, 'w) resource_iface" where
  "db_iface R = R\<lparr>if_Executor := rm_Executor \<circ> db_methods, if_Identifier := rm_Identifier \<circ> db_methods,
     if_Dependencies := rm_Dependencies \<circ> db_methods, if_TypeDependencies := rm_TypeDependencies \<circ> db_methods,
     if_DiffIgnore := rm_DiffIgnore \<circ> db_methods, if_ResourceVersion := rm_ResourceVersion \<circ> db_methods\<rparr>"

end
