(* ===== verification/Operations.thy ===== *)
theory Operations
  imports Db_Resource Plan_Correct
begin

text \<open>
  Operations on databases (\<^verbatim>\<open>server/internal/database/operations\<close>): the sequences of desired states, and the
  plans between them, that update a database or restore its nodes. The states that the code merges into and
  returns are fresh, so that they are values here; a node that the code changes in place is returned changed.
  The order in which the role dumps are added is that of the insertions; it can only change which of two
  conversion errors is reported.
\<close>

section \<open>Nodes and instances\<close>

record 'i InstanceResources =
  in_Instance :: "'i InstanceResource"
  in_InstanceDependencies :: "resource_data list"
  in_DatabaseDependencies :: "resource_data list"
  in_NodeDependents :: "resource_data list"

record RestoreConfig =
  cf_SourceDatabaseID :: string
  cf_SourceNodeName :: string
  cf_SourceDatabaseName :: string

record 'i NodeResources =
  nr_DatabaseID :: string
  nr_DatabaseOwner :: string
  nr_DatabaseName :: string
  nr_NodeName :: string
  nr_SourceNode :: string
  nr_PrimaryInstanceID :: string
  nr_InstanceResources :: "'i InstanceResources list"
  nr_RestoreConfig :: "RestoreConfig option"
  nr_Scripts :: "(string, Script option) gomap"

record 'i ServiceResources =
  sv_ServiceInstanceID :: string
  sv_Resources :: "resource_data list"
  sv_MonitorResource :: "'i db_resource option"

datatype ops_error =
    ErrConvert event_error
  | ErrNoInstances string
  | ErrPrimaryNotCreated string string
  | ErrNoPrimary string
  | ErrUpdateStrategy string
  | ErrNewSourceNodes "string list"
  | ErrRestoreWithSource
  | ErrCheckNode string event_error
  | ErrPlans plan_error

definition add_resources :: "('i db_resource, 'w) resource_iface \<Rightarrow> 'i db_resource list \<Rightarrow> state \<Rightarrow> (ops_error, state) res" where
  "add_resources R rs s = map_sum ErrConvert id (AddResource (db_iface R) rs s)"

definition InstanceState :: "('i db_resource, 'w) resource_iface \<Rightarrow> 'i InstanceResources \<Rightarrow> (ops_error, state) res" where
  "InstanceState R r = add_resources R [Instance (in_Instance r)] (State_Add NewState (in_InstanceDependencies r))"

definition instance_ID :: "'i InstanceResources \<Rightarrow> string" where
  "instance_ID r = ir_InstanceID (in_Instance r)"

definition nodeResourceState :: "('i db_resource, 'w) resource_iface \<Rightarrow> 'i NodeResources \<Rightarrow> (ops_error, state) res" where
  "nodeResourceState R n =
     (let instanceIDs = map instance_ID (nr_InstanceResources n);
          state = foldl (\<lambda>s i. State_Add s (in_NodeDependents i)) NewState (nr_InstanceResources n)
      in add_resources R [Node \<lparr>nd_Name = nr_NodeName n, nd_InstanceIDs = instanceIDs, nd_PrimaryInstanceID = []\<rparr>] state)"

definition ScriptNamePostDatabaseCreate :: string where
  "ScriptNamePostDatabaseCreate = ''post_database_create''"

text \<open>One turn of the loop over the instances: the monitor, and the dependencies of the database.\<close>

definition add_monitor :: "('i db_resource, 'w) resource_iface \<Rightarrow> 'i InstanceResources \<Rightarrow>
    ident list \<times> state \<Rightarrow> (ops_error, ident list \<times> state) res" where
  "add_monitor R i acc =
     (case acc of (extra, s) \<Rightarrow>
        rbind (add_resources R [InstanceMonitor
            \<lparr>im_DatabaseID = ir_DatabaseID (in_Instance i), im_InstanceID = instance_ID i,
             im_DatabaseName = ir_DatabaseName (in_Instance i), im_HostID = ir_HostID (in_Instance i)\<rparr>] s)
          (\<lambda>s1. Inr (extra @ map Identifier (in_DatabaseDependencies i), State_Add s1 (in_DatabaseDependencies i))))"

definition databaseResourceState :: "('i db_resource, 'w) resource_iface \<Rightarrow> 'i NodeResources \<Rightarrow> (ops_error, state) res" where
  "databaseResourceState R n =
     rbind (fold_res (add_monitor R) (nr_InstanceResources n) ([], NewState))
       (\<lambda>(extra, s). add_resources R [PostgresDatabase
          \<lparr>pd_DatabaseID = nr_DatabaseID n, pd_NodeName = nr_NodeName n, pd_DatabaseName = nr_DatabaseName n,
           pd_Owner = nr_DatabaseOwner n,
           pd_RenameFrom = (case nr_RestoreConfig n of None \<Rightarrow> [] | Some c \<Rightarrow> cf_SourceDatabaseName c),
           pd_HasRestoreConfig = (nr_RestoreConfig n \<noteq> None), pd_ExtraDependencies = extra,
           pd_PostDatabaseCreate = (case gm_get (nr_Scripts n) ScriptNamePostDatabaseCreate of None \<Rightarrow> None | Some sc \<Rightarrow> sc)\<rparr>] s)"

text \<open>The inner loop of \<^verbatim>\<open>mergePartialStates\<close>: states at the positions of \<open>out\<close> are merged, later ones appended.\<close>

fun merge_into :: "state list \<Rightarrow> state list \<Rightarrow> state list" where
  "merge_into out [] = out"
| "merge_into [] (s # states) = s # merge_into [] states"
| "merge_into (t # out) (s # states) = State_Merge t s # merge_into out states"

definition mergePartialStates :: "state list list \<Rightarrow> state list" where
  "mergePartialStates xs = foldl merge_into [] xs"

definition ServiceResources_State :: "('i db_resource, 'w) resource_iface \<Rightarrow> 'i ServiceResources \<Rightarrow> (ops_error, state) res" where
  "ServiceResources_State R s =
     (let state = State_Add NewState (sv_Resources s)
      in case sv_MonitorResource s of None \<Rightarrow> Inr state | Some m \<Rightarrow> add_resources R [m] state)"

section \<open>The end state\<close>

definition peer_resources :: "'i NodeResources \<Rightarrow> 'i NodeResources list \<Rightarrow> 'i db_resource list" where
  "peer_resources node nodes = concat (map (\<lambda>peer.
       if nr_NodeName peer = nr_NodeName node then []
       else [ReplicationSlot \<lparr>rs_DatabaseName = nr_DatabaseName node, rs_ProviderNode = nr_NodeName node,
               rs_SubscriberNode = nr_NodeName peer\<rparr>,
             Subscription \<lparr>sb_DatabaseName = nr_DatabaseName node, sb_SubscriberNode = nr_NodeName peer,
               sb_ProviderNode = nr_NodeName node, sb_Disabled = False, sb_SyncStructure = False, sb_SyncData = False,
               sb_ExtraDependencies = [], sb_NeedsUpdate = False\<rparr>]) nodes)"

definition merge_res :: "(ops_error, state) res \<Rightarrow> state \<Rightarrow> (ops_error, state) res" where
  "merge_res r s = rbind r (\<lambda>other. Inr (State_Merge s other))"

definition end_node :: "('i db_resource, 'w) resource_iface \<Rightarrow> 'i NodeResources list \<Rightarrow> 'i NodeResources \<Rightarrow> state \<Rightarrow> (ops_error, state) res" where
  "end_node R nodes node s =
     rbind (fold_res (\<lambda>i. merge_res (InstanceState R i)) (nr_InstanceResources node) s)
       (\<lambda>s1. rbind (merge_res (nodeResourceState R node) s1)
         (\<lambda>s2. rbind (merge_res (databaseResourceState R node) s2)
           (\<lambda>s3. add_resources R (peer_resources node nodes) s3)))"

definition EndState :: "('i db_resource, 'w) resource_iface \<Rightarrow> 'i NodeResources list \<Rightarrow> 'i ServiceResources list \<Rightarrow> (ops_error, state) res" where
  "EndState R nodes services =
     rbind (fold_res (end_node R nodes) nodes NewState)
       (\<lambda>s. fold_res (\<lambda>svc. merge_res (ServiceResources_State R svc)) services s)"

section \<open>Adding and updating nodes\<close>

text \<open>\<^verbatim>\<open>states[len(states)-1].Merge(nodeState)\<close>.\<close>

definition merge_last :: "state list \<Rightarrow> state \<Rightarrow> state list" where
  "merge_last states s = butlast states @ [State_Merge (last states) s]"

definition AddNode :: "('i db_resource, 'w) resource_iface \<Rightarrow> 'i NodeResources \<Rightarrow> (ops_error, state list) res" where
  "AddNode R node =
     (case nr_InstanceResources node of
        [] \<Rightarrow> Inl (ErrNoInstances (nr_NodeName node))
      | inst # insts \<Rightarrow>
          rbind (InstanceState R inst) (\<lambda>primary.
            rbind (fold_res (\<lambda>i replicas. rbind (InstanceState R i) (\<lambda>replica.
                Inr (Some (case replicas of None \<Rightarrow> replica | Some s \<Rightarrow> State_Merge s replica)))) insts None)
              (\<lambda>replicas. rbind (nodeResourceState R node) (\<lambda>nodeState.
                Inr (merge_last (primary # (case replicas of None \<Rightarrow> [] | Some s \<Rightarrow> [s])) nodeState)))))"

definition AddNodes :: "('i db_resource, 'w) resource_iface \<Rightarrow> 'i NodeResources list \<Rightarrow> (ops_error, state list) res" where
  "AddNodes R new = rbind (map_res (AddNode R) new) (\<lambda>xs. Inr (mergePartialStates xs))"

text \<open>The switch of \<^verbatim>\<open>UpdateNode\<close>: the state of the primary, of existing replicas and of new replicas.\<close>

definition sort_instance :: "('i db_resource, 'w) resource_iface \<Rightarrow> state \<Rightarrow> 'i NodeResources \<Rightarrow> 'i InstanceResources \<Rightarrow>
    state option \<times> state list \<times> state list \<Rightarrow> (ops_error, state option \<times> state list \<times> state list) res" where
  "sort_instance R start node inst acc =
     (case acc of (primary, replicaUpdates, replicaAdds) \<Rightarrow>
        rbind (InstanceState R inst) (\<lambda>s.
          if instance_ID inst = nr_PrimaryInstanceID node then
            (if \<not> HasResources start [InstanceResourceIdentifier (instance_ID inst)]
             then Inl (ErrPrimaryNotCreated (nr_NodeName node) (nr_PrimaryInstanceID node))
             else Inr (Some s, replicaUpdates, replicaAdds))
          else if HasResources start [InstanceResourceIdentifier (instance_ID inst)]
            then Inr (primary, replicaUpdates @ [s], replicaAdds)
          else Inr (primary, replicaUpdates, replicaAdds @ [s])))"

definition UpdateNode :: "('i db_resource, 'w) resource_iface \<Rightarrow> state \<Rightarrow> 'i NodeResources \<Rightarrow> (ops_error, state list) res" where
  "UpdateNode R start node =
     rbind (fold_res (sort_instance R start node) (nr_InstanceResources node) (None, [], []))
       (\<lambda>(primary, replicaUpdates, replicaAdds). case primary of
          None \<Rightarrow> Inl (ErrNoPrimary (nr_NodeName node))
        | Some p \<Rightarrow> rbind (nodeResourceState R node) (\<lambda>nodeState.
            Inr (merge_last (replicaUpdates @ [p] @ replicaAdds) nodeState)))"

definition RollingUpdateNodes :: "('i db_resource, 'w) resource_iface \<Rightarrow> state \<Rightarrow> 'i NodeResources list \<Rightarrow> (ops_error, state list) res" where
  "RollingUpdateNodes R start nodes =
     fold_res (\<lambda>node states. rbind (UpdateNode R start node) (\<lambda>update. Inr (states @ update))) nodes []"

definition ConcurrentUpdateNodes :: "('i db_resource, 'w) resource_iface \<Rightarrow> state \<Rightarrow> 'i NodeResources list \<Rightarrow> (ops_error, state list) res" where
  "ConcurrentUpdateNodes R start nodes = rbind (map_res (UpdateNode R start) nodes) (\<lambda>xs. Inr (mergePartialStates xs))"

section \<open>Populating new nodes\<close>

definition peer_sync_resources :: "string \<Rightarrow> string \<Rightarrow> string \<Rightarrow> string \<Rightarrow> 'i db_resource list" where
  "peer_sync_resources dbName peerNode sourceNode newNode =
     [ReplicationSlot \<lparr>rs_DatabaseName = dbName, rs_ProviderNode = peerNode, rs_SubscriberNode = newNode\<rparr>,
      Subscription \<lparr>sb_DatabaseName = dbName, sb_SubscriberNode = newNode, sb_ProviderNode = peerNode, sb_Disabled = True,
        sb_SyncStructure = False, sb_SyncData = False, sb_ExtraDependencies = [], sb_NeedsUpdate = False\<rparr>,
      ReplicationSlotCreate \<lparr>rc_DatabaseName = dbName, rc_ProviderNode = peerNode, rc_SubscriberNode = newNode\<rparr>,
      SyncEvent \<lparr>sy_DatabaseName = dbName, sy_ProviderNode = peerNode, sy_SubscriberNode = sourceNode, sy_SyncEventLsn = [],
        sy_ExtraDependencies = [ReplicationSlotCreateResourceIdentifier dbName peerNode newNode]\<rparr>,
      WaitForSyncEvent \<lparr>ws_DatabaseName = dbName, ws_SubscriberNode = sourceNode, ws_ProviderNode = peerNode\<rparr>,
      PeerCatchup \<lparr>pc_DatabaseName = dbName, pc_SourceNode = sourceNode, pc_PeerNode = peerNode\<rparr>,
      LagTrackerCommitTimestamp \<lparr>lt_OriginNode = peerNode, lt_ReceiverNode = newNode, lt_DatabaseName = dbName,
        lt_ExtraDependencies = [WaitForSyncEventResourceIdentifier sourceNode newNode dbName], lt_CommitTimestamp = None\<rparr>,
      ReplicationSlotAdvanceFromCTS \<lparr>ra_DatabaseName = dbName, ra_ProviderNode = peerNode, ra_SubscriberNode = newNode, ra_AdvancedToLSN = []\<rparr>,
      ReplicationOriginAdvance \<lparr>ro_DatabaseName = dbName, ro_ProviderNode = peerNode, ro_SubscriberNode = newNode\<rparr>]"

definition addPeerResources :: "('i db_resource, 'w) resource_iface \<Rightarrow> string \<Rightarrow> string \<Rightarrow> string \<Rightarrow> string \<Rightarrow> state \<Rightarrow> (ops_error, state) res" where
  "addPeerResources R dbName peerNode sourceNode newNode s = add_resources R (peer_sync_resources dbName peerNode sourceNode newNode) s"

definition sync_resources :: "string \<Rightarrow> ident list \<Rightarrow> string \<Rightarrow> string \<Rightarrow> 'i db_resource list" where
  "sync_resources dbName peerWaitForSync sourceNode newNode =
     [ReplicationSlot \<lparr>rs_DatabaseName = dbName, rs_ProviderNode = sourceNode, rs_SubscriberNode = newNode\<rparr>,
      Subscription \<lparr>sb_DatabaseName = dbName, sb_SubscriberNode = newNode, sb_ProviderNode = sourceNode, sb_Disabled = False,
        sb_SyncStructure = True, sb_SyncData = True, sb_ExtraDependencies = peerWaitForSync, sb_NeedsUpdate = False\<rparr>,
      SyncEvent \<lparr>sy_DatabaseName = dbName, sy_ProviderNode = sourceNode, sy_SubscriberNode = newNode, sy_SyncEventLsn = [],
        sy_ExtraDependencies = []\<rparr>,
      WaitForSyncEvent \<lparr>ws_DatabaseName = dbName, ws_SubscriberNode = newNode, ws_ProviderNode = sourceNode\<rparr>]"

definition addSyncResources :: "('i db_resource, 'w) resource_iface \<Rightarrow> string \<Rightarrow> ident list \<Rightarrow> string \<Rightarrow> string \<Rightarrow> state \<Rightarrow> (ops_error, state) res" where
  "addSyncResources R dbName peerWaitForSync sourceNode newNode s = add_resources R (sync_resources dbName peerWaitForSync sourceNode newNode) s"

text \<open>The peers that the loop of \<^verbatim>\<open>PopulateNode\<close> does not skip.\<close>

definition sync_peers :: "'i NodeResources \<Rightarrow> string list \<Rightarrow> string list" where
  "sync_peers node existingNodeNames = filter (\<lambda>peer. \<not> (peer = nr_NodeName node \<or> peer = nr_SourceNode node)) existingNodeNames"

definition PopulateNode :: "('i db_resource, 'w) resource_iface \<Rightarrow> 'i NodeResources \<Rightarrow> string list \<Rightarrow> (ops_error, state) res" where
  "PopulateNode R node existingNodeNames =
     (let dbName = nr_DatabaseName node; peers = sync_peers node existingNodeNames
      in rbind (merge_res (databaseResourceState R node) NewState) (\<lambda>populate.
        rbind (fold_res (\<lambda>peer. addPeerResources R dbName peer (nr_SourceNode node) (nr_NodeName node)) peers populate)
          (addSyncResources R dbName
            (concat (map (\<lambda>peer. [WaitForSyncEventResourceIdentifier peer (nr_SourceNode node) dbName,
               PeerCatchupResourceIdentifier (nr_SourceNode node) peer dbName]) peers))
            (nr_SourceNode node) (nr_NodeName node))))"

definition PopulateNodes :: "('i db_resource, 'w) resource_iface \<Rightarrow> 'i NodeResources list \<Rightarrow> 'i NodeResources list \<Rightarrow> (ops_error, state option) res" where
  "PopulateNodes R existing new =
     fold_res (\<lambda>node merged.
         if nr_SourceNode node = [] then Inr merged
         else rbind (PopulateNode R node (map nr_NodeName existing)) (\<lambda>populate.
           Inr (Some (case merged of None \<Rightarrow> populate | Some s \<Rightarrow> State_Merge s populate)))) new None"

section \<open>Updating a database\<close>

record UpdateDatabaseOptions =
  uo_NodeUpdateStrategy :: string
  uo_PlanOptions :: PlanOptions

text \<open>\<^verbatim>\<open>FromState\<close> wraps \<^verbatim>\<open>ErrNotFound\<close> for a missing resource and for one that needs to be recreated.\<close>

fun is_ErrNotFound :: "event_error \<Rightarrow> bool" where
  "is_ErrNotFound (ErrStateNotFound i) = True"
| "is_ErrNotFound (ErrResourceNeedsRecreate i) = True"
| "is_ErrNotFound e = False"

fun partitionNodes :: "(string \<Rightarrow> (string, NodeResource) res) \<Rightarrow> state \<Rightarrow> 'i NodeResources list \<Rightarrow>
    (ops_error, 'i NodeResources list \<times> 'i NodeResources list) res" where
  "partitionNodes unmarshal start [] = Inr ([], [])"
| "partitionNodes unmarshal start (node # nodes) =
     (case FromState unmarshal start (NodeResourceIdentifier (nr_NodeName node)) of
        Inl e \<Rightarrow> if is_ErrNotFound e
          then rbind (partitionNodes unmarshal start nodes) (\<lambda>(updates, adds). Inr (updates, node # adds))
          else Inl (ErrCheckNode (nr_NodeName node) e)
      | Inr existing \<Rightarrow> rbind (partitionNodes unmarshal start nodes) (\<lambda>(updates, adds).
          Inr (node\<lparr>nr_PrimaryInstanceID := nd_PrimaryInstanceID existing\<rparr> # updates, adds)))"

definition updateFunc :: "('i db_resource, 'w) resource_iface \<Rightarrow> UpdateDatabaseOptions \<Rightarrow>
    (ops_error, state \<Rightarrow> 'i NodeResources list \<Rightarrow> (ops_error, state list) res) res" where
  "updateFunc R options =
     (if uo_NodeUpdateStrategy options = [] \<or> uo_NodeUpdateStrategy options = ''rolling'' then Inr (RollingUpdateNodes R)
      else if uo_NodeUpdateStrategy options = ''concurrent'' then Inr (ConcurrentUpdateNodes R)
      else Inl (ErrUpdateStrategy (uo_NodeUpdateStrategy options)))"

definition validateSourceNodes :: "string dset \<Rightarrow> string dset \<Rightarrow> ops_error option" where
  "validateSourceNodes newNodes sourceNodes =
     (let invalid = Set_Intersection newNodes sourceNodes
      in if Set_Size invalid > 0 then Some (ErrNewSourceNodes (Set_ToSortedSlice invalid go_compare)) else None)"

definition sourceNodeRoleDumps :: "('i db_resource, 'w) resource_iface \<Rightarrow> string dset \<Rightarrow> (string, string) gomap \<Rightarrow> (ops_error, state) res" where
  "sourceNodeRoleDumps R sourceNodes sourceNodeMap =
     rbind (fold_res (\<lambda>name. add_resources R [DumpRoles \<lparr>dr_NodeName = name, dr_Roles = [], dr_Statements = []\<rparr>])
         (gm_keys sourceNodes) NewState)
       (fold_res (\<lambda>(node, source). add_resources R [RolesSource \<lparr>rl_NodeName = node, rl_SourceNodeName = source\<rparr>]) sourceNodeMap)"

text \<open>The loop of \<^verbatim>\<open>addNodesStates\<close>: a node without a source gets the default one, unless it is restored.\<close>

definition with_source :: "string \<Rightarrow> 'i NodeResources \<Rightarrow> 'i NodeResources" where
  "with_source defaultSource n =
     (if nr_RestoreConfig n = None \<and> nr_SourceNode n = [] \<and> defaultSource \<noteq> [] then n\<lparr>nr_SourceNode := defaultSource\<rparr> else n)"

definition has_source :: "'i NodeResources \<Rightarrow> bool" where
  "has_source n \<longleftrightarrow> nr_RestoreConfig n = None \<and> nr_SourceNode n \<noteq> []"

definition addNodesStates :: "('i db_resource, 'w) resource_iface \<Rightarrow> 'i NodeResources list \<Rightarrow> 'i NodeResources list \<Rightarrow> (ops_error, state list) res" where
  "addNodesStates R updates adds =
     (let defaultSource = (case updates of [] \<Rightarrow> [] | u # us \<Rightarrow> nr_NodeName u);
          adds1 = map (with_source defaultSource) adds;
          sourced = filter has_source adds1;
          newNames = NewSet (map nr_NodeName adds1);
          sourceNames = NewSet (map nr_SourceNode sourced);
          sourceNodeMap = fold (\<lambda>n m. gm_put m (nr_NodeName n) (nr_SourceNode n)) sourced []
      in case validateSourceNodes newNames sourceNames of
           Some e \<Rightarrow> Inl e
         | None \<Rightarrow>
             rbind (if length sourceNodeMap > 0 then map_sum id (\<lambda>d. [d]) (sourceNodeRoleDumps R sourceNames sourceNodeMap) else Inr [])
               (\<lambda>dumps. rbind (AddNodes R adds1) (\<lambda>a. rbind (PopulateNodes R updates adds1) (\<lambda>populate.
                  Inr (dumps @ a @ (case populate of None \<Rightarrow> [] | Some p \<Rightarrow> [p]))))))"

text \<open>The incremental states: every diff merged onto the state before it.\<close>

fun accumulate :: "state \<Rightarrow> state list \<Rightarrow> state list" where
  "accumulate prev [] = []"
| "accumulate prev (d # ds) = (let cur = State_Merge prev d in cur # accumulate cur ds)"

definition update_states :: "('i db_resource, 'w) resource_iface \<Rightarrow> (string \<Rightarrow> (string, NodeResource) res) \<Rightarrow> UpdateDatabaseOptions \<Rightarrow> state \<Rightarrow>
    'i NodeResources list \<Rightarrow> 'i ServiceResources list \<Rightarrow> (ops_error, state list \<times> state) res" where
  "update_states R unmarshal options start nodes services =
     rbind (updateFunc R options) (\<lambda>update.
       rbind (partitionNodes unmarshal start nodes) (\<lambda>(updates, adds).
         if list_ex (\<lambda>n. nr_RestoreConfig n \<noteq> None \<and> nr_SourceNode n \<noteq> []) nodes then Inl ErrRestoreWithSource
         else rbind (if length updates > 0 then update start updates else Inr []) (\<lambda>u.
           rbind (if length adds > 0 then addNodesStates R updates adds else Inr []) (\<lambda>a.
             rbind (EndState R nodes services) (\<lambda>end_state. Inr (u @ a, end_state))))))"

definition UpdateDatabase :: "('g, node) digraph \<Rightarrow> iteration_orders \<Rightarrow> 'p compareJSON \<Rightarrow> ('i db_resource, 'w) resource_iface \<Rightarrow>
    (string \<Rightarrow> (string, NodeResource) res) \<Rightarrow> UpdateDatabaseOptions \<Rightarrow> state \<Rightarrow> 'i NodeResources list \<Rightarrow>
    'i ServiceResources list \<Rightarrow> (ops_error, 'p plan list) res option" where
  "UpdateDatabase G I cmp R unmarshal options start nodes services =
     (case update_states R unmarshal options start nodes services of
        Inl e \<Rightarrow> Some (Inl e)
      | Inr (states, end_state) \<Rightarrow>
          (let start1 = PreparePendingDeletesAndRecreates start end_state
           in case PlanAll G I cmp start1 (uo_PlanOptions options) (accumulate start1 states @ [end_state]) of
                None \<Rightarrow> None
              | Some (Inl e) \<Rightarrow> Some (Inl (ErrPlans e))
              | Some (Inr plans) \<Rightarrow> Some (Inr plans)))"

section \<open>Restoring nodes\<close>

record 'i NodeRestoreResources =
  rr_DatabaseID :: string
  rr_DatabaseOwner :: string
  rr_DatabaseName :: string
  rr_NodeName :: string
  rr_PrimaryInstance :: "'i InstanceResources"
  rr_RestoreInstance :: "'i InstanceResources"
  rr_ReplicaInstances :: "'i InstanceResources list"
  rr_RestoreConfig :: "RestoreConfig option"

definition ToNodeResources :: "'i NodeRestoreResources \<Rightarrow> 'i NodeResources" where
  "ToNodeResources n =
     \<lparr>nr_DatabaseID = rr_DatabaseID n, nr_DatabaseOwner = rr_DatabaseOwner n, nr_DatabaseName = rr_DatabaseName n,
      nr_NodeName = rr_NodeName n, nr_SourceNode = [], nr_PrimaryInstanceID = instance_ID (rr_PrimaryInstance n),
      nr_InstanceResources = rr_PrimaryInstance n # rr_ReplicaInstances n, nr_RestoreConfig = rr_RestoreConfig n, nr_Scripts = []\<rparr>"

definition restore_nodeResourceState :: "('i db_resource, 'w) resource_iface \<Rightarrow> 'i NodeRestoreResources \<Rightarrow> (ops_error, state) res" where
  "restore_nodeResourceState R n =
     add_resources R [Node \<lparr>nd_Name = rr_NodeName n,
       nd_InstanceIDs = instance_ID (rr_PrimaryInstance n) # map instance_ID (rr_ReplicaInstances n), nd_PrimaryInstanceID = []\<rparr>] NewState"

definition RestoreNode :: "('i db_resource, 'w) resource_iface \<Rightarrow> 'i NodeRestoreResources \<Rightarrow> (ops_error, state list) res" where
  "RestoreNode R node =
     (let preRestoreState = State_Add NewState (in_InstanceDependencies (rr_PrimaryInstance node))
      in rbind (InstanceState R (rr_RestoreInstance node)) (\<lambda>restoreState.
        rbind (InstanceState R (rr_PrimaryInstance node)) (\<lambda>postRestore.
          rbind (fold_res (\<lambda>i. merge_res (InstanceState R i)) (rr_ReplicaInstances node) postRestore) (\<lambda>postRestore1.
            rbind (restore_nodeResourceState R node) (\<lambda>nodeState.
              Inr (merge_last [preRestoreState, restoreState, postRestore1] nodeState))))))"

definition RestoreDatabase :: "('g, node) digraph \<Rightarrow> iteration_orders \<Rightarrow> 'p compareJSON \<Rightarrow> ('i db_resource, 'w) resource_iface \<Rightarrow>
    state \<Rightarrow> 'i NodeResources list \<Rightarrow> 'i NodeRestoreResources list \<Rightarrow> (ops_error, 'p plan list) res option" where
  "RestoreDatabase G I cmp R start nodes targets =
     (case rbind (EndState R nodes []) (\<lambda>base. rbind (map_res (RestoreNode R) targets) (\<lambda>xs.
          rbind (EndState R (nodes @ map ToNodeResources targets) []) (\<lambda>end_state.
            Inr (map (State_Merge base) (mergePartialStates xs) @ [end_state])))) of
        Inl e \<Rightarrow> Some (Inl e)
      | Inr states \<Rightarrow> (case PlanAll G I cmp start \<lparr>ForceUpdate = False\<rparr> states of
          None \<Rightarrow> None
        | Some (Inl e) \<Rightarrow> Some (Inl (ErrPlans e))
        | Some (Inr plans) \<Rightarrow> Some (Inr plans)))"

end
