(* ===== verification/Operations_Correct.thy ===== *)
theory Operations_Correct
  imports Operations
begin

text \<open>
  The theorems on database operations: the plans of an update lead from the start state to the end state and
  delete nothing before the last plan, the end state connects all nodes, and a new node is populated in an
  order that loses no writes of its peers.
\<close>

section \<open>Sequences of plans\<close>

lemma fold_res_inv:
  assumes "fold_res f xs s = Inr s'" and "P s" and "\<And>x s s'. x \<in> set xs \<Longrightarrow> P s \<Longrightarrow> f x s = Inr s' \<Longrightarrow> P s'"
  shows "P s'"
  using assms
proof (induction xs arbitrary: s)
  case (Cons x xs)
  from Cons.prems(1) obtain s1 where s1: "f x s = Inr s1" "fold_res f xs s1 = Inr s'" by (auto simp: rbind_eq_Inr)
  from Cons.IH [OF s1(2)] Cons.prems(2,3) s1(1) show ?case by auto
qed simp

text \<open>The state \<open>x\<close> has what \<open>a\<close> has, and what it has beyond that is in the end state \<open>e\<close>.\<close>

definition covers :: "state \<Rightarrow> state \<Rightarrow> state \<Rightarrow> bool" where
  "covers x a e \<longleftrightarrow> state_wf x \<and> (\<forall>i. (State_Get a i \<noteq> None \<longrightarrow> State_Get x i \<noteq> None) \<and>
     (State_Get x i \<noteq> None \<and> State_Get a i = None \<longrightarrow> State_Get e i \<noteq> None))"

definition deletes_nothing :: "'p plan \<Rightarrow> bool" where
  "deletes_nothing p \<longleftrightarrow> (\<forall>e \<in> set (concat p). ev_Type e \<noteq> EventTypeDelete)"

lemma plan_step:
  assumes G: "gonum_orders G I" and wf: "state_wf a" "state_wf b" and run: "Plan G I cmp a options b = Some (Inr p)"
    and x: "covers x a e"
  shows "\<exists>x'. apply_plan x p = Inr x' \<and> covers x' b e"
proof -
  from gonum_orders.Plan_content [OF G wf run] obtain ev where ev: "plans_events cmp options a b ev"
    and es: "set (concat p) = {e. \<exists>r \<in> set (all_resources b). ev r = Some e} \<union>
      (\<lambda>r. mk_event EventTypeDelete r NoReason None) ` {r \<in> set (all_resources a). State_Get b (Identifier r) = None}"
    and dist: "distinct (map event_id (concat p))" by blast
  have create: "ev_Resource e = r \<and> ev_Type e \<in> {EventTypeCreate, EventTypeUpdate}"
    if "r \<in> set (all_resources b)" "ev r = Some e" for r e
    using plans_eventsD(1) [OF ev that] .
  have known: "\<forall>e \<in> set (concat p). \<forall>t. ev_Type e \<noteq> UnknownEventType t"
    unfolding es using create by (fastforce simp: mk_event_def)
  have "state_wf x" using x by (simp add: covers_def)
  from apply_events_get [OF this known dist] obtain x' where x': "apply_plan x p = Inr x'" "state_wf x'"
      "\<forall>e \<in> set (concat p). State_Get x' (event_id e) = event_result e"
      "\<forall>i. i \<notin> event_id ` set (concat p) \<longrightarrow> State_Get x' i = State_Get x i"
    unfolding apply_plan_def by blast
  have put: "State_Get x' i \<noteq> None" if b: "State_Get b i = Some r" for i r
  proof (cases "i \<in> event_id ` set (concat p)")
    case True
    then obtain f where f: "f \<in> set (concat p)" "i = event_id f" by blast
    with b have "f \<notin> (\<lambda>r. mk_event EventTypeDelete r NoReason None) ` {r \<in> set (all_resources a). State_Get b (Identifier r) = None}"
      by (auto simp: event_id_def mk_event_def)
    with f es obtain q where "q \<in> set (all_resources b)" "ev q = Some f" by blast
    from create [OF this] have "ev_Type f \<noteq> EventTypeDelete" by auto
    with bspec [OF x'(3) f(1)] f(2) show ?thesis by (simp add: event_result_def)
  next
    case False
    have id: "Identifier r = i" by (rule State_Get_Identifier [OF wf(2) b])
    with b have r: "r \<in> set (all_resources b)" using all_resources_iff [OF wf(2)] by simp
    have "ev r = None"
    proof (rule ccontr)
      assume "ev r \<noteq> None"
      then obtain f where f: "ev r = Some f" by blast
      with r es have "f \<in> set (concat p)" by blast
      moreover have "event_id f = i" using create [OF r f] id by (simp add: event_id_def)
      ultimately show False using False by blast
    qed
    from plans_eventsD(2) [OF ev r this] id have "State_Get a i \<noteq> None" by simp
    with x False x'(4) show ?thesis by (simp add: covers_def)
  qed
  have rest: "State_Get e i \<noteq> None" if got: "State_Get x' i \<noteq> None" and b: "State_Get b i = None" for i
  proof -
    have "i \<notin> event_id ` set (concat p)"
    proof
      assume "i \<in> event_id ` set (concat p)"
      then obtain f where f: "f \<in> set (concat p)" "i = event_id f" by blast
      have "\<not> (\<exists>r \<in> set (all_resources b). ev r = Some f)"
        using create b f(2) all_resources_iff [OF wf(2)] by (fastforce simp: event_id_def)
      with f es have "ev_Type f = EventTypeDelete" by (auto simp: mk_event_def)
      with bspec [OF x'(3) f(1)] f(2) got show False by (simp add: event_result_def)
    qed
    moreover from this have "State_Get a i = None"
    proof (rule contrapos_np)
      assume "State_Get a i \<noteq> None"
      then obtain r where r: "State_Get a i = Some r" by blast
      then have "Identifier r = i" by (rule State_Get_Identifier [OF wf(1)])
      with r b have "mk_event EventTypeDelete r NoReason None \<in> set (concat p)"
        using es all_resources_iff [OF wf(1)] by auto
      with \<open>Identifier r = i\<close> show "i \<in> event_id ` set (concat p)" by (force simp: event_id_def mk_event_def)
    qed
    ultimately show ?thesis using x x'(4) got by (simp add: covers_def)
  qed
  have "covers x' b e" unfolding covers_def using x'(2) put rest by blast
  with x'(1) show ?thesis by blast
qed

lemma plan_deletes_nothing:
  assumes G: "gonum_orders G I" and wf: "state_wf a" "state_wf b" and run: "Plan G I cmp a options b = Some (Inr p)"
    and sub: "\<And>i. State_Get a i \<noteq> None \<Longrightarrow> State_Get b i \<noteq> None"
  shows "deletes_nothing p"
proof -
  from gonum_orders.Plan_content [OF G wf run] obtain ev where ev: "plans_events cmp options a b ev"
    and es: "set (concat p) = {e. \<exists>r \<in> set (all_resources b). ev r = Some e} \<union>
      (\<lambda>r. mk_event EventTypeDelete r NoReason None) ` {r \<in> set (all_resources a). State_Get b (Identifier r) = None}" by blast
  have "{r \<in> set (all_resources a). State_Get b (Identifier r) = None} = {}"
    using sub all_resources_iff [OF wf(1)] by fastforce
  with es plans_eventsD(1) [OF ev] show ?thesis unfolding deletes_nothing_def by fastforce
qed

lemma plan_chain_run:
  assumes G: "gonum_orders G I" and "state_wf a" and "\<forall>t \<in> set ts. state_wf t"
    and "map (\<lambda>(s, opts, t). Plan G I cmp s opts t) (plan_chain options a ts) = map (\<lambda>p. Some (Inr p)) ps" and "covers x a e"
  shows "\<exists>x'. fold_res (\<lambda>p s. apply_plan s p) ps x = Inr x' \<and> covers x' (last (a # ts)) e"
  using assms(2-)
proof (induction ts arbitrary: a x ps)
  case (Cons t ts)
  then obtain p qs where ps: "ps = p # qs" and p: "Plan G I cmp a \<lparr>ForceUpdate = ForceUpdate options \<and> ts = []\<rparr> t = Some (Inr p)"
    and qs: "map (\<lambda>(s, opts, t). Plan G I cmp s opts t) (plan_chain options t ts) = map (\<lambda>p. Some (Inr p)) qs" by auto
  from plan_step [OF G _ _ p] Cons.prems obtain x1 where x1: "apply_plan x p = Inr x1" "covers x1 t e" by fastforce
  from Cons.IH [OF _ _ qs x1(2)] Cons.prems(2) show ?case by (simp add: ps x1(1))
qed simp

lemma apply_empty: "fold_res (\<lambda>p s. apply_plan s p) (filter (\<lambda>p. length p > 0) ps) x = fold_res (\<lambda>p s. apply_plan s p) ps x"
proof (induction ps arbitrary: x)
  case (Cons p ps)
  then show ?case by (cases p) (auto simp: apply_plan_def rbind_def split: sum.splits)
qed simp

section \<open>Well-formed states\<close>

lemma State_Add_append: "State_Add s (xs @ ys) = State_Add (State_Add s xs) ys"
  by (simp add: State_Add_def)

lemma add_resources_Inr:
  "add_resources R rs s = Inr s' \<Longrightarrow> \<exists>ds. map (ToResourceData (db_iface R)) rs = map Inr ds \<and> s' = State_Add s ds"
proof (induction rs arbitrary: s)
  case Nil
  then show ?case by (simp add: add_resources_def AddResource_def)
next
  case (Cons r rs)
  from Cons.prems obtain d where d: "ToResourceData (db_iface R) r = Inr d" and "add_resources R rs (State_Add s [d]) = Inr s'"
    by (cases "ToResourceData (db_iface R) r") (auto simp: add_resources_def AddResource_def)
  from Cons.IH [OF this(2)] obtain ds where "map (ToResourceData (db_iface R)) rs = map Inr ds" "s' = State_Add (State_Add s [d]) ds"
    by blast
  with d show ?case by (intro exI [of _ "d # ds"]) simp
qed

named_theorems ops_wf

lemma add_resources_wf [ops_wf]: "add_resources R rs s = Inr s' \<Longrightarrow> state_wf s \<Longrightarrow> state_wf s'"
  by (auto dest: add_resources_Inr intro: State_Add_wf)

lemma merge_res_wf [ops_wf]: "merge_res r s = Inr s' \<Longrightarrow> state_wf s \<Longrightarrow> (\<And>t. r = Inr t \<Longrightarrow> state_wf t) \<Longrightarrow> state_wf s'"
  by (auto simp: merge_res_def rbind_eq_Inr intro: State_Merge_wf)

lemma InstanceState_wf [ops_wf]: "InstanceState R i = Inr s \<Longrightarrow> state_wf s"
  unfolding InstanceState_def by (erule add_resources_wf) (simp add: State_Add_wf)

lemma foldl_State_Add_wf: "state_wf s \<Longrightarrow> state_wf (foldl (\<lambda>s i. State_Add s (f i)) s is)"
  by (induction "is" arbitrary: s) (simp_all add: State_Add_wf)

lemma nodeResourceState_wf [ops_wf]: "nodeResourceState R n = Inr s \<Longrightarrow> state_wf s"
  unfolding nodeResourceState_def Let_def by (erule add_resources_wf) (simp add: foldl_State_Add_wf)

lemma databaseResourceState_wf [ops_wf]:
  assumes "databaseResourceState R n = Inr s"
  shows "state_wf s"
proof -
  from assms obtain extra t where t: "fold_res (add_monitor R) (nr_InstanceResources n) ([], NewState) = Inr (extra, t)"
    and "\<exists>r. add_resources R [r] t = Inr s" by (auto simp: databaseResourceState_def rbind_eq_Inr)
  moreover have "state_wf (snd (extra, t))"
    by (rule fold_res_inv [OF t, where P = "\<lambda>a. state_wf (snd a)"])
      (auto simp: add_monitor_def rbind_eq_Inr intro!: State_Add_wf elim: add_resources_wf)
  ultimately show ?thesis by (auto elim: add_resources_wf)
qed

lemma ServiceResources_State_wf [ops_wf]: "ServiceResources_State R svc = Inr s \<Longrightarrow> state_wf s"
  by (auto simp: ServiceResources_State_def Let_def State_Add_wf dest: add_resources_wf split: option.splits)

lemma merge_states_wf [ops_wf]:
  assumes "fold_res (\<lambda>x. merge_res (f x)) xs s = Inr s'" and "state_wf s" and "\<And>x t. f x = Inr t \<Longrightarrow> state_wf t"
  shows "state_wf s'"
  by (rule fold_res_inv [where P = state_wf, OF assms(1,2)]) (auto elim: merge_res_wf assms(3))

lemma end_node_wf: "end_node R nodes node s = Inr s' \<Longrightarrow> state_wf s \<Longrightarrow> state_wf s'"
  unfolding end_node_def rbind_eq_Inr
  by (elim exE conjE, erule add_resources_wf, erule merge_res_wf, erule merge_res_wf, erule merge_states_wf) (auto intro: ops_wf)

lemma EndState_wf [ops_wf]:
  assumes "EndState R nodes services = Inr s"
  shows "state_wf s"
proof -
  from assms obtain t where t: "fold_res (end_node R nodes) nodes NewState = Inr t"
    and s: "fold_res (\<lambda>svc. merge_res (ServiceResources_State R svc)) services t = Inr s" by (auto simp: EndState_def rbind_eq_Inr)
  have "state_wf t" by (rule fold_res_inv [where P = state_wf, OF t]) (auto elim: end_node_wf)
  from merge_states_wf [OF s this] ServiceResources_State_wf show ?thesis by blast
qed

lemma merge_last_wf: "\<forall>s \<in> set states. state_wf s \<Longrightarrow> states \<noteq> [] \<Longrightarrow> state_wf t \<Longrightarrow> \<forall>s \<in> set (merge_last states t). state_wf s"
  by (auto simp: merge_last_def intro: State_Merge_wf dest: in_set_butlastD)

lemma merge_into_wf: "\<forall>s \<in> set a. state_wf s \<Longrightarrow> \<forall>s \<in> set b. state_wf s \<Longrightarrow> \<forall>s \<in> set (merge_into a b). state_wf s"
  by (induction a b rule: merge_into.induct) (auto intro: State_Merge_wf)

lemma mergePartialStates_wf:
  assumes "\<forall>xs \<in> set xss. \<forall>s \<in> set xs. state_wf s"
  shows "\<forall>s \<in> set (mergePartialStates xss). state_wf s"
proof -
  have "\<forall>s \<in> set (foldl merge_into out xss). state_wf s" if "\<forall>s \<in> set out. state_wf s" for out
    using that assms
  proof (induction xss arbitrary: out)
    case (Cons xs xss)
    have "\<forall>s \<in> set (merge_into out xs). state_wf s" by (rule merge_into_wf) (use Cons.prems in simp_all)
    then show ?case unfolding foldl_Cons by (rule Cons.IH) (use Cons.prems(2) in simp)
  qed simp
  from this [of "[]"] show ?thesis by (simp add: mergePartialStates_def)
qed

lemma map_res_wf:
  assumes "map_res f xs = Inr yss" and "\<And>x ys. f x = Inr ys \<Longrightarrow> \<forall>s \<in> set ys. state_wf s"
  shows "\<forall>ys \<in> set yss. \<forall>s \<in> set ys. state_wf s"
proof -
  have "map f xs = map Inr yss" using assms(1) by (simp add: map_res_Inr_iff)
  then have eq: "f ` set xs = Inr ` set yss" by (metis image_set)
  have "\<exists>x. f x = Inr ys" if "ys \<in> set yss" for ys
  proof -
    have "Inr ys \<in> f ` set xs" unfolding eq using that by (rule imageI)
    then show ?thesis by auto
  qed
  with assms(2) show ?thesis by blast
qed

lemma AddNode_wf:
  assumes "AddNode R node = Inr states"
  shows "\<forall>s \<in> set states. state_wf s"
proof -
  from assms obtain inst insts p rep ns where p: "InstanceState R inst = Inr p" "nodeResourceState R node = Inr ns"
    and rep: "fold_res (\<lambda>i replicas. rbind (InstanceState R i) (\<lambda>replica.
        Inr (Some (case replicas of None \<Rightarrow> replica | Some s \<Rightarrow> State_Merge s replica)))) insts None = Inr rep"
    and states: "states = merge_last (p # (case rep of None \<Rightarrow> [] | Some s \<Rightarrow> [s])) ns"
    by (auto simp: AddNode_def rbind_eq_Inr split: list.splits)
  have "\<forall>s. rep = Some s \<longrightarrow> state_wf s"
    by (rule fold_res_inv [OF rep, where P = "\<lambda>r. \<forall>s. r = Some s \<longrightarrow> state_wf s"])
      (auto simp: rbind_eq_Inr intro!: State_Merge_wf intro: InstanceState_wf split: option.splits)
  with p show ?thesis unfolding states by (intro merge_last_wf) (auto dest: InstanceState_wf nodeResourceState_wf split: option.splits)
qed

lemma AddNodes_wf: "AddNodes R nodes = Inr states \<Longrightarrow> \<forall>s \<in> set states. state_wf s"
  unfolding AddNodes_def rbind_eq_Inr
  by (elim exE conjE, drule map_res_wf, erule AddNode_wf, drule mergePartialStates_wf) simp

lemma sort_instance_wf:
  assumes "fold_res (sort_instance R start node) insts (None, [], []) = Inr (primary, ups, adds)"
  shows "(\<forall>s. primary = Some s \<longrightarrow> state_wf s) \<and> (\<forall>s \<in> set ups. state_wf s) \<and> (\<forall>s \<in> set adds. state_wf s)"
  using fold_res_inv [OF assms, where P = "\<lambda>(p, us, as). (\<forall>s. p = Some s \<longrightarrow> state_wf s) \<and> (\<forall>s \<in> set us. state_wf s) \<and> (\<forall>s \<in> set as. state_wf s)"]
  by (fastforce simp: sort_instance_def rbind_eq_Inr dest: InstanceState_wf split: if_splits)

lemma UpdateNode_wf:
  assumes "UpdateNode R start node = Inr states"
  shows "\<forall>s \<in> set states. state_wf s"
proof -
  from assms obtain p ups adds ns where
      sorted: "fold_res (sort_instance R start node) (nr_InstanceResources node) (None, [], []) = Inr (Some p, ups, adds)"
    and ns: "nodeResourceState R node = Inr ns" and states: "states = merge_last (ups @ [p] @ adds) ns"
    by (auto simp: UpdateNode_def rbind_eq_Inr split: option.splits)
  from sort_instance_wf [OF sorted] nodeResourceState_wf [OF ns] show ?thesis unfolding states by (intro merge_last_wf) auto
qed

lemma RollingUpdateNodes_wf:
  assumes "RollingUpdateNodes R start nodes = Inr states"
  shows "\<forall>s \<in> set states. state_wf s"
  using fold_res_inv [OF assms [unfolded RollingUpdateNodes_def], where P = "\<lambda>states. \<forall>s \<in> set states. state_wf s"] UpdateNode_wf
  by (fastforce simp: rbind_eq_Inr)

lemma ConcurrentUpdateNodes_wf: "ConcurrentUpdateNodes R start nodes = Inr states \<Longrightarrow> \<forall>s \<in> set states. state_wf s"
  unfolding ConcurrentUpdateNodes_def rbind_eq_Inr
  by (elim exE conjE, drule map_res_wf, erule UpdateNode_wf, drule mergePartialStates_wf) simp

lemma PopulateNode_wf:
  assumes "PopulateNode R node names = Inr s"
  shows "state_wf s"
proof -
  from assms obtain a b where a: "merge_res (databaseResourceState R node) NewState = Inr a"
    and b: "fold_res (\<lambda>peer. addPeerResources R (nr_DatabaseName node) peer (nr_SourceNode node) (nr_NodeName node))
        (sync_peers node names) a = Inr b"
    and s: "\<exists>rs. add_resources R rs b = Inr s"
    by (auto simp: PopulateNode_def Let_def rbind_eq_Inr addSyncResources_def)
  have "state_wf a" by (rule merge_res_wf [OF a]) (auto intro: databaseResourceState_wf)
  have "state_wf b" by (rule fold_res_inv [where P = state_wf, OF b \<open>state_wf a\<close>]) (auto simp: addPeerResources_def elim: add_resources_wf)
  with s show ?thesis by (auto elim: add_resources_wf)
qed

lemma PopulateNodes_wf:
  assumes "PopulateNodes R existing new = Inr (Some s)"
  shows "state_wf s"
  using fold_res_inv [OF assms [unfolded PopulateNodes_def], where P = "\<lambda>m. \<forall>s. m = Some s \<longrightarrow> state_wf s"] PopulateNode_wf
  by (fastforce simp: rbind_eq_Inr intro: State_Merge_wf split: option.splits if_splits)

lemma sourceNodeRoleDumps_wf:
  assumes "sourceNodeRoleDumps R names m = Inr s"
  shows "state_wf s"
proof -
  from assms obtain t where t: "fold_res (\<lambda>name. add_resources R [DumpRoles \<lparr>dr_NodeName = name, dr_Roles = [], dr_Statements = []\<rparr>])
      (gm_keys names) NewState = Inr t"
    and s: "fold_res (\<lambda>(node, source). add_resources R [RolesSource \<lparr>rl_NodeName = node, rl_SourceNodeName = source\<rparr>]) m t = Inr s"
    by (auto simp: sourceNodeRoleDumps_def rbind_eq_Inr)
  have "state_wf t" by (rule fold_res_inv [where P = state_wf, OF t]) (auto elim: add_resources_wf)
  show ?thesis by (rule fold_res_inv [where P = state_wf, OF s \<open>state_wf t\<close>]) (auto elim: add_resources_wf)
qed

lemma addNodesStates_wf:
  assumes "addNodesStates R updates adds = Inr states"
  shows "\<forall>s \<in> set states. state_wf s"
proof -
  define adds' where "adds' = map (with_source (case updates of [] \<Rightarrow> [] | u # us \<Rightarrow> nr_NodeName u)) adds"
  define names where "names = NewSet (map nr_SourceNode (filter has_source adds'))"
  define m where "m = fold (\<lambda>n m. gm_put m (nr_NodeName n) (nr_SourceNode n)) (filter has_source adds') []"
  from assms have "rbind (if length m > 0 then map_sum id (\<lambda>d. [d]) (sourceNodeRoleDumps R names m) else Inr [])
      (\<lambda>dumps. rbind (AddNodes R adds') (\<lambda>a. rbind (PopulateNodes R updates adds') (\<lambda>populate.
        Inr (dumps @ a @ (case populate of None \<Rightarrow> [] | Some p \<Rightarrow> [p]))))) = Inr states"
    unfolding addNodesStates_def Let_def adds'_def [symmetric] names_def [symmetric] m_def [symmetric] by (auto split: option.splits)
  then obtain dumps as pop where d: "(if length m > 0 then map_sum id (\<lambda>d. [d]) (sourceNodeRoleDumps R names m) else Inr []) = Inr dumps"
    and as: "AddNodes R adds' = Inr as" and pop: "PopulateNodes R updates adds' = Inr pop"
    and states: "states = dumps @ as @ (case pop of None \<Rightarrow> [] | Some p \<Rightarrow> [p])"
    unfolding rbind_eq_Inr by (auto simp del: length_greater_0_conv)
  from d have dumps: "dumps = [] \<or> (\<exists>d. dumps = [d] \<and> sourceNodeRoleDumps R names m = Inr d)"
    by (cases "sourceNodeRoleDumps R names m") (auto split: if_splits)
  from dumps have "\<forall>s \<in> set dumps. state_wf s" by (auto intro: sourceNodeRoleDumps_wf)
  moreover have "pop = Some p \<Longrightarrow> state_wf p" for p using pop by (auto intro: PopulateNodes_wf)
  ultimately show ?thesis using AddNodes_wf [OF as] states by (auto split: option.splits)
qed

lemma update_states_wf:
  assumes "update_states R unmarshal options start nodes services = Inr (states, end_state)"
  shows "(\<forall>s \<in> set states. state_wf s) \<and> state_wf end_state \<and> EndState R nodes services = Inr end_state"
proof -
  from assms obtain update updates adds u a where up: "updateFunc R options = Inr update"
    and u: "(if length updates > 0 then update start updates else Inr []) = Inr u"
    and a: "(if length adds > 0 then addNodesStates R updates adds else Inr []) = Inr a"
    and e: "EndState R nodes services = Inr end_state" and states: "states = u @ a"
  proof -
    let ?body = "\<lambda>update updates adds. rbind (if length updates > 0 then update start updates else Inr []) (\<lambda>u.
           rbind (if length adds > 0 then addNodesStates R updates adds else Inr []) (\<lambda>a.
             rbind (EndState R nodes services) (\<lambda>end_state. Inr (u @ a, end_state))))"
    from assms obtain update where up: "updateFunc R options = Inr update"
      and "rbind (partitionNodes unmarshal start nodes) (\<lambda>(updates, adds).
         if list_ex (\<lambda>n. nr_RestoreConfig n \<noteq> None \<and> nr_SourceNode n \<noteq> []) nodes then Inl ErrRestoreWithSource
         else ?body update updates adds) = Inr (states, end_state)"
      unfolding update_states_def rbind_eq_Inr [of "updateFunc R options"] by blast
    then obtain x where "(case x of (updates, adds) \<Rightarrow>
         if list_ex (\<lambda>n. nr_RestoreConfig n \<noteq> None \<and> nr_SourceNode n \<noteq> []) nodes then Inl ErrRestoreWithSource
         else ?body update updates adds) = Inr (states, end_state)"
      unfolding rbind_eq_Inr [of "partitionNodes unmarshal start nodes"] by blast
    then obtain updates adds where "?body update updates adds = Inr (states, end_state)"
      by (cases x) (auto simp only: prod.case split: if_splits)
    with up have "updateFunc R options = Inr update \<and> ?body update updates adds = Inr (states, end_state)" by (rule conjI)
    then show thesis unfolding rbind_eq_Inr sum.inject prod.inject by (elim exE conjE) (rule that; (assumption | erule sym | simp))
  qed
  have "update = RollingUpdateNodes R \<or> update = ConcurrentUpdateNodes R" using up by (auto simp: updateFunc_def split: if_splits)
  with u have "\<forall>s \<in> set u. state_wf s"
    by (cases "length updates > 0") (metis RollingUpdateNodes_wf ConcurrentUpdateNodes_wf, simp)
  moreover from a have "\<forall>s \<in> set a. state_wf s"
    by (cases "length adds > 0") (metis addNodesStates_wf, simp)
  ultimately show ?thesis using EndState_wf [OF e] e states by auto
qed

lemma accumulate_wf: "state_wf s \<Longrightarrow> \<forall>d \<in> set ds. state_wf d \<Longrightarrow> \<forall>t \<in> set (accumulate s ds). state_wf t"
proof (induction ds arbitrary: s)
  case (Cons d ds)
  have "state_wf (State_Merge s d)" by (rule State_Merge_wf) (use Cons.prems in simp_all)
  with Cons.IH [OF this] Cons.prems show ?case by (auto simp: Let_def)
qed simp

lemma accumulate_grows:
  assumes G: "gonum_orders G I" and "state_wf s" and "\<forall>d \<in> set ds. state_wf d"
    and "map (\<lambda>(s, opts, t). Plan G I cmp s opts t) (plan_chain options s (accumulate s ds @ [e])) = map (\<lambda>p. Some (Inr p)) ps"
  shows "\<forall>p \<in> set (butlast ps). deletes_nothing p"
  using assms(2-)
proof (induction ds arbitrary: s ps)
  case Nil
  then show ?case by auto
next
  case (Cons d ds)
  let ?t = "State_Merge s d"
  have t: "state_wf ?t" using Cons.prems by (simp add: State_Merge_wf)
  from Cons.prems(3) obtain p qs where ps: "ps = p # qs"
    and p: "Plan G I cmp s \<lparr>ForceUpdate = ForceUpdate options \<and> accumulate ?t ds @ [e] = []\<rparr> ?t = Some (Inr p)"
    and qs: "map (\<lambda>(s, opts, t). Plan G I cmp s opts t) (plan_chain options ?t (accumulate ?t ds @ [e])) = map (\<lambda>p. Some (Inr p)) qs"
    by (auto simp: Let_def)
  have "deletes_nothing p"
    using Cons.prems(1,2) t by (intro plan_deletes_nothing [OF G _ _ p]) (auto simp: State_Merge_get split: option.splits)
  moreover have "\<forall>p \<in> set (butlast qs). deletes_nothing p" using Cons.IH [OF t _ qs] Cons.prems(2) by simp
  ultimately show ?case unfolding ps by auto
qed

lemma Prepare_covers:
  "state_wf start \<Longrightarrow> covers start (PreparePendingDeletesAndRecreates start e) e"
  by (auto simp: covers_def Prepare_get split: option.splits if_splits)

lemma butlast_filter: "set (butlast (filter P xs)) \<subseteq> set (butlast xs)"
  by (induction xs) (auto dest: in_set_butlastD)

text \<open>
  C3. Updating a database. When \<^verbatim>\<open>UpdateDatabase\<close> returns plans, applying them in order to the start state
  succeeds and leaves exactly the resources of the end state for the given nodes and services; and no plan
  but the last one deletes anything, so that everything is created and updated before anything is removed.
\<close>
theorem UpdateDatabase_reaches_end:
  assumes G: "gonum_orders G I" and wf: "state_wf start"
    and run: "UpdateDatabase G I cmp R unmarshal options start nodes services = Some (Inr plans)"
  shows "\<exists>end_state final. EndState R nodes services = Inr end_state \<and>
    fold_res (\<lambda>p s. apply_plan s p) plans start = Inr final \<and>
    (\<forall>i. State_Get final i = None \<longleftrightarrow> State_Get end_state i = None) \<and>
    (\<forall>p \<in> set (butlast plans). \<forall>e \<in> set (concat p). ev_Type e \<noteq> EventTypeDelete)"
proof -
  from run obtain states end_state where upd: "update_states R unmarshal options start nodes services = Inr (states, end_state)"
    and all: "PlanAll G I cmp (PreparePendingDeletesAndRecreates start end_state) (uo_PlanOptions options)
      (accumulate (PreparePendingDeletesAndRecreates start end_state) states @ [end_state]) = Some (Inr plans)"
    by (auto simp: UpdateDatabase_def Let_def split: sum.splits option.splits)
  let ?s = "PreparePendingDeletesAndRecreates start end_state"
  note swf = update_states_wf [OF upd]
  have s: "state_wf ?s" by (rule Prepare_wf [OF wf])
  from PlanAll_chain [OF all] obtain ps where
      ps: "map (\<lambda>(s, opts, t). Plan G I cmp s opts t) (plan_chain (uo_PlanOptions options) ?s (accumulate ?s states @ [end_state])) =
        map (\<lambda>p. Some (Inr p)) ps" and plans: "plans = filter (\<lambda>p. length p > 0) ps" by blast
  have "\<forall>t \<in> set (accumulate ?s states @ [end_state]). state_wf t" using accumulate_wf [OF s, of states] swf by auto
  from plan_chain_run [OF G s this ps Prepare_covers [OF wf, of end_state]] obtain final where
    "fold_res (\<lambda>p s. apply_plan s p) ps start = Inr final" and "covers final end_state end_state" by auto
  then have "fold_res (\<lambda>p s. apply_plan s p) plans start = Inr final \<and> (\<forall>i. State_Get final i = None \<longleftrightarrow> State_Get end_state i = None)"
    unfolding plans apply_empty by (auto simp: covers_def)
  moreover have "\<forall>p \<in> set (butlast plans). deletes_nothing p"
    using accumulate_grows [OF G s _ ps] swf butlast_filter [of _ ps] unfolding plans by blast
  ultimately show ?thesis using swf unfolding deletes_nothing_def by blast
qed

text \<open>A database with one node of one instance.\<close>

definition sample_iface :: "(unit db_resource, unit) resource_iface" where
  "sample_iface =
     \<lparr>if_Executor = (\<lambda>_. AnyExecutor), if_Identifier = (\<lambda>_. NodeResourceIdentifier []), if_Dependencies = (\<lambda>_. []),
      if_TypeDependencies = (\<lambda>_. []), if_DiffIgnore = (\<lambda>_. []), if_ResourceVersion = (\<lambda>_. []), if_Marshal = (\<lambda>_. Inr ''{}''),
      if_Refresh = (\<lambda>r w. (None, r, w)), if_Create = (\<lambda>r w. (None, r, w)), if_Update = (\<lambda>r w. (None, r, w)),
      if_Delete = (\<lambda>r w. (None, r, w))\<rparr>"

definition sample_instance :: "unit InstanceResources" where
  "sample_instance =
     \<lparr>in_Instance = \<lparr>ir_InstanceID = ''i1'', ir_DatabaseID = ''db'', ir_HostID = ''host'', ir_DatabaseName = ''app'', ir_NodeName = ''n1'',
        ir_OrchestratorDependencies = [], ir_Other = ()\<rparr>,
      in_InstanceDependencies = [], in_DatabaseDependencies = [], in_NodeDependents = []\<rparr>"

definition sample_node :: "unit NodeResources" where
  "sample_node =
     \<lparr>nr_DatabaseID = ''db'', nr_DatabaseOwner = ''admin'', nr_DatabaseName = ''app'', nr_NodeName = ''n1'', nr_SourceNode = [],
      nr_PrimaryInstanceID = [], nr_InstanceResources = [sample_instance], nr_RestoreConfig = None, nr_Scripts = []\<rparr>"

definition sample_data :: "executor \<Rightarrow> ident \<Rightarrow> ident list \<Rightarrow> string list \<Rightarrow> resource_data" where
  "sample_data ex i deps ignored =
     \<lparr>NeedsRecreate = False, Executor = ex, Identifier = i, Attributes = ''{}'', Dependencies = deps, TypeDependencies = [],
      DiffIgnore = ignored, ResourceVersion = ''1'', PendingDeletion = False, Error = []\<rparr>"

definition sample_first :: state where
  "sample_first = State_Add NewState
     [sample_data (HostExecutor ''host'') (InstanceResourceIdentifier ''i1'') []
        [''/primary_instance_id'', ''/primary_instance_id_updated_at'', ''/connection_info''],
      sample_data AnyExecutor (NodeResourceIdentifier ''n1'') [InstanceResourceIdentifier ''i1''] [''/primary_instance_id'']]"

definition sample_end :: state where
  "sample_end = State_Add sample_first
     [sample_data (HostExecutor ''host'') (InstanceMonitorResourceIdentifier ''i1'') [InstanceResourceIdentifier ''i1''] [],
      sample_data (PrimaryExecutor ''n1'') (PostgresDatabaseResourceIdentifier ''n1'' ''app'') [NodeResourceIdentifier ''n1''] []]"

lemmas sample_data_defs = sample_data_def InstanceResourceIdentifier_def NodeResourceIdentifier_def
  InstanceMonitorResourceIdentifier_def PostgresDatabaseResourceIdentifier_def id2_def

lemma sample_convert:
  "add_resources sample_iface [r] s =
     Inr (add_one s (sample_data (rm_Executor (db_methods r)) (rm_Identifier (db_methods r)) (rm_Dependencies (db_methods r)) (rm_DiffIgnore (db_methods r))))"
  by (cases r) (simp_all add: add_resources_def AddResource_def ToResourceData_def db_iface_def sample_iface_def sample_data_def
      InstanceResource_methods_def NodeResource_methods_def PostgresDatabaseResource_methods_def InstanceMonitorResource_methods_def
      ServiceInstanceMonitorResource_methods_def ReplicationSlotResource_methods_def SubscriptionResource_methods_def
      ReplicationSlotCreateResource_methods_def SyncEventResource_methods_def WaitForSyncEventResource_methods_def
      PeerCatchupResource_methods_def LagTrackerCommitTimestampResource_methods_def ReplicationSlotAdvanceFromCTSResource_methods_def
      ReplicationOriginAdvanceResource_methods_def DumpRolesResource_methods_def RolesSourceResource_methods_def)

lemma add_nothing [simp]: "add_resources R [] s = Inr s"
  by (simp add: add_resources_def AddResource_def)

lemma sample_states:
  "EndState sample_iface [sample_node] [] = Inr sample_end"
  "AddNode sample_iface sample_node = Inr [sample_first]"
proof -
  note eval = merge_res_def InstanceState_def nodeResourceState_def databaseResourceState_def add_monitor_def peer_resources_def
    sample_convert sample_node_def sample_instance_def instance_ID_def State_Merge_def add_one_def NewState_def gm_copy_def
    InstanceResource_methods_def NodeResource_methods_def PostgresDatabaseResource_methods_def InstanceMonitorResource_methods_def
    sample_first_def sample_end_def sample_data_defs
  show "EndState sample_iface [sample_node] [] = Inr sample_end"
    by (simp add: EndState_def end_node_def eval)
  show "AddNode sample_iface sample_node = Inr [sample_first]"
    by (simp add: AddNode_def merge_last_def eval)
qed

definition sample_options :: UpdateDatabaseOptions where
  "sample_options = \<lparr>uo_NodeUpdateStrategy = [], uo_PlanOptions = \<lparr>ForceUpdate = False\<rparr>\<rparr>"

lemma sample_update_states:
  "update_states sample_iface unmarshal sample_options NewState [sample_node] [] = Inr ([sample_first], sample_end)"
proof -
  have node [simp]: "with_source [] sample_node = sample_node" "has_source sample_node = False" "nr_SourceNode sample_node = []"
    by (simp_all add: with_source_def has_source_def sample_node_def)
  have "validateSourceNodes (NewSet [nr_NodeName sample_node]) (NewSet []) = None"
    by (simp add: validateSourceNodes_def Set_Intersection_def add_where_def NewSet_def Set_Add_def Set_Has_def Set_Size_def)
  then have "addNodesStates sample_iface [] [sample_node] = Inr [sample_first]"
    by (simp add: addNodesStates_def AddNodes_def PopulateNodes_def sample_states mergePartialStates_def)
  moreover have "partitionNodes unmarshal NewState [sample_node] = Inr ([], [sample_node])"
    by (simp add: FromState_def)
  ultimately show ?thesis
    by (simp add: update_states_def updateFunc_def sample_options_def sample_states)
qed

lemma sample_first_resources: "all_resources sample_first =
    [sample_data (HostExecutor ''host'') (InstanceResourceIdentifier ''i1'') []
       [''/primary_instance_id'', ''/primary_instance_id_updated_at'', ''/connection_info''],
     sample_data AnyExecutor (NodeResourceIdentifier ''n1'') [InstanceResourceIdentifier ''i1''] [''/primary_instance_id'']]"
  by (simp add: all_resources_def sample_first_def add_one_def NewState_def sample_data_defs)

lemma sample_end_resources: "all_resources sample_end = all_resources sample_first @
    [sample_data (HostExecutor ''host'') (InstanceMonitorResourceIdentifier ''i1'') [InstanceResourceIdentifier ''i1''] [],
     sample_data (PrimaryExecutor ''n1'') (PostgresDatabaseResourceIdentifier ''n1'' ''app'') [NodeResourceIdentifier ''n1''] []]"
  by (simp add: all_resources_def sample_end_def sample_first_def add_one_def NewState_def sample_data_defs)

definition sample_rank :: "resource_data \<Rightarrow> nat" where
  "sample_rank r = (if ident_Type (Identifier r) = ''database.instance'' then 0
     else if ident_Type (Identifier r) = ''database.postgres_database'' then 2 else 1)"

lemma sample_wf: "state_wf sample_first" "state_wf sample_end"
  by (simp_all add: sample_end_def sample_first_def State_Add_wf add_one_wf)

lemma sample_valid: "deps_valid b sample_first" "deps_valid b sample_end"
  by (simp_all add: deps_valid_def sample_end_resources sample_first_resources)
    (simp_all add: sample_end_def sample_first_def add_one_get sample_data_defs)

lemma sample_acyclic: "acyclic (dependency_edges sample_first)" "acyclic (dependency_edges sample_end)"
proof -
  have "dependency_edges sample_first \<subseteq> measure sample_rank" "dependency_edges sample_end \<subseteq> measure sample_rank"
    by (auto simp: dependency_edges_def sample_end_resources sample_first_resources depends_on_def sample_rank_def sample_data_defs)
  then show "acyclic (dependency_edges sample_first)" "acyclic (dependency_edges sample_end)"
    by (meson acyclic_subset wf_acyclic wf_measure)+
qed

lemma sample_update_plans:
  "\<exists>plans. UpdateDatabase list_digraph list_orders no_diff sample_iface unmarshal sample_options NewState [sample_node] [] = Some (Inr plans)"
proof -
  have prep: "PreparePendingDeletesAndRecreates NewState e = NewState" for e
    by (simp add: PreparePendingDeletesAndRecreates_def NewState_def)
  have opts: "uo_PlanOptions sample_options = \<lparr>ForceUpdate = False\<rparr>" by (simp add: sample_options_def)
  have first: "State_Merge NewState sample_first = sample_first"
    by (simp add: State_Merge_def sample_first_def NewState_def add_one_def sample_data_defs gm_copy_def)
  obtain p where "Plan list_digraph list_orders no_diff NewState \<lparr>ForceUpdate = False\<rparr> sample_first = Some (Inr p)"
    using lg.Plan_succeeds [where cmp = no_diff, OF state_wf_NewState sample_wf(1) no_diff_total sample_valid(1) sample_acyclic(1) NewState_valid] by blast
  moreover obtain q where "Plan list_digraph list_orders no_diff sample_first \<lparr>ForceUpdate = False\<rparr> sample_end = Some (Inr q)"
    using lg.Plan_succeeds [where cmp = no_diff, OF sample_wf no_diff_total sample_valid(2) sample_acyclic(2) sample_valid(1) sample_acyclic(1)] by blast
  ultimately show ?thesis
    by (simp add: UpdateDatabase_def sample_update_states prep first PlanAll_def opts Let_def)
qed

theorem UpdateDatabase_reaches_end_witness:
  "\<exists>plans final. UpdateDatabase list_digraph list_orders no_diff sample_iface (\<lambda>_. Inl ''no node'') sample_options NewState [sample_node] [] =
       Some (Inr plans) \<and>
     fold_res (\<lambda>p s. apply_plan s p) plans NewState = Inr final \<and>
     State_Get final (PostgresDatabaseResourceIdentifier ''n1'' ''app'') \<noteq> None"
proof -
  obtain plans where run: "UpdateDatabase list_digraph list_orders no_diff sample_iface (\<lambda>_. Inl ''no node'') sample_options NewState [sample_node] [] =
       Some (Inr plans)" using sample_update_plans by blast
  from UpdateDatabase_reaches_end [OF lg.gonum_orders_axioms state_wf_NewState run] sample_states(1) obtain final where
    final: "fold_res (\<lambda>p s. apply_plan s p) plans NewState = Inr final"
      "\<forall>i. State_Get final i = None \<longleftrightarrow> State_Get sample_end i = None" by auto
  have "State_Get sample_end (PostgresDatabaseResourceIdentifier ''n1'' ''app'') \<noteq> None"
    by (simp add: sample_end_def add_one_get sample_data_def)
  with final(2) have "State_Get final (PostgresDatabaseResourceIdentifier ''n1'' ''app'') \<noteq> None" by metis
  with run final(1) show ?thesis by blast
qed

end
