(* ===== verification/Operations_Nodes.thy ===== *)
theory Operations_Nodes
  imports Operations_Correct
begin

text \<open>
  What the states of the operations contain: the end state connects all nodes of a database and has the
  dependencies of everything the operations add, and a new node is populated in an order that loses no
  writes of its peers.
\<close>

section \<open>The contents of a state\<close>

text \<open>The state has only resources of \<open>D\<close>, and one for every identifier of \<open>D\<close>.\<close>

definition provides :: "state \<Rightarrow> resource_data set \<Rightarrow> bool" where
  "provides s D \<longleftrightarrow> state_wf s \<and> (\<forall>i r. State_Get s i = Some r \<longrightarrow> r \<in> D) \<and> (\<forall>d \<in> D. State_Get s (Identifier d) \<noteq> None)"

definition made :: "('i db_resource, 'w) resource_iface \<Rightarrow> 'i db_resource list \<Rightarrow> resource_data set" where
  "made R rs = {d. \<exists>r \<in> set rs. ToResourceData (db_iface R) r = Inr d}"

text \<open>All given resources have a JSON form.\<close>

definition convertible :: "('i db_resource, 'w) resource_iface \<Rightarrow> 'i db_resource list \<Rightarrow> bool" where
  "convertible R rs \<longleftrightarrow> (\<forall>r \<in> set rs. \<exists>d. ToResourceData (db_iface R) r = Inr d)"

lemma convert_fields:
  "ToResourceData (db_iface R) r = Inr d \<Longrightarrow> Identifier d = rm_Identifier (db_methods r) \<and> Dependencies d = rm_Dependencies (db_methods r) \<and>
     TypeDependencies d = rm_TypeDependencies (db_methods r)"
  by (auto simp: ToResourceData_def db_iface_def split: sum.splits)

lemma made_append [simp]: "made R (xs @ ys) = made R xs \<union> made R ys"
  by (auto simp: made_def)

lemma convertible_append [simp]: "convertible R (xs @ ys) \<longleftrightarrow> convertible R xs \<and> convertible R ys"
  by (auto simp: convertible_def)

lemma made_present: "convertible R rs \<Longrightarrow> r \<in> set rs \<Longrightarrow> \<exists>d \<in> made R rs. Identifier d = rm_Identifier (db_methods r)"
  unfolding convertible_def made_def using convert_fields by blast

lemma State_Add_present: "state_wf s \<Longrightarrow> State_Get (State_Add s ds) i = None \<longleftrightarrow> i \<notin> Identifier ` set ds \<and> State_Get s i = None"
proof (induction ds arbitrary: s)
  case (Cons d ds)
  then show ?case by (auto simp: add_one_wf add_one_get)
qed simp

lemma State_Add_origin: "state_wf s \<Longrightarrow> State_Get (State_Add s ds) i = Some r \<Longrightarrow> r \<in> set ds \<or> State_Get s i = Some r"
proof (induction ds arbitrary: s)
  case (Cons d ds)
  have "State_Get (State_Add (add_one s d) ds) i = Some r" using Cons.prems(2) by simp
  from Cons.IH [OF add_one_wf [OF Cons.prems(1)] this] show ?case by (auto simp: add_one_get split: if_splits)
qed simp

lemma provides_NewState: "provides NewState {}"
  by (simp add: provides_def)

lemma provides_Add: "provides s D \<Longrightarrow> provides (State_Add s ds) (D \<union> set ds)"
proof -
  assume s: "provides s D"
  then have wf: "state_wf s" by (simp add: provides_def)
  show ?thesis unfolding provides_def
  proof (intro conjI allI impI ballI)
    show "state_wf (State_Add s ds)" by (rule State_Add_wf [OF wf])
  next
    fix i r assume "State_Get (State_Add s ds) i = Some r"
    from State_Add_origin [OF wf this] s show "r \<in> D \<union> set ds" by (auto simp: provides_def)
  next
    fix d assume "d \<in> D \<union> set ds"
    then show "State_Get (State_Add s ds) (Identifier d) \<noteq> None" using s unfolding State_Add_present [OF wf] by (auto simp: provides_def)
  qed
qed

lemma provides_Merge:
  assumes "provides s D" and "provides t E"
  shows "provides (State_Merge s t) (D \<union> E)"
proof -
  have wf: "state_wf s" "state_wf t" using assms by (simp_all add: provides_def)
  show ?thesis unfolding provides_def
  proof (intro conjI allI impI ballI)
    show "state_wf (State_Merge s t)" using wf by (rule State_Merge_wf)
  next
    fix i r assume "State_Get (State_Merge s t) i = Some r"
    then show "r \<in> D \<union> E" using assms by (auto simp: State_Merge_get wf(2) provides_def split: option.splits)
  next
    fix d assume "d \<in> D \<union> E"
    then show "State_Get (State_Merge s t) (Identifier d) \<noteq> None"
      using assms by (auto simp: State_Merge_get wf(2) provides_def split: option.splits)
  qed
qed

lemma provides_resources:
  assumes "add_resources R rs s = Inr s'" and "provides s D"
  shows "provides s' (D \<union> made R rs) \<and> convertible R rs"
proof -
  from add_resources_Inr [OF assms(1)] obtain ds where ds: "map (ToResourceData (db_iface R)) rs = map Inr ds" and s': "s' = State_Add s ds" by blast
  from ds have img: "ToResourceData (db_iface R) ` set rs = Inr ` set ds" by (metis image_set)
  have "set ds = made R rs"
  proof (intro equalityI subsetI)
    fix d assume "d \<in> set ds"
    then have "Inr d \<in> ToResourceData (db_iface R) ` set rs" unfolding img by (rule imageI)
    then show "d \<in> made R rs" unfolding made_def by force
  next
    fix d assume "d \<in> made R rs"
    then have "Inr d \<in> ToResourceData (db_iface R) ` set rs" unfolding made_def by force
    then show "d \<in> set ds" unfolding img by auto
  qed
  moreover have "convertible R rs" unfolding convertible_def
  proof
    fix r assume "r \<in> set rs"
    then have "ToResourceData (db_iface R) r \<in> Inr ` set ds" using img by blast
    then show "\<exists>d. ToResourceData (db_iface R) r = Inr d" by blast
  qed
  ultimately show ?thesis using provides_Add [OF assms(2), of ds] by (simp add: s')
qed

lemma fold_provides:
  assumes "fold_res f xs s = Inr s'" and "provides s D"
    and "\<And>x s s' D. x \<in> set xs \<Longrightarrow> provides s D \<Longrightarrow> f x s = Inr s' \<Longrightarrow> provides s' (D \<union> F x) \<and> C x"
  shows "provides s' (D \<union> (\<Union>x \<in> set xs. F x)) \<and> (\<forall>x \<in> set xs. C x)"
  using assms
proof (induction xs arbitrary: s D)
  case (Cons x xs)
  from Cons.prems(1) obtain s1 where s1: "f x s = Inr s1" "fold_res f xs s1 = Inr s'" by (auto simp: rbind_eq_Inr)
  have x: "provides s1 (D \<union> F x) \<and> C x" by (rule Cons.prems(3) [OF _ Cons.prems(2) s1(1)]) simp
  have "provides s' (D \<union> F x \<union> (\<Union>x \<in> set xs. F x)) \<and> (\<forall>x \<in> set xs. C x)"
    using x Cons.prems(3) by (intro Cons.IH [OF s1(2)]) auto
  with x show ?case by (simp add: Un_assoc)
qed simp

section \<open>The states of instances and nodes\<close>

text \<open>A resource with the given identifier and dependencies.\<close>

definition describes :: "'i db_resource \<Rightarrow> ident \<Rightarrow> ident list \<Rightarrow> bool" where
  "describes r i deps \<longleftrightarrow> rm_Identifier (db_methods r) = i \<and> rm_Dependencies (db_methods r) = deps"

lemma describes_made: "describes r i deps \<Longrightarrow> d \<in> made R [r] \<Longrightarrow> Identifier d = i \<and> Dependencies d = deps"
  by (auto simp: describes_def made_def dest: convert_fields)

lemma describes_present: "describes r i deps \<Longrightarrow> convertible R [r] \<Longrightarrow> \<exists>d \<in> made R [r]. Identifier d = i"
  using made_present [of R "[r]" r] by (simp add: describes_def)

lemma describes_in: "describes r i deps \<Longrightarrow> convertible R [r] \<Longrightarrow> made R [r] \<subseteq> E \<Longrightarrow> i \<in> Identifier ` E"
  using describes_present by blast

lemma InstanceState_provides:
  assumes "InstanceState R i = Inr s"
  shows "provides s (set (in_InstanceDependencies i) \<union> made R [Instance (in_Instance i)]) \<and> convertible R [Instance (in_Instance i)]"
  using provides_resources [OF assms [unfolded InstanceState_def] provides_Add [OF provides_NewState]] by simp

lemma Instance_describes: "describes (Instance (in_Instance i)) (InstanceResourceIdentifier (instance_ID i)) (ir_OrchestratorDependencies (in_Instance i))"
  by (simp add: describes_def InstanceResource_methods_def instance_ID_def)

lemma nodeResourceState_provides:
  assumes "nodeResourceState R n = Inr s"
  shows "\<exists>r. describes r (NodeResourceIdentifier (nr_NodeName n)) (map (InstanceResourceIdentifier \<circ> instance_ID) (nr_InstanceResources n)) \<and>
    convertible R [r] \<and> provides s ((\<Union>i \<in> set (nr_InstanceResources n). set (in_NodeDependents i)) \<union> made R [r])"
proof -
  have "provides (foldl (\<lambda>s i. State_Add s (in_NodeDependents i)) s is) (D \<union> (\<Union>i \<in> set is. set (in_NodeDependents i)))"
    if "provides s D" for s D and "is" :: "'a InstanceResources list"
    using that
  proof (induction "is" arbitrary: s D)
    case (Cons i "is")
    from Cons.IH [OF provides_Add [OF Cons.prems]] show ?case by (simp add: Un_assoc)
  qed simp
  from this [OF provides_NewState, of "nr_InstanceResources n"]
  have d: "provides (foldl (\<lambda>s i. State_Add s (in_NodeDependents i)) NewState (nr_InstanceResources n))
    (\<Union>i \<in> set (nr_InstanceResources n). set (in_NodeDependents i))" by simp
  from provides_resources [OF assms [unfolded nodeResourceState_def Let_def] d] show ?thesis
    by (intro exI conjI) (auto simp: describes_def NodeResource_methods_def)
qed

lemma databaseResourceState_provides:
  assumes "databaseResourceState R n = Inr s"
  shows "\<exists>r m. describes r (PostgresDatabaseResourceIdentifier (nr_NodeName n) (nr_DatabaseName n))
      (NodeResourceIdentifier (nr_NodeName n) # concat (map (\<lambda>i. map Identifier (in_DatabaseDependencies i)) (nr_InstanceResources n))) \<and>
    convertible R [r] \<and>
    (\<forall>i \<in> set (nr_InstanceResources n). describes (m i) (InstanceMonitorResourceIdentifier (instance_ID i)) [InstanceResourceIdentifier (instance_ID i)] \<and>
       convertible R [m i]) \<and>
    provides s ((\<Union>i \<in> set (nr_InstanceResources n). made R [m i] \<union> set (in_DatabaseDependencies i)) \<union> made R [r])"
proof -
  let ?m = "\<lambda>i. InstanceMonitor \<lparr>im_DatabaseID = ir_DatabaseID (in_Instance i), im_InstanceID = instance_ID i,
             im_DatabaseName = ir_DatabaseName (in_Instance i), im_HostID = ir_HostID (in_Instance i)\<rparr>"
  have loop: "extra = extra0 @ concat (map (\<lambda>i. map Identifier (in_DatabaseDependencies i)) is) \<and> (\<forall>i \<in> set is. convertible R [?m i]) \<and>
      provides t (D \<union> (\<Union>i \<in> set is. made R [?m i] \<union> set (in_DatabaseDependencies i)))"
    if "fold_res (add_monitor R) is (extra0, t0) = Inr (extra, t)" and "provides t0 D" for "is" extra0 t0 extra t D
    using that
  proof (induction "is" arbitrary: extra0 t0 D)
    case (Cons i "is")
    from Cons.prems(1) obtain t1 where t1: "add_resources R [?m i] t0 = Inr t1"
      and rest: "fold_res (add_monitor R) is (extra0 @ map Identifier (in_DatabaseDependencies i), State_Add t1 (in_DatabaseDependencies i)) = Inr (extra, t)"
      by (auto simp: add_monitor_def [of R i] rbind_eq_Inr)
    note p = provides_resources [OF t1 Cons.prems(2)]
    from Cons.IH [OF rest provides_Add [OF conjunct1 [OF p]]] p show ?case by (auto simp: Un_assoc)
  qed simp
  from assms obtain extra t where t: "fold_res (add_monitor R) (nr_InstanceResources n) ([], NewState) = Inr (extra, t)"
    and s: "add_resources R [PostgresDatabase
          \<lparr>pd_DatabaseID = nr_DatabaseID n, pd_NodeName = nr_NodeName n, pd_DatabaseName = nr_DatabaseName n,
           pd_Owner = nr_DatabaseOwner n,
           pd_RenameFrom = (case nr_RestoreConfig n of None \<Rightarrow> [] | Some c \<Rightarrow> cf_SourceDatabaseName c),
           pd_HasRestoreConfig = (nr_RestoreConfig n \<noteq> None), pd_ExtraDependencies = extra,
           pd_PostDatabaseCreate = (case gm_get (nr_Scripts n) ScriptNamePostDatabaseCreate of None \<Rightarrow> None | Some sc \<Rightarrow> sc)\<rparr>] t = Inr s"
    by (auto simp: databaseResourceState_def rbind_eq_Inr)
  note l = loop [OF t provides_NewState]
  have "provides t (\<Union>i \<in> set (nr_InstanceResources n). made R [?m i] \<union> set (in_DatabaseDependencies i))" using l by simp
  from provides_resources [OF s this] l show ?thesis
    by (intro exI [of _ "PostgresDatabase
          \<lparr>pd_DatabaseID = nr_DatabaseID n, pd_NodeName = nr_NodeName n, pd_DatabaseName = nr_DatabaseName n,
           pd_Owner = nr_DatabaseOwner n,
           pd_RenameFrom = (case nr_RestoreConfig n of None \<Rightarrow> [] | Some c \<Rightarrow> cf_SourceDatabaseName c),
           pd_HasRestoreConfig = (nr_RestoreConfig n \<noteq> None), pd_ExtraDependencies = extra,
           pd_PostDatabaseCreate = (case gm_get (nr_Scripts n) ScriptNamePostDatabaseCreate of None \<Rightarrow> None | Some sc \<Rightarrow> sc)\<rparr>"] exI [of _ ?m])
      (simp add: describes_def PostgresDatabaseResource_methods_def InstanceMonitorResource_methods_def)
qed

section \<open>The end state\<close>

lemma merge_provides:
  assumes "merge_res r s = Inr s'" and "provides s D" and "\<And>t. r = Inr t \<Longrightarrow> provides t E \<and> C"
  shows "provides s' (D \<union> E) \<and> C"
proof -
  from assms(1) obtain t where "r = Inr t" and "s' = State_Merge s t" by (auto simp: merge_res_def rbind_eq_Inr)
  with assms(2,3) show ?thesis by (auto intro: provides_Merge)
qed

text \<open>What the orchestrator and the services supply, the resources of the instances included.\<close>

definition supplied_by_node :: "('i db_resource, 'w) resource_iface \<Rightarrow> 'i NodeResources \<Rightarrow> resource_data set" where
  "supplied_by_node R n = (\<Union>i \<in> set (nr_InstanceResources n). set (in_InstanceDependencies i) \<union> made R [Instance (in_Instance i)] \<union>
     set (in_NodeDependents i) \<union> set (in_DatabaseDependencies i))"

definition supplied_by_service :: "('i db_resource, 'w) resource_iface \<Rightarrow> 'i ServiceResources \<Rightarrow> resource_data set" where
  "supplied_by_service R svc = set (sv_Resources svc) \<union> (case sv_MonitorResource svc of None \<Rightarrow> {} | Some m \<Rightarrow> made R [m])"

text \<open>
  The resources that a node has in an end state: what is supplied, and one resource for the node, its
  database, each monitor, and each connection to a peer.
\<close>

definition node_part :: "('i db_resource, 'w) resource_iface \<Rightarrow> 'i NodeResources list \<Rightarrow> 'i NodeResources \<Rightarrow> resource_data set \<Rightarrow> bool" where
  "node_part R nodes n D \<longleftrightarrow> (\<exists>nd db m.
     describes nd (NodeResourceIdentifier (nr_NodeName n)) (map (InstanceResourceIdentifier \<circ> instance_ID) (nr_InstanceResources n)) \<and>
     describes db (PostgresDatabaseResourceIdentifier (nr_NodeName n) (nr_DatabaseName n))
       (NodeResourceIdentifier (nr_NodeName n) # concat (map (\<lambda>i. map Identifier (in_DatabaseDependencies i)) (nr_InstanceResources n))) \<and>
     convertible R [nd, db] \<and>
     (\<forall>i \<in> set (nr_InstanceResources n). describes (m i) (InstanceMonitorResourceIdentifier (instance_ID i)) [InstanceResourceIdentifier (instance_ID i)] \<and>
        convertible R [m i, Instance (in_Instance i)]) \<and>
     convertible R (peer_resources n nodes) \<and>
     D = supplied_by_node R n \<union> made R [nd, db] \<union> (\<Union>i \<in> set (nr_InstanceResources n). made R [m i]) \<union> made R (peer_resources n nodes))"

lemma made_Cons: "made R (r # rs) = made R [r] \<union> made R rs"
  by (auto simp: made_def)

lemma convertible_Cons: "convertible R (r # rs) \<longleftrightarrow> convertible R [r] \<and> convertible R rs"
  by (auto simp: convertible_def)

lemma end_node_provides:
  assumes "end_node R nodes n s = Inr s'" and s: "provides s D"
  shows "\<exists>E. node_part R nodes n E \<and> provides s' (D \<union> E)"
proof -
  let ?is = "set (nr_InstanceResources n)"
  from assms(1) obtain a b c where a: "fold_res (\<lambda>i. merge_res (InstanceState R i)) (nr_InstanceResources n) s = Inr a"
    and b: "merge_res (nodeResourceState R n) a = Inr b" and c: "merge_res (databaseResourceState R n) b = Inr c"
    and s': "add_resources R (peer_resources n nodes) c = Inr s'"
    unfolding end_node_def rbind_eq_Inr by blast
  let ?A = "\<Union>i \<in> ?is. set (in_InstanceDependencies i) \<union> made R [Instance (in_Instance i)]"
  have pa: "provides a (D \<union> ?A) \<and> (\<forall>i \<in> ?is. convertible R [Instance (in_Instance i)])"
    by (rule fold_provides [OF a s]) (rule merge_provides, assumption+, rule InstanceState_provides)
  from b obtain t where t: "nodeResourceState R n = Inr t" and b': "b = State_Merge a t" by (auto simp: merge_res_def rbind_eq_Inr)
  from nodeResourceState_provides [OF t] obtain nd where nd:
    "describes nd (NodeResourceIdentifier (nr_NodeName n)) (map (InstanceResourceIdentifier \<circ> instance_ID) (nr_InstanceResources n))"
    "convertible R [nd]" "provides t ((\<Union>i \<in> ?is. set (in_NodeDependents i)) \<union> made R [nd])" by blast
  from c obtain u where u: "databaseResourceState R n = Inr u" and c': "c = State_Merge b u" by (auto simp: merge_res_def rbind_eq_Inr)
  from databaseResourceState_provides [OF u] obtain db m where db:
    "describes db (PostgresDatabaseResourceIdentifier (nr_NodeName n) (nr_DatabaseName n))
       (NodeResourceIdentifier (nr_NodeName n) # concat (map (\<lambda>i. map Identifier (in_DatabaseDependencies i)) (nr_InstanceResources n)))"
    "convertible R [db]"
    "\<forall>i \<in> ?is. describes (m i) (InstanceMonitorResourceIdentifier (instance_ID i)) [InstanceResourceIdentifier (instance_ID i)] \<and> convertible R [m i]"
    "provides u ((\<Union>i \<in> ?is. made R [m i] \<union> set (in_DatabaseDependencies i)) \<union> made R [db])" by blast
  have "provides c (D \<union> ?A \<union> ((\<Union>i \<in> ?is. set (in_NodeDependents i)) \<union> made R [nd]) \<union>
      ((\<Union>i \<in> ?is. made R [m i] \<union> set (in_DatabaseDependencies i)) \<union> made R [db]))"
    unfolding c' b' using pa nd(3) db(4) by (intro provides_Merge) simp_all
  note p = provides_resources [OF s' this]
  let ?E = "supplied_by_node R n \<union> made R [nd, db] \<union> (\<Union>i \<in> ?is. made R [m i]) \<union> made R (peer_resources n nodes)"
  have "D \<union> ?A \<union> ((\<Union>i \<in> ?is. set (in_NodeDependents i)) \<union> made R [nd]) \<union>
      ((\<Union>i \<in> ?is. made R [m i] \<union> set (in_DatabaseDependencies i)) \<union> made R [db]) \<union> made R (peer_resources n nodes) = D \<union> ?E"
    unfolding supplied_by_node_def made_Cons [of R nd "[db]"] by blast
  with p have "provides s' (D \<union> ?E)" by simp
  moreover have "node_part R nodes n ?E"
    unfolding node_part_def using nd(1,2) db(1-3) pa p
    by (intro exI [of _ nd] exI [of _ db] exI [of _ m]) (simp add: convertible_Cons [of R nd "[db]"] convertible_Cons [of R "m _" "[_]"])
  ultimately show ?thesis by blast
qed

lemma EndState_provides:
  assumes "EndState R nodes services = Inr e"
  shows "\<exists>Es. list_all2 (node_part R nodes) nodes Es \<and> provides e (\<Union>(set Es) \<union> (\<Union>svc \<in> set services. supplied_by_service R svc))"
proof -
  from assms obtain t where t: "fold_res (end_node R nodes) nodes NewState = Inr t"
    and e: "fold_res (\<lambda>svc. merge_res (ServiceResources_State R svc)) services t = Inr e" by (auto simp: EndState_def rbind_eq_Inr)
  have "\<exists>Es. list_all2 (node_part R nodes) ns Es \<and> provides t (D \<union> \<Union>(set Es))"
    if "fold_res (end_node R nodes) ns s = Inr t" and "provides s D" for ns s D
    using that
  proof (induction ns arbitrary: s D)
    case (Cons n ns)
    from Cons.prems(1) obtain s1 where s1: "end_node R nodes n s = Inr s1" "fold_res (end_node R nodes) ns s1 = Inr t" by (auto simp: rbind_eq_Inr)
    from end_node_provides [OF s1(1) Cons.prems(2)] obtain E where E: "node_part R nodes n E" "provides s1 (D \<union> E)" by blast
    from Cons.IH [OF s1(2) E(2)] obtain Es where "list_all2 (node_part R nodes) ns Es" "provides t (D \<union> E \<union> \<Union>(set Es))" by blast
    with E(1) show ?case by (intro exI [of _ "E # Es"]) (simp add: Un_assoc)
  qed simp
  from this [OF t provides_NewState] obtain Es where Es: "list_all2 (node_part R nodes) nodes Es" "provides t (\<Union>(set Es))" by auto
  have "provides e (\<Union>(set Es) \<union> (\<Union>svc \<in> set services. supplied_by_service R svc)) \<and> (\<forall>svc \<in> set services. True)"
  proof (rule fold_provides [OF e Es(2)])
    fix svc s s' D
    assume s: "provides s D" and m: "merge_res (ServiceResources_State R svc) s = Inr s'"
    show "provides s' (D \<union> supplied_by_service R svc) \<and> True"
    proof (rule merge_provides [OF m s])
      fix u assume u: "ServiceResources_State R svc = Inr u"
      have base: "provides (State_Add NewState (sv_Resources svc)) (set (sv_Resources svc))" using provides_Add [OF provides_NewState] by simp
      show "provides u (supplied_by_service R svc) \<and> True"
      proof (cases "sv_MonitorResource svc")
        case None
        with u base show ?thesis by (simp add: ServiceResources_State_def supplied_by_service_def)
      next
        case (Some r)
        with u have "add_resources R [r] (State_Add NewState (sv_Resources svc)) = Inr u" by (simp add: ServiceResources_State_def)
        from provides_resources [OF this base] Some show ?thesis by (simp add: supplied_by_service_def)
      qed
    qed
  qed
  with Es(1) show ?thesis by blast
qed

lemma peer_resources_iff:
  "r \<in> set (peer_resources n nodes) \<longleftrightarrow> (\<exists>p \<in> set nodes. nr_NodeName p \<noteq> nr_NodeName n \<and>
     (r = ReplicationSlot \<lparr>rs_DatabaseName = nr_DatabaseName n, rs_ProviderNode = nr_NodeName n, rs_SubscriberNode = nr_NodeName p\<rparr> \<or>
      r = Subscription \<lparr>sb_DatabaseName = nr_DatabaseName n, sb_SubscriberNode = nr_NodeName p, sb_ProviderNode = nr_NodeName n,
        sb_Disabled = False, sb_SyncStructure = False, sb_SyncData = False, sb_ExtraDependencies = [], sb_NeedsUpdate = False\<rparr>))"
  by (auto simp: peer_resources_def)

text \<open>The identifiers of a node in an end state.\<close>

lemma node_part_present:
  assumes "node_part R nodes n E"
  shows "NodeResourceIdentifier (nr_NodeName n) \<in> Identifier ` E"
    and "PostgresDatabaseResourceIdentifier (nr_NodeName n) (nr_DatabaseName n) \<in> Identifier ` E"
    and "i \<in> set (nr_InstanceResources n) \<Longrightarrow> InstanceResourceIdentifier (instance_ID i) \<in> Identifier ` E \<and>
      InstanceMonitorResourceIdentifier (instance_ID i) \<in> Identifier ` E \<and> Identifier ` set (in_DatabaseDependencies i) \<subseteq> Identifier ` E"
    and "p \<in> set nodes \<Longrightarrow> nr_NodeName p \<noteq> nr_NodeName n \<Longrightarrow>
      ReplicationSlotResourceIdentifier (nr_NodeName n) (nr_NodeName p) (nr_DatabaseName n) \<in> Identifier ` E \<and>
      SubscriptionResourceIdentifier (nr_NodeName n) (nr_NodeName p) (nr_DatabaseName n) \<in> Identifier ` E"
proof -
  from assms obtain nd db m where E: "E = supplied_by_node R n \<union> made R [nd, db] \<union> (\<Union>i \<in> set (nr_InstanceResources n). made R [m i]) \<union> made R (peer_resources n nodes)"
    and nd: "describes nd (NodeResourceIdentifier (nr_NodeName n)) (map (InstanceResourceIdentifier \<circ> instance_ID) (nr_InstanceResources n))"
    and db: "describes db (PostgresDatabaseResourceIdentifier (nr_NodeName n) (nr_DatabaseName n))
       (NodeResourceIdentifier (nr_NodeName n) # concat (map (\<lambda>i. map Identifier (in_DatabaseDependencies i)) (nr_InstanceResources n)))"
    and conv: "convertible R [nd]" "convertible R [db]" "convertible R (peer_resources n nodes)"
    and m: "\<forall>i \<in> set (nr_InstanceResources n). describes (m i) (InstanceMonitorResourceIdentifier (instance_ID i)) [InstanceResourceIdentifier (instance_ID i)] \<and>
        convertible R [m i] \<and> convertible R [Instance (in_Instance i)]"
    unfolding node_part_def by (auto simp: convertible_def)
  show "NodeResourceIdentifier (nr_NodeName n) \<in> Identifier ` E"
    by (rule describes_in [OF nd conv(1)]) (auto simp: E made_Cons [of R nd "[db]"])
  show "PostgresDatabaseResourceIdentifier (nr_NodeName n) (nr_DatabaseName n) \<in> Identifier ` E"
    by (rule describes_in [OF db conv(2)]) (auto simp: E made_Cons [of R nd "[db]"])
  show "InstanceResourceIdentifier (instance_ID i) \<in> Identifier ` E \<and> InstanceMonitorResourceIdentifier (instance_ID i) \<in> Identifier ` E \<and>
      Identifier ` set (in_DatabaseDependencies i) \<subseteq> Identifier ` E" if i: "i \<in> set (nr_InstanceResources n)"
  proof (intro conjI)
    show "InstanceResourceIdentifier (instance_ID i) \<in> Identifier ` E"
      by (rule describes_in [OF Instance_describes, of R]) (use m i in \<open>auto simp: E supplied_by_node_def\<close>)
    show "InstanceMonitorResourceIdentifier (instance_ID i) \<in> Identifier ` E"
      by (rule describes_in [where R = R and r = "m i"]) (use m i in \<open>auto simp: E\<close>)
    show "Identifier ` set (in_DatabaseDependencies i) \<subseteq> Identifier ` E" using i by (auto simp: E supplied_by_node_def)
  qed
  show "ReplicationSlotResourceIdentifier (nr_NodeName n) (nr_NodeName p) (nr_DatabaseName n) \<in> Identifier ` E \<and>
      SubscriptionResourceIdentifier (nr_NodeName n) (nr_NodeName p) (nr_DatabaseName n) \<in> Identifier ` E"
    if p: "p \<in> set nodes" "nr_NodeName p \<noteq> nr_NodeName n"
  proof -
    have "rm_Identifier (db_methods r) \<in> Identifier ` E" if "r \<in> set (peer_resources n nodes)" for r
      using made_present [OF conv(3) that] by (force simp: E)
    from this [unfolded peer_resources_iff] p show ?thesis
      by (fastforce simp: ReplicationSlotResource_methods_def SubscriptionResource_methods_def)
  qed
qed

definition supplied :: "('i db_resource, 'w) resource_iface \<Rightarrow> 'i NodeResources list \<Rightarrow> 'i ServiceResources list \<Rightarrow> resource_data set" where
  "supplied R nodes services = (\<Union>n \<in> set nodes. supplied_by_node R n) \<union> (\<Union>svc \<in> set services. supplied_by_service R svc)"

text \<open>The dependencies of what an end state adds for a node.\<close>

lemma node_part_dependencies:
  assumes "node_part R nodes n E" and r: "r \<in> E" and d: "d \<in> set (Dependencies r)"
  shows "r \<in> supplied_by_node R n \<or> d \<in> Identifier ` E \<or>
    (\<exists>p \<in> set nodes. d = PostgresDatabaseResourceIdentifier (nr_NodeName p) (nr_DatabaseName n))"
proof -
  note present = node_part_present [OF assms(1)]
  from assms(1) obtain nd db m where E: "E = supplied_by_node R n \<union> made R [nd, db] \<union> (\<Union>i \<in> set (nr_InstanceResources n). made R [m i]) \<union> made R (peer_resources n nodes)"
    and nd: "describes nd (NodeResourceIdentifier (nr_NodeName n)) (map (InstanceResourceIdentifier \<circ> instance_ID) (nr_InstanceResources n))"
    and db: "describes db (PostgresDatabaseResourceIdentifier (nr_NodeName n) (nr_DatabaseName n))
       (NodeResourceIdentifier (nr_NodeName n) # concat (map (\<lambda>i. map Identifier (in_DatabaseDependencies i)) (nr_InstanceResources n)))"
    and m: "\<forall>i \<in> set (nr_InstanceResources n). describes (m i) (InstanceMonitorResourceIdentifier (instance_ID i)) [InstanceResourceIdentifier (instance_ID i)]"
    unfolding node_part_def by auto
  from r consider "r \<in> supplied_by_node R n" | "r \<in> made R [nd]" | "r \<in> made R [db]"
    | i where "i \<in> set (nr_InstanceResources n)" "r \<in> made R [m i]" | "r \<in> made R (peer_resources n nodes)"
    unfolding E made_Cons [of R nd "[db]"] by blast
  then show ?thesis
  proof cases
    case 2
    from describes_made [OF nd this] d present(3) show ?thesis by fastforce
  next
    case 3
    from describes_made [OF db this] d present(1,3) show ?thesis by fastforce
  next
    case 4
    from describes_made [OF bspec [OF m 4(1)] 4(2)] d present(3) [OF 4(1)] show ?thesis by auto
  next
    case 5
    then obtain g where g: "g \<in> set (peer_resources n nodes)" "ToResourceData (db_iface R) g = Inr r" by (auto simp: made_def)
    then obtain p where p: "p \<in> set nodes" "nr_NodeName p \<noteq> nr_NodeName n" and
      "g = ReplicationSlot \<lparr>rs_DatabaseName = nr_DatabaseName n, rs_ProviderNode = nr_NodeName n, rs_SubscriberNode = nr_NodeName p\<rparr> \<or>
       g = Subscription \<lparr>sb_DatabaseName = nr_DatabaseName n, sb_SubscriberNode = nr_NodeName p, sb_ProviderNode = nr_NodeName n,
        sb_Disabled = False, sb_SyncStructure = False, sb_SyncData = False, sb_ExtraDependencies = [], sb_NeedsUpdate = False\<rparr>"
      unfolding peer_resources_iff by blast
    with convert_fields [OF g(2)] d have "d \<in> {PostgresDatabaseResourceIdentifier (nr_NodeName n) (nr_DatabaseName n),
        PostgresDatabaseResourceIdentifier (nr_NodeName p) (nr_DatabaseName n),
        ReplicationSlotResourceIdentifier (nr_NodeName n) (nr_NodeName p) (nr_DatabaseName n)}"
      by (auto simp: ReplicationSlotResource_methods_def SubscriptionResource_methods_def)
    with present(2) present(4) [OF p] p(1) show ?thesis by blast
  qed blast
qed

text \<open>
  C8. The end state of a database connects its nodes. For nodes of one database it has the node, its
  database, its instances and their monitors, and a replication slot and a subscription from every node to
  every other one. And nothing that \<^verbatim>\<open>EndState\<close> adds to the supplied resources lacks a dependency.
\<close>
theorem EndState_connects_nodes:
  assumes run: "EndState R nodes services = Inr e" and db: "\<forall>n \<in> set nodes. nr_DatabaseName n = dbName"
  shows "(\<forall>n \<in> set nodes.
      State_Get e (NodeResourceIdentifier (nr_NodeName n)) \<noteq> None \<and>
      State_Get e (PostgresDatabaseResourceIdentifier (nr_NodeName n) dbName) \<noteq> None \<and>
      (\<forall>i \<in> set (nr_InstanceResources n). State_Get e (InstanceResourceIdentifier (instance_ID i)) \<noteq> None \<and>
         State_Get e (InstanceMonitorResourceIdentifier (instance_ID i)) \<noteq> None) \<and>
      (\<forall>p \<in> set nodes. nr_NodeName p \<noteq> nr_NodeName n \<longrightarrow>
         State_Get e (ReplicationSlotResourceIdentifier (nr_NodeName n) (nr_NodeName p) dbName) \<noteq> None \<and>
         State_Get e (SubscriptionResourceIdentifier (nr_NodeName n) (nr_NodeName p) dbName) \<noteq> None)) \<and>
    (\<forall>r \<in> set (all_resources e). r \<in> supplied R nodes services \<or> (\<forall>d \<in> set (Dependencies r). State_Get e d \<noteq> None))"
proof -
  from EndState_provides [OF run] obtain Es where Es: "list_all2 (node_part R nodes) nodes Es"
    and e: "provides e (\<Union>(set Es) \<union> (\<Union>svc \<in> set services. supplied_by_service R svc))" by blast
  have part: "\<exists>E \<in> set Es. node_part R nodes n E" if "n \<in> set nodes" for n
    using Es that by (metis list_all2_conv_all_nth in_set_conv_nth nth_mem)
  have node: "\<exists>n \<in> set nodes. node_part R nodes n E" if "E \<in> set Es" for E
    using Es that by (metis list_all2_conv_all_nth in_set_conv_nth nth_mem)
  have got: "State_Get e i \<noteq> None" if "i \<in> Identifier ` E" "E \<in> set Es" for i E
    using e that unfolding provides_def by blast
  have first: "State_Get e (NodeResourceIdentifier (nr_NodeName n)) \<noteq> None"
    "State_Get e (PostgresDatabaseResourceIdentifier (nr_NodeName n) dbName) \<noteq> None"
    "i \<in> set (nr_InstanceResources n) \<Longrightarrow> State_Get e (InstanceResourceIdentifier (instance_ID i)) \<noteq> None \<and>
       State_Get e (InstanceMonitorResourceIdentifier (instance_ID i)) \<noteq> None"
    "p \<in> set nodes \<Longrightarrow> nr_NodeName p \<noteq> nr_NodeName n \<Longrightarrow>
       State_Get e (ReplicationSlotResourceIdentifier (nr_NodeName n) (nr_NodeName p) dbName) \<noteq> None \<and>
       State_Get e (SubscriptionResourceIdentifier (nr_NodeName n) (nr_NodeName p) dbName) \<noteq> None" if n: "n \<in> set nodes" for n i p
  proof -
    from part [OF n] obtain E where E: "E \<in> set Es" "node_part R nodes n E" by blast
    note present = node_part_present [OF E(2)]
    show "State_Get e (NodeResourceIdentifier (nr_NodeName n)) \<noteq> None" by (rule got [OF present(1) E(1)])
    show "State_Get e (PostgresDatabaseResourceIdentifier (nr_NodeName n) dbName) \<noteq> None" using got [OF present(2) E(1)] db n by simp
    show "State_Get e (InstanceResourceIdentifier (instance_ID i)) \<noteq> None \<and> State_Get e (InstanceMonitorResourceIdentifier (instance_ID i)) \<noteq> None"
      if "i \<in> set (nr_InstanceResources n)" using present(3) [OF that] got [OF _ E(1)] by blast
    show "State_Get e (ReplicationSlotResourceIdentifier (nr_NodeName n) (nr_NodeName p) dbName) \<noteq> None \<and>
       State_Get e (SubscriptionResourceIdentifier (nr_NodeName n) (nr_NodeName p) dbName) \<noteq> None"
      if "p \<in> set nodes" "nr_NodeName p \<noteq> nr_NodeName n"
      using present(4) [OF that] got [OF _ E(1)] db n by auto
  qed
  have "r \<in> supplied R nodes services \<or> (\<forall>d \<in> set (Dependencies r). State_Get e d \<noteq> None)" if r: "r \<in> set (all_resources e)" for r
  proof -
    have "State_Get e (Identifier r) = Some r" using all_resources_iff r e by (auto simp: provides_def)
    with e have "r \<in> \<Union>(set Es) \<union> (\<Union>svc \<in> set services. supplied_by_service R svc)" unfolding provides_def by blast
    then consider E where "E \<in> set Es" "r \<in> E" | "r \<in> supplied R nodes services" unfolding supplied_def by blast
    then show ?thesis
    proof cases
      case 1
      from node [OF 1(1)] obtain n where n: "n \<in> set nodes" "node_part R nodes n E" by blast
      have "State_Get e d \<noteq> None" if "r \<notin> supplied R nodes services" "d \<in> set (Dependencies r)" for d
        using node_part_dependencies [OF n(2) 1(2) that(2)] that(1) got [OF _ 1(1), of d] first(2) n(1) db unfolding supplied_def by auto
      then show ?thesis by blast
    qed blast
  qed
  with first show ?thesis by blast
qed

text \<open>Conversions that cannot fail.\<close>

definition converts :: "('i db_resource, 'w) resource_iface \<Rightarrow> bool" where
  "converts R \<longleftrightarrow> (\<forall>r. \<exists>d. ToResourceData (db_iface R) r = Inr d)"

lemma add_resources_total: "converts R \<Longrightarrow> \<exists>s'. add_resources R rs s = Inr s'"
proof -
  assume "converts R"
  then have "\<exists>s'. AddResource (db_iface R) rs s = Inr s'" unfolding AddResource_def converts_def
    by (intro fold_res_total rbind_total) auto
  then show ?thesis by (auto simp: add_resources_def)
qed

lemma merge_res_total: "\<exists>t. r = Inr t \<Longrightarrow> \<exists>s'. merge_res r s = Inr s'"
  by (auto simp: merge_res_def)

lemma parts_total:
  assumes "converts R"
  shows "\<exists>s. InstanceState R i = Inr s" "\<exists>s. nodeResourceState R n = Inr s" "\<exists>s. databaseResourceState R n = Inr s"
    "\<exists>s. ServiceResources_State R svc = Inr s"
proof -
  note add = add_resources_total [OF assms]
  show "\<exists>s. InstanceState R i = Inr s" "\<exists>s. nodeResourceState R n = Inr s"
    by (simp_all add: InstanceState_def nodeResourceState_def Let_def add)
  show "\<exists>s. ServiceResources_State R svc = Inr s" by (auto simp: ServiceResources_State_def Let_def add split: option.splits)
  have "\<exists>x. fold_res (add_monitor R) is a = Inr x" for "is" a
  proof (rule fold_res_total)
    fix i acc
    show "\<exists>s'. add_monitor R i acc = Inr s'"
      unfolding add_monitor_def by (cases acc) (simp only: prod.case, rule rbind_total, rule add, rule exI, rule refl)
  qed
  then show "\<exists>s. databaseResourceState R n = Inr s" unfolding databaseResourceState_def by (intro rbind_total) (auto intro: add)
qed

lemma EndState_total: "converts R \<Longrightarrow> \<exists>e. EndState R nodes services = Inr e"
  unfolding EndState_def end_node_def
  by (intro rbind_total fold_res_total merge_res_total parts_total add_resources_total)

lemma sample_converts: "converts sample_iface"
  by (auto simp: converts_def ToResourceData_def db_iface_def sample_iface_def)

theorem EndState_connects_nodes_witness:
  "\<exists>e. EndState sample_iface [sample_node, sample_node\<lparr>nr_NodeName := ''n2''\<rparr>] [] = Inr e \<and>
     State_Get e (SubscriptionResourceIdentifier ''n1'' ''n2'' ''app'') \<noteq> None \<and>
     State_Get e (SubscriptionResourceIdentifier ''n2'' ''n1'' ''app'') \<noteq> None"
proof -
  let ?ns = "[sample_node, sample_node\<lparr>nr_NodeName := ''n2''\<rparr>]"
  obtain e where e: "EndState sample_iface ?ns [] = Inr e" using EndState_total [OF sample_converts] by blast
  have names: "nr_NodeName sample_node = ''n1''" "\<forall>n \<in> set ?ns. nr_DatabaseName n = ''app''" by (simp_all add: sample_node_def)
  note c = conjunct1 [OF EndState_connects_nodes [OF e names(2)]]
  from bspec [OF c, of sample_node] bspec [OF c, of "sample_node\<lparr>nr_NodeName := ''n2''\<rparr>"] e names(1) show ?thesis by auto
qed

section \<open>Populating a node\<close>

lemma id3_inject:
  assumes "id3 a b c = id3 a' b' c'" and "CHR '':'' \<notin> set a \<union> set b \<union> set a' \<union> set b'"
  shows "a = a' \<and> b = b' \<and> c = c'"
proof -
  have split: "x = x' \<and> y = y'" if "x @ CHR '':'' # y = x' @ CHR '':'' # y'" "CHR '':'' \<notin> set x" "CHR '':'' \<notin> set x'" for x y x' y' :: string
    using that
  proof (induction x arbitrary: x')
    case Nil
    then show ?case by (cases x') auto
  next
    case (Cons c x)
    then show ?case by (cases x') auto
  qed
  from assms have "a = a' \<and> b @ CHR '':'' # c = b' @ CHR '':'' # c'" by (intro split) (auto simp: id3_def)
  with split [of b c b' c'] assms(2) show ?thesis by simp
qed

lemma ReplicationSlotName_inject: "ReplicationSlotName db p n = ReplicationSlotName db q n \<Longrightarrow> p = q"
proof -
  assume "ReplicationSlotName db p n = ReplicationSlotName db q n"
  then have eq: "p @ ''_sub_'' @ p @ ''_'' @ n = q @ ''_sub_'' @ q @ ''_'' @ n" by (simp add: ReplicationSlotName_def subName_def)
  from arg_cong [OF eq, of length] have "length p = length q" by simp
  with eq show ?thesis by simp
qed

lemma find_SomeD: "find P xs = Some r \<Longrightarrow> r \<in> set xs \<and> P r"
  by (induction xs) (auto split: if_splits)

lemma State_Add_unique:
  assumes "state_wf s" and "d \<in> set ds" and "\<forall>d' \<in> set ds. Identifier d' = Identifier d \<longrightarrow> d' = d"
  shows "State_Get (State_Add s ds) (Identifier d) = Some d"
proof -
  have "State_Get (State_Add s ds) (Identifier d) \<noteq> None" using assms(2) by (simp add: State_Add_present [OF assms(1)])
  then obtain r where r: "find (\<lambda>d'. Identifier d' = Identifier d) (rev ds) = Some r"
    using assms by (cases "find (\<lambda>d'. Identifier d' = Identifier d) (rev ds)") (auto simp: find_None_iff)
  then have "r \<in> set ds" "Identifier r = Identifier d" using find_SomeD [OF r] by simp_all
  with assms(3) have "r = d" by blast
  with r show ?thesis by (simp add: State_Add_get [OF assms(1)])
qed

lemma add_resources_append: "add_resources R (xs @ ys) s = rbind (add_resources R xs s) (add_resources R ys)"
  by (cases "AddResource (db_iface R) xs s") (simp_all add: add_resources_def AddResource_def fold_res_append)

lemma add_resources_concat: "fold_res (\<lambda>x. add_resources R (f x)) xs s = add_resources R (concat (map f xs)) s"
proof (induction xs arbitrary: s)
  case (Cons x xs)
  have "fold_res (\<lambda>x. add_resources R (f x)) xs = add_resources R (concat (map f xs))" using Cons.IH by blast
  then show ?case by (simp add: add_resources_append)
qed simp

definition populate_resources :: "'i NodeResources \<Rightarrow> string list \<Rightarrow> 'i db_resource list" where
  "populate_resources node names = concat (map (\<lambda>peer. peer_sync_resources (nr_DatabaseName node) peer (nr_SourceNode node) (nr_NodeName node))
       (sync_peers node names)) @
     sync_resources (nr_DatabaseName node) (concat (map (\<lambda>peer. [WaitForSyncEventResourceIdentifier peer (nr_SourceNode node) (nr_DatabaseName node),
       PeerCatchupResourceIdentifier (nr_SourceNode node) peer (nr_DatabaseName node)]) (sync_peers node names))) (nr_SourceNode node) (nr_NodeName node)"

lemma PopulateNode_adds:
  assumes "PopulateNode R node names = Inr s"
  shows "\<exists>t. state_wf t \<and> add_resources R (populate_resources node names) t = Inr s"
proof -
  from assms obtain t where t: "merge_res (databaseResourceState R node) NewState = Inr t"
    and s: "add_resources R (populate_resources node names) t = Inr s"
    unfolding PopulateNode_def Let_def rbind_eq_Inr [of "merge_res _ _"] addPeerResources_def addSyncResources_def
      populate_resources_def add_resources_append add_resources_concat [symmetric] by blast
  have "state_wf t" by (rule merge_res_wf [OF t]) (auto intro: databaseResourceState_wf)
  with s show ?thesis by blast
qed

lemmas sync_methods = ReplicationSlotResource_methods_def SubscriptionResource_methods_def ReplicationSlotCreateResource_methods_def
  SyncEventResource_methods_def WaitForSyncEventResource_methods_def PeerCatchupResource_methods_def
  LagTrackerCommitTimestampResource_methods_def ReplicationSlotAdvanceFromCTSResource_methods_def
  ReplicationOriginAdvanceResource_methods_def

lemmas sync_identifiers = ReplicationSlotResourceIdentifier_def SubscriptionResourceIdentifier_def
  ReplicationSlotCreateResourceIdentifier_def SyncEventResourceIdentifier_def WaitForSyncEventResourceIdentifier_def
  PeerCatchupResourceIdentifier_def LagTrackerCommitTSIdentifier_def ReplicationSlotAdvanceFromCTSResourceIdentifier_def
  ReplicationOriginAdvanceResourceIdentifier_def

lemma id3_iff:
  "CHR '':'' \<notin> set a \<Longrightarrow> CHR '':'' \<notin> set b \<Longrightarrow> CHR '':'' \<notin> set a' \<Longrightarrow> CHR '':'' \<notin> set b' \<Longrightarrow>
     id3 a b c = id3 a' b' c' \<longleftrightarrow> a = a' \<and> b = b' \<and> c = c'"
  using id3_inject [of a b c a' b' c'] by auto

lemma peer_sync_distinct:
  assumes "CHR '':'' \<notin> set q" "CHR '':'' \<notin> set q'" "CHR '':'' \<notin> set src" "CHR '':'' \<notin> set n"
    and "g \<in> set (peer_sync_resources db q src n)" "g' \<in> set (peer_sync_resources db q' src n)"
    and "rm_Identifier (db_methods g) = rm_Identifier (db_methods g')"
  shows "g = g'"
  using assms(5-) by (auto simp: peer_sync_resources_def sync_methods sync_identifiers id3_iff assms(1-4) dest!: ReplicationSlotName_inject)

lemma peer_sync_other:
  assumes "CHR '':'' \<notin> set q" "CHR '':'' \<notin> set src" "CHR '':'' \<notin> set n" and "q \<noteq> src"
    and "g \<in> set (peer_sync_resources db q src n)" "g' \<in> set (sync_resources db w src n)"
  shows "rm_Identifier (db_methods g) \<noteq> rm_Identifier (db_methods g')"
  using assms(5-) by (auto simp: peer_sync_resources_def sync_resources_def sync_methods sync_identifiers id3_iff assms(1-4))

lemma sync_distinct:
  assumes "g \<in> set (sync_resources db w src n)" "g' \<in> set (sync_resources db w src n)"
    and "rm_Identifier (db_methods g) = rm_Identifier (db_methods g')"
  shows "g = g'"
  using assms by (auto simp: sync_resources_def sync_methods sync_identifiers)

definition names_ok :: "'i NodeResources \<Rightarrow> string list \<Rightarrow> bool" where
  "names_ok node names \<longleftrightarrow> (\<forall>x \<in> set (nr_NodeName node # nr_SourceNode node # names). CHR '':'' \<notin> set x)"

lemma populate_distinct:
  assumes ok: "names_ok node names" and g: "g \<in> set (populate_resources node names)" "g' \<in> set (populate_resources node names)"
    and eq: "rm_Identifier (db_methods g) = rm_Identifier (db_methods g')"
  shows "g = g'"
proof -
  let ?db = "nr_DatabaseName node" and ?s = "nr_SourceNode node" and ?n = "nr_NodeName node"
  let ?w = "concat (map (\<lambda>peer. [WaitForSyncEventResourceIdentifier peer ?s ?db, PeerCatchupResourceIdentifier ?s peer ?db]) (sync_peers node names))"
  have free: "CHR '':'' \<notin> set ?s" "CHR '':'' \<notin> set ?n" using ok by (simp_all add: names_ok_def)
  have peer: "CHR '':'' \<notin> set q" "q \<noteq> ?s" if "q \<in> set (sync_peers node names)" for q
    using that ok by (auto simp: names_ok_def sync_peers_def)
  have split: "(\<exists>q \<in> set (sync_peers node names). x \<in> set (peer_sync_resources ?db q ?s ?n)) \<or> x \<in> set (sync_resources ?db ?w ?s ?n)"
    if "x \<in> set (populate_resources node names)" for x using that by (auto simp: populate_resources_def)
  from split [OF g(1)] split [OF g(2)] show ?thesis
  proof (elim disjE bexE)
    fix q q' assume q: "q \<in> set (sync_peers node names)" "q' \<in> set (sync_peers node names)"
      and "g \<in> set (peer_sync_resources ?db q ?s ?n)" "g' \<in> set (peer_sync_resources ?db q' ?s ?n)"
    with eq show "g = g'" using peer_sync_distinct [OF peer(1) [OF q(1)] peer(1) [OF q(2)] free] by blast
  next
    fix q assume q: "q \<in> set (sync_peers node names)" and "g \<in> set (peer_sync_resources ?db q ?s ?n)" "g' \<in> set (sync_resources ?db ?w ?s ?n)"
    with eq show "g = g'" using peer_sync_other [OF peer(1) [OF q] free peer(2) [OF q]] by blast
  next
    fix q assume q: "q \<in> set (sync_peers node names)" and "g' \<in> set (peer_sync_resources ?db q ?s ?n)" "g \<in> set (sync_resources ?db ?w ?s ?n)"
    with eq [symmetric] show "g = g'" using peer_sync_other [OF peer(1) [OF q] free peer(2) [OF q]] by blast
  next
    assume "g \<in> set (sync_resources ?db ?w ?s ?n)" "g' \<in> set (sync_resources ?db ?w ?s ?n)"
    with eq show "g = g'" by (intro sync_distinct)
  qed
qed

text \<open>One resource of a state is a transitive dependency of another.\<close>

definition comes_before :: "state \<Rightarrow> ident \<Rightarrow> ident \<Rightarrow> bool" where
  "comes_before s i j \<longleftrightarrow> (\<exists>a b. State_Get s i = Some a \<and> State_Get s j = Some b \<and> (a, b) \<in> (dependency_edges s)\<^sup>+)"

lemma comes_before_trans: "comes_before s i j \<Longrightarrow> comes_before s j k \<Longrightarrow> comes_before s i k"
  unfolding comes_before_def by (auto intro: trancl_trans)

lemma populate_edge:
  assumes run: "PopulateNode R node names = Inr s" and ok: "names_ok node names"
    and g: "g \<in> set (populate_resources node names)" "g' \<in> set (populate_resources node names)"
    and dep: "rm_Identifier (db_methods g) \<in> set (rm_Dependencies (db_methods g'))"
  shows "comes_before s (rm_Identifier (db_methods g)) (rm_Identifier (db_methods g'))"
proof -
  from PopulateNode_adds [OF run] obtain t where t: "state_wf t" "add_resources R (populate_resources node names) t = Inr s" by blast
  from add_resources_Inr [OF t(2)] obtain ds where ds: "map (ToResourceData (db_iface R)) (populate_resources node names) = map Inr ds"
    and s: "s = State_Add t ds" by blast
  from ds have img: "ToResourceData (db_iface R) ` set (populate_resources node names) = Inr ` set ds" by (metis image_set)
  have from_ds: "\<exists>x \<in> set (populate_resources node names). ToResourceData (db_iface R) x = Inr d" if "d \<in> set ds" for d
  proof -
    have "Inr d \<in> ToResourceData (db_iface R) ` set (populate_resources node names)" unfolding img using that by (rule imageI)
    then show ?thesis by force
  qed
  have got: "\<exists>d. ToResourceData (db_iface R) x = Inr d \<and> State_Get s (rm_Identifier (db_methods x)) = Some d"
    if x: "x \<in> set (populate_resources node names)" for x
  proof -
    have "ToResourceData (db_iface R) x \<in> Inr ` set ds" using img x by blast
    then obtain d where d: "ToResourceData (db_iface R) x = Inr d" "d \<in> set ds" by blast
    have "d' = d" if d': "d' \<in> set ds" "Identifier d' = Identifier d" for d'
    proof -
      from from_ds [OF d'(1)] obtain y where y: "y \<in> set (populate_resources node names)" "ToResourceData (db_iface R) y = Inr d'" by blast
      with d'(2) convert_fields [OF d(1)] convert_fields [OF y(2)] have "x = y" by (intro populate_distinct [OF ok x y(1)]) simp
      with d(1) y(2) show ?thesis by simp
    qed
    then have "State_Get s (Identifier d) = Some d" unfolding s by (intro State_Add_unique [OF t(1) d(2)]) blast
    with d(1) convert_fields [OF d(1)] show ?thesis by auto
  qed
  from got [OF g(1)] obtain a where a: "ToResourceData (db_iface R) g = Inr a" "State_Get s (rm_Identifier (db_methods g)) = Some a" by blast
  from got [OF g(2)] obtain b where b: "ToResourceData (db_iface R) g' = Inr b" "State_Get s (rm_Identifier (db_methods g')) = Some b" by blast
  have "state_wf s" unfolding s by (rule State_Add_wf [OF t(1)])
  then have "a \<in> set (all_resources s)" "b \<in> set (all_resources s)"
    using a b convert_fields [OF a(1)] convert_fields [OF b(1)] by (simp_all add: all_resources_iff)
  moreover have "depends_on b a" using convert_fields [OF a(1)] convert_fields [OF b(1)] dep by (simp add: depends_on_def)
  ultimately have "(a, b) \<in> (dependency_edges s)\<^sup>+" by (intro r_into_trancl) (simp add: dependency_edges_def)
  with a(2) b(2) show ?thesis unfolding comes_before_def by blast
qed

text \<open>
  C9. Populating a node loses no writes of its peers. In the state that adds a new node from its source, for
  every other existing node: its replication slot for the new node is created, and the source has caught up
  with it, before the subscription that copies the data from the source; and the slot, and then the origin
  on the new node, are advanced only after that subscription. Node names contain no colon.
\<close>
theorem PopulateNode_order:
  assumes run: "PopulateNode R node names = Inr s" and ok: "names_ok node names"
    and peer: "q \<in> set names" "q \<noteq> nr_NodeName node" "q \<noteq> nr_SourceNode node"
  shows "comes_before s (ReplicationSlotCreateResourceIdentifier (nr_DatabaseName node) q (nr_NodeName node))
      (SubscriptionResourceIdentifier (nr_SourceNode node) (nr_NodeName node) (nr_DatabaseName node)) \<and>
    comes_before s (PeerCatchupResourceIdentifier (nr_SourceNode node) q (nr_DatabaseName node))
      (SubscriptionResourceIdentifier (nr_SourceNode node) (nr_NodeName node) (nr_DatabaseName node)) \<and>
    comes_before s (SubscriptionResourceIdentifier (nr_SourceNode node) (nr_NodeName node) (nr_DatabaseName node))
      (ReplicationSlotAdvanceFromCTSResourceIdentifier q (nr_NodeName node) (nr_DatabaseName node)) \<and>
    comes_before s (ReplicationSlotAdvanceFromCTSResourceIdentifier q (nr_NodeName node) (nr_DatabaseName node))
      (ReplicationOriginAdvanceResourceIdentifier q (nr_NodeName node) (nr_DatabaseName node))"
proof -
  let ?db = "nr_DatabaseName node" and ?s = "nr_SourceNode node" and ?n = "nr_NodeName node"
  have q: "q \<in> set (sync_peers node names)" using peer by (simp add: sync_peers_def)
  let ?w = "concat (map (\<lambda>peer. [WaitForSyncEventResourceIdentifier peer ?s ?db, PeerCatchupResourceIdentifier ?s peer ?db]) (sync_peers node names))"
  have P: "x \<in> set (populate_resources node names)" if "x \<in> set (peer_sync_resources ?db q ?s ?n)" for x
    using that q by (auto simp: populate_resources_def)
  have S: "x \<in> set (populate_resources node names)" if "x \<in> set (sync_resources ?db ?w ?s ?n)" for x
    using that by (auto simp: populate_resources_def)
  let ?p = "\<lambda>k. peer_sync_resources ?db q ?s ?n ! k" and ?y = "\<lambda>k. sync_resources ?db ?w ?s ?n ! k"
  have p: "?p k \<in> set (populate_resources node names)" if "k < 9" for k
    by (rule P, rule nth_mem) (use that in \<open>simp add: peer_sync_resources_def\<close>)
  have y: "?y k \<in> set (populate_resources node names)" if "k < 4" for k
    by (rule S, rule nth_mem) (use that in \<open>simp add: sync_resources_def\<close>)
  note edge = populate_edge [OF run ok]
  note eval = peer_sync_resources_def sync_resources_def sync_methods
  have wait: "WaitForSyncEventResourceIdentifier q ?s ?db \<in> set ?w" "PeerCatchupResourceIdentifier ?s q ?db \<in> set ?w" using q by auto
  have "comes_before s (ReplicationSlotCreateResourceIdentifier ?db q ?n) (SyncEventResourceIdentifier q ?s ?db)"
    using edge [OF p p, of 2 3] by (simp add: eval)
  moreover have "comes_before s (SyncEventResourceIdentifier q ?s ?db) (WaitForSyncEventResourceIdentifier q ?s ?db)"
    using edge [OF p p, of 3 4] by (simp add: eval)
  moreover have "comes_before s (WaitForSyncEventResourceIdentifier q ?s ?db) (SubscriptionResourceIdentifier ?s ?n ?db)"
    using edge [OF p y, of 4 1] wait(1) by (simp add: eval)
  moreover have "comes_before s (PeerCatchupResourceIdentifier ?s q ?db) (SubscriptionResourceIdentifier ?s ?n ?db)"
    using edge [OF p y, of 5 1] wait(2) by (simp add: eval)
  moreover have "comes_before s (SubscriptionResourceIdentifier ?s ?n ?db) (SyncEventResourceIdentifier ?s ?n ?db)"
    using edge [OF y y, of 1 2] by (simp add: eval)
  moreover have "comes_before s (SyncEventResourceIdentifier ?s ?n ?db) (WaitForSyncEventResourceIdentifier ?s ?n ?db)"
    using edge [OF y y, of 2 3] by (simp add: eval)
  moreover have "comes_before s (WaitForSyncEventResourceIdentifier ?s ?n ?db) (LagTrackerCommitTSIdentifier q ?n ?db)"
    using edge [OF y p, of 3 6] by (simp add: eval)
  moreover have "comes_before s (LagTrackerCommitTSIdentifier q ?n ?db) (ReplicationSlotAdvanceFromCTSResourceIdentifier q ?n ?db)"
    using edge [OF p p, of 6 7] by (simp add: eval)
  moreover have "comes_before s (ReplicationSlotAdvanceFromCTSResourceIdentifier q ?n ?db) (ReplicationOriginAdvanceResourceIdentifier q ?n ?db)"
    using edge [OF p p, of 7 8] by (simp add: eval)
  ultimately show ?thesis by (meson comes_before_trans)
qed

lemma PopulateNode_total: "converts R \<Longrightarrow> \<exists>s. PopulateNode R node names = Inr s"
  unfolding PopulateNode_def Let_def addPeerResources_def addSyncResources_def
  by (intro rbind_total fold_res_total merge_res_total parts_total add_resources_total)

theorem PopulateNode_order_witness:
  "\<exists>s. PopulateNode sample_iface (sample_node\<lparr>nr_NodeName := ''n3'', nr_SourceNode := ''n1''\<rparr>) [''n1'', ''n2''] = Inr s \<and>
     comes_before s (ReplicationSlotCreateResourceIdentifier ''app'' ''n2'' ''n3'') (SubscriptionResourceIdentifier ''n1'' ''n3'' ''app'')"
proof -
  let ?n = "sample_node\<lparr>nr_NodeName := ''n3'', nr_SourceNode := ''n1''\<rparr>"
  obtain s where s: "PopulateNode sample_iface ?n [''n1'', ''n2''] = Inr s" using PopulateNode_total [OF sample_converts] by blast
  have "names_ok ?n [''n1'', ''n2'']" by (simp add: names_ok_def)
  from PopulateNode_order [OF s this, of "''n2''"] s show ?thesis by (simp add: sample_node_def)
qed

end
