(* ===== verification/State_Migrations.thy ===== *)
theory State_Migrations
  imports Resource_State
begin

text \<open>
  Upgrades of stored states (\<^verbatim>\<open>StateMigrations\<close> of \<^verbatim>\<open>server/internal/resource/service.go\<close>): the list of
  migrations sorted by version, the loop that runs the pending ones, and the check for duplicates. A
  migration is its version and its \<^verbatim>\<open>Run\<close> method, a function that may fail.
\<close>

record state_migration =
  mig_Version :: version
  mig_Run :: "string \<Rightarrow> state \<Rightarrow> (string, state) res"

datatype migration_error =
    ErrUpgrade version string
  | ErrDuplicateVersion string
  | NilVersionPanic

definition NewStateMigrations :: "state_migration list \<Rightarrow> state_migration list" where
  "NewStateMigrations migrations =
     sort_func (\<lambda>a b. Version_Compare (mig_Version a) (mig_Version b)) migrations"

text \<open>One turn of the loop; comparing the nil version of a state panics.\<close>

definition run_migration :: "string \<Rightarrow> state_migration \<Rightarrow> state \<Rightarrow> (migration_error, state) res" where
  "run_migration databaseID migration s =
     (case Version s of
        None \<Rightarrow> Inl NilVersionPanic
      | Some v \<Rightarrow>
          if Version_Compare v (mig_Version migration) \<ge> 0 then Inr s
          else (case mig_Run migration databaseID s of
                  Inl e \<Rightarrow> Inl (ErrUpgrade (mig_Version migration) e)
                | Inr s' \<Rightarrow> Inr (s'\<lparr>Version := Some (mig_Version migration)\<rparr>)))"

definition StateMigrations_Run :: "state_migration list \<Rightarrow> string \<Rightarrow> state \<Rightarrow> (migration_error, state) res" where
  "StateMigrations_Run migrations databaseID s = fold_res (run_migration databaseID) migrations s"

fun validate_loop :: "string dset \<Rightarrow> state_migration list \<Rightarrow> migration_error option" where
  "validate_loop seen [] = None"
| "validate_loop seen (m # ms) =
     (let version = Version_String (mig_Version m)
      in if Set_Has seen version then Some (ErrDuplicateVersion version)
         else validate_loop (Set_Add seen [version]) ms)"

definition StateMigrations_Validate :: "state_migration list \<Rightarrow> migration_error option" where
  "StateMigrations_Validate migrations = validate_loop [] migrations"

section \<open>Properties\<close>

abbreviation version_le :: "version \<Rightarrow> version \<Rightarrow> bool" where
  "version_le v w \<equiv> Components v \<le> Components w"

lemma compare_total_migrations:
  "compare_total (\<lambda>a b. Version_Compare (mig_Version a) (mig_Version b))"
  using compare_total_Version unfolding compare_total_def by blast

lemma NewStateMigrations_sorted:
  "sorted_wrt (\<lambda>a b. version_le (mig_Version a) (mig_Version b)) (NewStateMigrations ms)"
  using sorted_sort_func [OF compare_total_migrations, of ms]
  unfolding NewStateMigrations_def Version_Compare_le .

lemma run_migration_version:
  assumes "run_migration db m s = Inr s'"
  shows "\<exists>v v'. Version s = Some v \<and> Version s' = Some v' \<and> version_le (mig_Version m) v' \<and> version_le v v' \<and>
    (version_le (mig_Version m) v \<longrightarrow> s' = s)"
  using assms
  by (auto simp: run_migration_def Version_Compare_ge split: option.splits if_splits sum.splits)

lemma Run_version:
  "fold_res (run_migration db) ms s = Inr s' \<Longrightarrow> Version s = Some v \<Longrightarrow>
   \<exists>v'. Version s' = Some v' \<and> version_le v v' \<and> (\<forall>m \<in> set ms. version_le (mig_Version m) v')"
proof (induction ms arbitrary: s v)
  case Nil
  then show ?case by auto
next
  case (Cons m ms)
  from Cons.prems(1) obtain s1 where s1: "run_migration db m s = Inr s1" "fold_res (run_migration db) ms s1 = Inr s'"
    by (auto simp: rbind_eq_Inr)
  from run_migration_version [OF s1(1)] Cons.prems(2) obtain v1 where
    v1: "Version s1 = Some v1" "version_le (mig_Version m) v1" "version_le v v1" by auto
  from Cons.IH [OF s1(2) v1(1)] v1 show ?case by (auto intro: order_trans)
qed

lemma Run_nothing_pending:
  "Version s = Some v \<Longrightarrow> \<forall>m \<in> set ms. version_le (mig_Version m) v \<Longrightarrow> fold_res (run_migration db) ms s = Inr s"
  by (induction ms) (simp_all add: run_migration_def Version_Compare_ge)

text \<open>
  C30. A successful upgrade brings the state to a version at least that of every migration, never moves
  it backwards, and is complete: running the migrations again changes nothing.
\<close>
theorem StateMigrations_Run_complete:
  assumes "StateMigrations_Run ms db s = Inr s'" and "Version s = Some v"
  shows "\<exists>v'. Version s' = Some v' \<and> Version_Compare v v' \<le> 0 \<and>
    list_all (\<lambda>m. Version_Compare (mig_Version m) v' \<le> 0) ms \<and>
    StateMigrations_Run ms db s' = Inr s'"
proof -
  from Run_version [OF assms(1) [unfolded StateMigrations_Run_def] assms(2)] obtain v'
    where v': "Version s' = Some v'" "version_le v v'" "\<forall>m \<in> set ms. version_le (mig_Version m) v'" by blast
  with Run_nothing_pending [of s' v' ms db] show ?thesis
    by (simp add: Version_Compare_le StateMigrations_Run_def list_all_iff)
qed

definition no_op_migration :: "version \<Rightarrow> state_migration" where
  "no_op_migration v = \<lparr>mig_Version = v, mig_Run = (\<lambda>db s. Inr s)\<rparr>"

lemma sample_upgrade:
  "StateMigrations_Run (NewStateMigrations [no_op_migration StateVersion_1_2_0, no_op_migration StateVersion_1_1_0])
     ''db'' (NewState\<lparr>Version := Some StateVersion_1_0_0\<rparr>) = Inr (NewState\<lparr>Version := Some StateVersion_1_2_0\<rparr>)"
  by (simp add: StateMigrations_Run_def NewStateMigrations_def no_op_migration_def run_migration_def
      Version_Compare_def go_compare_def StateVersion_1_0_0_def StateVersion_1_1_0_def StateVersion_1_2_0_def)

theorem StateMigrations_Run_complete_witness:
  "StateMigrations_Run (NewStateMigrations [no_op_migration StateVersion_1_2_0, no_op_migration StateVersion_1_1_0])
     ''db'' (NewState\<lparr>Version := Some StateVersion_1_2_0\<rparr>) = Inr (NewState\<lparr>Version := Some StateVersion_1_2_0\<rparr>)"
  using StateMigrations_Run_complete [OF sample_upgrade] by simp

text \<open>
  C31. The migrations run in version order: on a list without duplicate versions an upgrade runs exactly the migrations newer than the state, in
  the order of their versions, each followed by recording its version.
\<close>
theorem StateMigrations_Run_order:
  assumes "ms = NewStateMigrations ms0" and "distinct (map mig_Version ms0)" and "Version s = Some v"
  shows "StateMigrations_Run ms db s =
    fold_res (\<lambda>m s. case mig_Run m db s of
        Inl e \<Rightarrow> Inl (ErrUpgrade (mig_Version m) e)
      | Inr s' \<Rightarrow> Inr (s'\<lparr>Version := Some (mig_Version m)\<rparr>))
      (filter (\<lambda>m. Version_Compare v (mig_Version m) < 0) ms) s \<and>
    sorted_wrt (\<lambda>a b. Version_Compare (mig_Version a) (mig_Version b) < 0) ms"
proof -
  have strict: "sorted_wrt (\<lambda>a b. Components (mig_Version a) < Components (mig_Version b)) ms"
  proof -
    have d: "distinct (map mig_Version ms)"
      using assms(1,2) by (simp add: NewStateMigrations_def distinct_map)
    have "Components (mig_Version (ms ! i)) < Components (mig_Version (ms ! j))" if "i < j" "j < length ms" for i j
    proof -
      have "version_le (mig_Version (ms ! i)) (mig_Version (ms ! j))"
        using sorted_wrt_nth_less [OF NewStateMigrations_sorted [of ms0, folded assms(1)] that] .
      moreover have "mig_Version (ms ! i) \<noteq> mig_Version (ms ! j)"
        using d that by (auto simp: distinct_conv_nth)
      then have "Components (mig_Version (ms ! i)) \<noteq> Components (mig_Version (ms ! j))"
        using Version_Compare_eq by (metis Version_Compare_def slices_compare_refl)
      ultimately show ?thesis by simp
    qed
    then show ?thesis by (simp add: sorted_wrt_iff_nth_less)
  qed
  let ?step = "\<lambda>m s. case mig_Run m db s of
        Inl e \<Rightarrow> Inl (ErrUpgrade (mig_Version m) e)
      | Inr s' \<Rightarrow> Inr (s'\<lparr>Version := Some (mig_Version m)\<rparr>)"
  have "fold_res (run_migration db) xs s = fold_res ?step (filter (\<lambda>m. Version_Compare v (mig_Version m) < 0) xs) s"
    if "sorted_wrt (\<lambda>a b. Components (mig_Version a) < Components (mig_Version b)) xs"
      "Version s = Some w" "\<forall>m \<in> set xs. Components v < Components (mig_Version m) \<longleftrightarrow> Components w < Components (mig_Version m)"
    for xs s w
    using that
  proof (induction xs arbitrary: s w)
    case Nil
    show ?case by simp
  next
    case (Cons m xs)
    show ?case
    proof (cases "Components w < Components (mig_Version m)")
      case True
      have "fold_res (run_migration db) xs (s'\<lparr>Version := Some (mig_Version m)\<rparr>) =
          fold_res ?step (filter (\<lambda>m. Version_Compare v (mig_Version m) < 0) xs) (s'\<lparr>Version := Some (mig_Version m)\<rparr>)" for s'
        using Cons.prems True by (intro Cons.IH) (auto simp: Version_Compare_less)
      with True Cons.prems show ?thesis
        by (auto simp: run_migration_def [of db m s] Version_Compare_order not_le split: sum.splits)
    next
      case False
      have "fold_res (run_migration db) xs s =
          fold_res ?step (filter (\<lambda>m. Version_Compare v (mig_Version m) < 0) xs) s"
        using Cons.prems by (intro Cons.IH [of s w]) auto
      moreover have "run_migration db m s = Inr s"
        using False Cons.prems(2) by (simp add: run_migration_def Version_Compare_ge not_less)
      moreover have "\<not> Version_Compare v (mig_Version m) < 0"
        using False Cons.prems(3) by (simp add: Version_Compare_less)
      ultimately show ?thesis by simp
    qed
  qed
  from this [OF strict assms(3)] strict show ?thesis
    by (simp add: StateMigrations_Run_def Version_Compare_less)
qed

theorem StateMigrations_Run_order_witness:
  "sorted_wrt (\<lambda>a b. Version_Compare (mig_Version a) (mig_Version b) < 0)
     (NewStateMigrations [no_op_migration StateVersion_1_2_0, no_op_migration StateVersion_1_1_0])"
  using StateMigrations_Run_order [OF refl, of "[no_op_migration StateVersion_1_2_0, no_op_migration StateVersion_1_1_0]"
      "NewState" CurrentVersion "''db''"]
  by (simp add: no_op_migration_def NewState_def StateVersion_1_1_0_def StateVersion_1_2_0_def)

text \<open>
  \<^verbatim>\<open>Validate\<close> rejects exactly the lists in which two migrations print the same version.
\<close>
theorem StateMigrations_Validate_iff:
  "StateMigrations_Validate ms = None \<longleftrightarrow> distinct (map (\<lambda>m. Version_String (mig_Version m)) ms)"
proof -
  have "set_wf seen \<Longrightarrow> validate_loop seen ms = None \<longleftrightarrow>
      distinct (map (\<lambda>m. Version_String (mig_Version m)) ms) \<and>
      set_abs seen \<inter> (\<lambda>m. Version_String (mig_Version m)) ` set ms = {}" for seen
    by (induction seen ms rule: validate_loop.induct) (auto simp: Set_Has_iff Let_def)
  from this [of "[]"] show ?thesis by (simp add: StateMigrations_Validate_def)
qed

end
