(* ===== verification/Storage_Keys.thy ===== *)
theory Storage_Keys
  imports CP_Prelude
begin

text \<open>
  Storage keys (\<^verbatim>\<open>server/internal/storage/key.go\<close>): slash-separated keys and prefixes on top of
  \<^verbatim>\<open>path.Join\<close> and \<^verbatim>\<open>path.Clean\<close> of the Go library, and the proof that a prefix operation reaches
  exactly the keys below its prefix.
\<close>

abbreviation slash :: char where
  "slash \<equiv> CHR ''/''"

section \<open>Cleaning and joining paths\<close>

text \<open>
  \<^verbatim>\<open>path.Clean\<close>: drop empty elements and dots, resolve double dots against the element before them,
  drop them at the root, and keep them at the start of a relative path.
\<close>

fun clean_elems :: "bool \<Rightarrow> string list \<Rightarrow> string list \<Rightarrow> string list" where
  "clean_elems rooted out [] = out"
| "clean_elems rooted out (e # es) =
     (if e = [] \<or> e = ''.'' then clean_elems rooted out es
      else if e = ''..'' then
        (if out \<noteq> [] \<and> last out \<noteq> ''..'' then clean_elems rooted (butlast out) es
         else if rooted then clean_elems rooted out es
         else clean_elems rooted (out @ [e]) es)
      else clean_elems rooted (out @ [e]) es)"

definition path_Clean :: "string \<Rightarrow> string" where
  "path_Clean p =
     (let rooted = (p \<noteq> [] \<and> hd p = slash);
          body = go_join (clean_elems rooted [] (go_split slash p)) [slash];
          out = (if rooted then slash # body else body)
      in if out = [] then ''.'' else out)"

definition path_Join :: "string list \<Rightarrow> string" where
  "path_Join elems =
     (let nonempty = filter (\<lambda>e. e \<noteq> []) elems
      in if nonempty = [] then [] else path_Clean (go_join nonempty [slash]))"

section \<open>Keys and prefixes\<close>

definition Prefix :: "string list \<Rightarrow> string" where
  "Prefix elem =
     (let p = path_Join elem @ [slash]
      in if \<not> has_prefix p [slash] then slash # p else p)"

definition Key :: "string list \<Rightarrow> string" where
  "Key elem =
     (let k = path_Join elem
      in if \<not> has_prefix k [slash] then slash # k else k)"

definition ensureTrailingSlash :: "string \<Rightarrow> string" where
  "ensureTrailingSlash prefix = (if \<not> has_suffix prefix [slash] then prefix @ [slash] else prefix)"

section \<open>Plain elements\<close>

text \<open>The ids and names that keys are built from: not empty, without a slash, and not a dot entry.\<close>

definition plain :: "string \<Rightarrow> bool" where
  "plain e \<longleftrightarrow> e \<noteq> [] \<and> slash \<notin> set e \<and> e \<noteq> ''.'' \<and> e \<noteq> ''..''"

text \<open>The key of a list of plain elements.\<close>

definition key_of :: "string list \<Rightarrow> string" where
  "key_of es = slash # go_join es [slash]"

lemma go_split_sep: "go_split c (s @ c # t) = go_split c s @ go_split c t"
  by (induction s) (auto split: list.splits)

lemma clean_elems_plain:
  "list_all plain (filter (\<lambda>e. e \<noteq> []) es) \<Longrightarrow> clean_elems rooted out es = out @ filter (\<lambda>e. e \<noteq> []) es"
  by (induction es arbitrary: out) (auto simp: plain_def)

lemma split_key_of:
  assumes "list_all plain es"
  shows "go_split slash (key_of es) = (if es = [] then [[], []] else [] # es)"
proof (cases "es = []")
  case True
  then show ?thesis by (simp add: key_of_def)
next
  case False
  with assms have "go_split slash (go_join es [slash]) = es"
    by (intro go_split_join) (auto simp: list_all_iff plain_def)
  with False show ?thesis by (simp add: key_of_def)
qed

lemma key_of_inj:
  assumes "list_all plain es" and "list_all plain fs"
  shows "key_of es = key_of fs \<longleftrightarrow> es = fs"
proof
  assume "key_of es = key_of fs"
  then have eq: "(if es = [] then [[], []] else [] # es) = (if fs = [] then [[], []] else [] # fs)"
    using split_key_of [OF assms(1)] split_key_of [OF assms(2)] by simp
  have "es \<noteq> [[]]" "fs \<noteq> [[]]" using assms by (auto simp: plain_def)
  with eq show "es = fs" by (cases "es = []"; cases "fs = []") simp_all
qed simp

lemma key_of_snoc: "es \<noteq> [] \<Longrightarrow> key_of (es @ [e]) = key_of es @ slash # e"
  unfolding key_of_def by (induction es "[slash]" rule: go_join.induct) auto

text \<open>The elements of a path that starts with a slash, when all of them are plain.\<close>

lemma path_Clean_rooted:
  assumes "filter (\<lambda>e. e \<noteq> []) (go_split slash p) = es" and "list_all plain es"
  shows "path_Clean (slash # p) = key_of es"
  using clean_elems_plain [of "go_split slash p" True "[]"] assms
  by (simp add: path_Clean_def key_of_def Let_def)

lemma nonempty_split_join:
  "filter (\<lambda>e. e \<noteq> []) (go_split slash (go_join es [slash])) =
   concat (map (\<lambda>e. filter (\<lambda>e. e \<noteq> []) (go_split slash e)) es)"
  by (induction es "[slash]" rule: go_join.induct) (simp_all add: go_split_sep)

text \<open>The elements that one argument of \<^verbatim>\<open>path.Join\<close> contributes.\<close>

definition elements :: "string \<Rightarrow> string list" where
  "elements e = filter (\<lambda>e. e \<noteq> []) (go_split slash e)"

lemma elements_plain [simp]: "plain e \<Longrightarrow> elements e = [e]"
  by (simp add: elements_def plain_def go_split_no_sep)

lemma elements_slash [simp]: "elements [slash] = []"
  by (simp add: elements_def)

lemma elements_key_of [simp]: "list_all plain es \<Longrightarrow> elements (key_of es) = es"
  by (auto simp: elements_def split_key_of list_all_iff plain_def intro: filter_True)

lemma elements_key_of_slash [simp]: "list_all plain es \<Longrightarrow> elements (key_of es @ [slash]) = es"
  using go_split_sep [of slash "key_of es" "[]"] elements_key_of [of es] by (simp add: elements_def)

lemma path_Join_rooted:
  assumes "hd e = slash" and "e \<noteq> []" and "concat (map elements (e # es)) = fs" and "list_all plain fs"
  shows "path_Join (e # es) = key_of fs"
proof -
  obtain e' where e: "e = slash # e'" using assms(1,2) by (cases e) auto
  let ?ne = "e # filter (\<lambda>e. e \<noteq> []) es"
  have el: "concat (map elements (filter (\<lambda>e. e \<noteq> []) es)) = concat (map elements es)"
    by (induction es) (auto simp: elements_def)
  obtain p where p: "go_join ?ne [slash] = slash # p"
    by (cases "filter (\<lambda>e. e \<noteq> []) es") (auto simp: e)
  have "filter (\<lambda>e. e \<noteq> []) (go_split slash p) = filter (\<lambda>e. e \<noteq> []) (go_split slash (slash # p))" by simp
  also have "\<dots> = concat (map elements ?ne)"
    unfolding p [symmetric] nonempty_split_join elements_def ..
  also have "\<dots> = fs" using assms(3) el by simp
  finally have "path_Clean (slash # p) = key_of fs" using assms(4) by (rule path_Clean_rooted)
  with p show ?thesis using assms(2) by (simp add: path_Join_def Let_def)
qed

lemma has_prefix_key_of [simp]: "has_prefix (key_of es) [slash]" "has_prefix (key_of es @ t) [slash]"
  by (simp_all add: key_of_def has_prefix_def)

lemma Key_plain:
  assumes "concat (map elements (e # es)) = fs" and "list_all plain fs" and "hd e = slash" and "e \<noteq> []"
  shows "Key (e # es) = key_of fs"
  using path_Join_rooted [OF assms(3,4,1,2)] by (simp add: Key_def Let_def)

lemma Prefix_plain:
  assumes "concat (map elements (e # es)) = fs" and "list_all plain fs" and "hd e = slash" and "e \<noteq> []"
  shows "Prefix (e # es) = key_of fs @ [slash]"
  using path_Join_rooted [OF assms(3,4,1,2)] by (simp add: Prefix_def Let_def)

lemma key_of_below:
  assumes "list_all plain es" and "list_all plain ds" and "ds \<noteq> []"
  shows "has_prefix (key_of es) (key_of ds @ [slash]) \<longleftrightarrow> (\<exists>rest. rest \<noteq> [] \<and> es = ds @ rest)"
proof
  assume "has_prefix (key_of es) (key_of ds @ [slash])"
  then obtain t where t: "key_of es = key_of ds @ slash # t" by (auto simp: has_prefix_iff)
  then have "es \<noteq> []" using assms(3) by (cases ds) (auto simp: key_of_def)
  then have "[] # es = go_split slash (key_of es)" using split_key_of [OF assms(1)] by simp
  also have "\<dots> = ([] # ds) @ go_split slash t"
    unfolding t go_split_sep using split_key_of [OF assms(2)] assms(3) by simp
  finally show "\<exists>rest. rest \<noteq> [] \<and> es = ds @ rest" by auto
next
  assume "\<exists>rest. rest \<noteq> [] \<and> es = ds @ rest"
  then obtain rest where "rest \<noteq> []" "es = ds @ rest" by blast
  then have "\<exists>t. key_of es = key_of ds @ slash # t"
  proof (induction rest arbitrary: es rule: rev_induct)
    case Nil
    then show ?case by simp
  next
    case (snoc r rest)
    show ?case
    proof (cases "rest = []")
      case True
      with snoc.prems assms(3) show ?thesis by (simp add: key_of_snoc)
    next
      case False
      from snoc.IH [OF False refl] obtain t where "key_of (ds @ rest) = key_of ds @ slash # t" by blast
      moreover have "key_of es = key_of (ds @ rest) @ slash # r"
        using snoc.prems assms(3) key_of_snoc [of "ds @ rest" r] by simp
      ultimately show ?thesis by simp
    qed
  qed
  then show "has_prefix (key_of es) (key_of ds @ [slash])" by (auto simp: has_prefix_iff)
qed

lemma ensureTrailingSlash_key_of: "es \<noteq> [] \<Longrightarrow> list_all plain es \<Longrightarrow> ensureTrailingSlash (key_of es) = key_of es @ [slash]"
proof -
  assume es: "es \<noteq> []" "list_all plain es"
  have "last (go_join es [slash]) = last (last es) \<and> go_join es [slash] \<noteq> []"
    using es by (induction es "[slash]" rule: go_join.induct) (auto simp: plain_def)
  moreover have "last (last es) \<noteq> slash"
    using es by (metis last_in_set list_all_iff plain_def)
  ultimately have "last (key_of es) \<noteq> slash" by (simp add: key_of_def)
  then have "\<not> has_suffix (key_of es) [slash]" unfolding has_suffix_iff by (metis last_snoc)
  then show ?thesis by (simp add: ensureTrailingSlash_def)
qed

lemma Key_below_Prefix:
  assumes "list_all plain (elements root @ ds)" and "list_all plain es"
  shows "Key (Prefix ([slash] # root # ds) # es) = key_of (elements root @ ds @ es)"
proof -
  have map: "concat (map elements xs) = xs" if "list_all plain xs" for xs
    using that by (induction xs) auto
  have pre: "Prefix ([slash] # root # ds) = key_of (elements root @ ds) @ [slash]"
    using assms by (intro Prefix_plain) (auto simp: map)
  have hd: "hd (key_of es @ [slash]) = slash" "key_of es @ [slash] \<noteq> []" for es
    by (simp_all add: key_of_def)
  have el: "elements (key_of (elements root @ ds) @ [slash]) = elements root @ ds"
    using assms(1) by (rule elements_key_of_slash)
  show ?thesis
    unfolding pre using assms by (intro Key_plain hd) (simp_all add: map el)
qed



end
