(* ===== verification/Storage_Etcd.thy ===== *)
theory Storage_Etcd
  imports Storage_Keys "HOL-Library.Finite_Map"
begin

text \<open>
  The etcd client that the storage layer calls. The client is a parameter of the model: a record of the
  calls of \<^verbatim>\<open>clientv3.Client\<close> that the code uses, over a state that stands for the rest of the world.
  The locale \<open>etcd_server\<close> states the documented behaviour of those calls: every request is executed
  atomically on the contents that the store has at that moment, after other clients have done to it
  whatever the relation \<open>rely\<close> allows. The last section gives a concrete client that obeys it.
\<close>

section \<open>Requests and responses\<close>

record kv =
  kv_Key :: string
  kv_Value :: string
  kv_Version :: int
  kv_CreateRevision :: int
  kv_ModRevision :: int
  kv_Lease :: int

datatype sort_target = SortByKey | SortByCreateRevision

datatype sort_order = SortAscend | SortDescend

datatype op_option =
    WithPrefix
  | WithRange string
  | WithLease int
  | WithPrevKV
  | WithCountOnly
  | WithLimit int
  | WithSort sort_target sort_order
  | WithSerializable
  | WithRev int

datatype client_op =
    OpPut string string "op_option list"
  | OpGet string "op_option list"
  | OpDelete string "op_option list"

fun KeyBytes :: "client_op \<Rightarrow> string" where
  "KeyBytes (OpPut k v os) = k"
| "KeyBytes (OpGet k os) = k"
| "KeyBytes (OpDelete k os) = k"

text \<open>The only comparison in use: the version of a key equals a number.\<close>

datatype cmp = CompareVersion string int

record get_response =
  gr_Revision :: int
  gr_Kvs :: "kv list"
  gr_Count :: int

datatype op_response =
    ResponsePut int "kv option"
  | ResponseRange get_response
  | ResponseDelete int int

record txn_response =
  tr_Revision :: int
  tr_Succeeded :: bool
  tr_Responses :: "op_response list"

record 's etcd_client =
  client_Do :: "client_op \<Rightarrow> 's \<Rightarrow> (string, op_response) res \<times> 's"
  client_Get :: "string \<Rightarrow> op_option list \<Rightarrow> 's \<Rightarrow> (string, get_response) res \<times> 's"
  client_Delete :: "string \<Rightarrow> op_option list \<Rightarrow> 's \<Rightarrow> (string, int \<times> int) res \<times> 's"
  client_Txn :: "cmp list \<Rightarrow> client_op list \<Rightarrow> 's \<Rightarrow> (string, txn_response) res \<times> 's"
  client_Grant :: "int \<Rightarrow> 's \<Rightarrow> (string, int) res \<times> 's"

section \<open>The contents of the store and the atomic effect of a request\<close>

type_synonym store = "(string, kv) fmap"

definition version_of :: "store \<Rightarrow> string \<Rightarrow> int" where
  "version_of m k = (case fmlookup m k of None \<Rightarrow> 0 | Some e \<Rightarrow> kv_Version e)"

fun cmp_holds :: "store \<Rightarrow> cmp \<Rightarrow> bool" where
  "cmp_holds m (CompareVersion k v) = (version_of m k = v)"

definition range_end :: "op_option list \<Rightarrow> string option" where
  "range_end os = fold (\<lambda>opt e. case opt of WithRange r \<Rightarrow> Some r | _ \<Rightarrow> e) os None"

text \<open>The keys that a request for key \<open>k\<close> addresses.\<close>

definition selects :: "string \<Rightarrow> op_option list \<Rightarrow> string \<Rightarrow> bool" where
  "selects k os key =
     (if WithPrefix \<in> set os then has_prefix key k
      else case range_end os of
        Some e \<Rightarrow> k \<le> key \<and> key < e
      | None \<Rightarrow> key = k)"

definition sort_kvs :: "op_option list \<Rightarrow> kv list \<Rightarrow> kv list" where
  "sort_kvs os kvs = fold (\<lambda>opt kvs. case opt of
       WithSort SortByKey SortDescend \<Rightarrow> rev kvs
     | WithSort SortByCreateRevision SortAscend \<Rightarrow> sort_key kv_CreateRevision kvs
     | WithSort SortByCreateRevision SortDescend \<Rightarrow> rev (sort_key kv_CreateRevision kvs)
     | _ \<Rightarrow> kvs) os kvs"

definition limit_kvs :: "op_option list \<Rightarrow> kv list \<Rightarrow> kv list" where
  "limit_kvs os kvs = fold (\<lambda>opt kvs. case opt of WithLimit n \<Rightarrow> if n > 0 then take (nat n) kvs else kvs | _ \<Rightarrow> kvs) os kvs"

definition selected :: "string \<Rightarrow> op_option list \<Rightarrow> store \<Rightarrow> kv list" where
  "selected k os m = map (\<lambda>key. the (fmlookup m key)) (sorted_list_of_fset (ffilter (selects k os) (fmdom m)))"

definition range_response :: "int \<Rightarrow> string \<Rightarrow> op_option list \<Rightarrow> store \<Rightarrow> get_response" where
  "range_response r k os m = \<lparr>gr_Revision = r,
     gr_Kvs = (if WithCountOnly \<in> set os then [] else limit_kvs os (sort_kvs os (selected k os m))),
     gr_Count = int (length (selected k os m))\<rparr>"

definition lease_of :: "op_option list \<Rightarrow> int" where
  "lease_of os = fold (\<lambda>opt l. case opt of WithLease i \<Rightarrow> i | _ \<Rightarrow> l) os 0"

definition written :: "int \<Rightarrow> string \<Rightarrow> string \<Rightarrow> op_option list \<Rightarrow> store \<Rightarrow> kv" where
  "written r k v os m = \<lparr>kv_Key = k, kv_Value = v, kv_Version = version_of m k + 1,
     kv_CreateRevision = (case fmlookup m k of None \<Rightarrow> r | Some e \<Rightarrow> kv_CreateRevision e),
     kv_ModRevision = r, kv_Lease = lease_of os\<rparr>"

text \<open>One operation at a revision: the response and the contents afterwards.\<close>

fun etcd_op :: "int \<Rightarrow> client_op \<Rightarrow> store \<Rightarrow> op_response \<times> store" where
  "etcd_op r (OpPut k v os) m =
     (ResponsePut r (if WithPrevKV \<in> set os then fmlookup m k else None), fmupd k (written r k v os m) m)"
| "etcd_op r (OpGet k os) m = (ResponseRange (range_response r k os m), m)"
| "etcd_op r (OpDelete k os) m =
     (ResponseDelete r (int (length (selected k os m))), fmfilter (\<lambda>key. \<not> selects k os key) m)"

fun etcd_ops :: "int \<Rightarrow> client_op list \<Rightarrow> store \<Rightarrow> op_response list \<times> store" where
  "etcd_ops r [] m = ([], m)"
| "etcd_ops r (op # ops) m =
     (let (resp, m1) = etcd_op r op m; (rs, m2) = etcd_ops r ops m1 in (resp # rs, m2))"

text \<open>A transaction: all comparisons are checked first, and the operations run only when all hold.\<close>

definition etcd_txn :: "int \<Rightarrow> cmp list \<Rightarrow> client_op list \<Rightarrow> store \<Rightarrow> txn_response \<times> store" where
  "etcd_txn r cmps ops m =
     (if list_all (cmp_holds m) cmps
      then (let (rs, m') = etcd_ops r ops m in (\<lparr>tr_Revision = r, tr_Succeeded = True, tr_Responses = rs\<rparr>, m'))
      else (\<lparr>tr_Revision = r, tr_Succeeded = False, tr_Responses = []\<rparr>, m))"

text \<open>Every entry of the store is kept under its own key and has been written at least once.\<close>

definition store_wf :: "store \<Rightarrow> bool" where
  "store_wf m \<longleftrightarrow> (\<forall>k e. fmlookup m k = Some e \<longrightarrow> kv_Key e = k \<and> kv_Version e \<ge> 1)"

section \<open>The contract of the server\<close>

locale etcd_server =
  fixes C :: "'s etcd_client"
    and kvs :: "'s \<Rightarrow> store"
    and rely :: "store \<Rightarrow> store \<Rightarrow> bool"
  assumes rely_refl: "rely m m"
    and rely_trans: "rely m m1 \<Longrightarrow> rely m1 m2 \<Longrightarrow> rely m m2"
    and rely_wf: "store_wf m \<Longrightarrow> rely m m' \<Longrightarrow> store_wf m'"
    and Do_law: "client_Do C op s = (Inr resp, s') \<Longrightarrow>
      \<exists>m r. rely (kvs s) m \<and> (resp, kvs s') = etcd_op r op m"
    and Get_law: "client_Get C k os s = (Inr gr, s') \<Longrightarrow>
      \<exists>m r. rely (kvs s) m \<and> gr = range_response r k os m \<and> kvs s' = m"
    and Delete_law: "client_Delete C k os s = (Inr (r, n), s') \<Longrightarrow>
      \<exists>m. rely (kvs s) m \<and> (ResponseDelete r n, kvs s') = etcd_op r (OpDelete k os) m"
    and Txn_law: "client_Txn C cmps ops s = (Inr tr, s') \<Longrightarrow>
      \<exists>m. rely (kvs s) m \<and> (tr, kvs s') = etcd_txn (tr_Revision tr) cmps ops m"
    and Txn_error_law: "client_Txn C cmps ops s = (Inl e, s') \<Longrightarrow>
      \<exists>m r. rely (kvs s) m \<and> (kvs s' = m \<or> kvs s' = snd (etcd_txn r cmps ops m))"
    and Grant_law: "client_Grant C ttl s = (res, s') \<Longrightarrow> rely (kvs s) (kvs s')"

section \<open>A concrete client\<close>

text \<open>
  A server that executes every request at once. Before a request the environment may change the
  contents, as other clients do, and may make the request fail.
\<close>

type_synonym server = "int \<times> store"

definition changes :: "client_op list \<Rightarrow> bool" where
  "changes ops \<longleftrightarrow> list_ex (\<lambda>op. case op of OpGet k os \<Rightarrow> False | _ \<Rightarrow> True) ops"

definition next_revision :: "client_op list \<Rightarrow> int \<Rightarrow> int" where
  "next_revision ops r = (if changes ops then r + 1 else r)"

definition serve_op :: "client_op \<Rightarrow> server \<Rightarrow> op_response \<times> server" where
  "serve_op op = (\<lambda>(r, m). let r' = next_revision [op] r; (resp, m') = etcd_op r' op m in (resp, (r', m')))"

definition serve_txn :: "cmp list \<Rightarrow> client_op list \<Rightarrow> server \<Rightarrow> txn_response \<times> server" where
  "serve_txn cmps ops = (\<lambda>(r, m).
     let r' = (if list_all (cmp_holds m) cmps then next_revision ops r else r);
         (resp, m') = etcd_txn r' cmps ops m
     in (resp, (r', m')))"

definition request :: "(server \<Rightarrow> bool \<times> server) \<Rightarrow> (server \<Rightarrow> 'a \<times> server) \<Rightarrow> server \<Rightarrow> (string, 'a) res \<times> server" where
  "request env f s = (case env s of
       (True, s1) \<Rightarrow> (Inl ''unavailable'', s1)
     | (False, s1) \<Rightarrow> (let (a, s2) = f s1 in (Inr a, s2)))"

definition local_client :: "(server \<Rightarrow> bool \<times> server) \<Rightarrow> server etcd_client" where
  "local_client env = \<lparr>
     client_Do = (\<lambda>op. request env (serve_op op)),
     client_Get = (\<lambda>k os. request env (\<lambda>(r, m). (range_response r k os m, (r, m)))),
     client_Delete = (\<lambda>k os. request env (\<lambda>s. case serve_op (OpDelete k os) s of
        (ResponseDelete r n, s') \<Rightarrow> ((r, n), s') | (_, s') \<Rightarrow> ((0, 0), s'))),
     client_Txn = (\<lambda>cmps ops. request env (serve_txn cmps ops)),
     client_Grant = (\<lambda>ttl. request env (\<lambda>s. (1, s)))\<rparr>"

lemma request_Inr: "request env f s = (Inr a, s') \<Longrightarrow> \<exists>s1. env s = (False, s1) \<and> f s1 = (a, s')"
  by (auto simp: request_def split: bool.splits prod.splits)

lemma request_Inl: "request env f s = (Inl e, s') \<Longrightarrow> env s = (True, s')"
  by (auto simp: request_def split: bool.splits prod.splits)

lemma serve_op_effect: "serve_op op s = (resp, s') \<Longrightarrow> \<exists>r. (resp, snd s') = etcd_op r op (snd s)"
  by (rule exI [of _ "next_revision [op] (fst s)"]) (auto simp: serve_op_def Let_def split: prod.splits)

lemma serve_txn_effect: "serve_txn cmps ops s = (tr, s') \<Longrightarrow> (tr, snd s') = etcd_txn (tr_Revision tr) cmps ops (snd s)"
  by (cases s) (auto simp: serve_txn_def etcd_txn_def Let_def split: if_splits prod.splits)

lemma local_client_obeys:
  assumes "\<And>m. rely m m" and "\<And>m m1 m2. rely m m1 \<Longrightarrow> rely m1 m2 \<Longrightarrow> rely m m2"
    and "\<And>m m'. store_wf m \<Longrightarrow> rely m m' \<Longrightarrow> store_wf m'"
    and env: "\<And>s. rely (snd s) (snd (snd (env s)))"
  shows "etcd_server (local_client env) snd rely"
proof
  have env': "rely (snd s) (snd s1)" if "env s = (b, s1)" for s b s1
    using env [of s] that by simp
  show "\<exists>m r. rely (snd s) m \<and> (resp, snd s') = etcd_op r op m"
    if c: "client_Do (local_client env) op s = (Inr resp, s')" for op s resp s'
  proof -
    from c obtain s1 where "env s = (False, s1)" "serve_op op s1 = (resp, s')"
      using request_Inr [of env "serve_op op" s resp s'] by (auto simp: local_client_def)
    with env' serve_op_effect show ?thesis by blast
  qed
  show "\<exists>m r. rely (snd s) m \<and> gr = range_response r k os m \<and> snd s' = m"
    if c: "client_Get (local_client env) k os s = (Inr gr, s')" for k os s gr s'
  proof -
    from c obtain s1 where s1: "env s = (False, s1)" "gr = range_response (fst s1) k os (snd s1)" "s' = s1"
      by (auto simp: local_client_def split: prod.splits dest!: request_Inr)
    with env' [OF s1(1)] show ?thesis by blast
  qed
  show "\<exists>m. rely (snd s) m \<and> (ResponseDelete r n, snd s') = etcd_op r (OpDelete k os) m"
    if c: "client_Delete (local_client env) k os s = (Inr (r, n), s')" for k os s r n s'
  proof -
    from c obtain s1 where s1: "env s = (False, s1)"
        "(case serve_op (OpDelete k os) s1 of
          (ResponseDelete r n, s') \<Rightarrow> ((r, n), s') | (_, s') \<Rightarrow> ((0, 0), s')) = ((r, n), s')"
      by (auto simp: local_client_def dest!: request_Inr)
    obtain r1 m1 where p: "s1 = (r1, m1)" by (cases s1)
    from s1(2) have "(ResponseDelete r n, snd s') = etcd_op r (OpDelete k os) (snd s1)"
      by (auto simp: p serve_op_def Let_def)
    with env' [OF s1(1)] show ?thesis by blast
  qed
  show "\<exists>m. rely (snd s) m \<and> (tr, snd s') = etcd_txn (tr_Revision tr) cmps ops m"
    if c: "client_Txn (local_client env) cmps ops s = (Inr tr, s')" for cmps ops s tr s'
  proof -
    from c obtain s1 where "env s = (False, s1)" "serve_txn cmps ops s1 = (tr, s')"
      using request_Inr [of env "serve_txn cmps ops" s tr s'] by (auto simp: local_client_def)
    with env' serve_txn_effect show ?thesis by blast
  qed
  show "\<exists>m r. rely (snd s) m \<and> (snd s' = m \<or> snd s' = snd (etcd_txn r cmps ops m))"
    if c: "client_Txn (local_client env) cmps ops s = (Inl e, s')" for cmps ops s e s'
  proof -
    from c have "env s = (True, s')"
      using request_Inl [of env "serve_txn cmps ops" s e s'] by (simp add: local_client_def)
    with env' show ?thesis by blast
  qed
  show "rely (snd s) (snd s')" if c: "client_Grant (local_client env) ttl s = (res, s')" for ttl s res s'
  proof -
    from c have "\<exists>b. env s = (b, s')"
      by (auto simp: local_client_def request_def split: bool.splits prod.splits)
    with env' show ?thesis by blast
  qed
qed (use assms(1-3) in blast)+

text \<open>Without other clients and without failures.\<close>

abbreviation quiet :: "server \<Rightarrow> bool \<times> server" where
  "quiet s \<equiv> (False, s)"

interpretation alone: etcd_server "local_client quiet" snd "(=)"
  by (rule local_client_obeys) auto

end
