(* ===== verification/Storage_Codec.thy ===== *)
theory Storage_Codec
  imports CP_Prelude
begin

text \<open>
  How values are stored (\<^verbatim>\<open>encodeJSON\<close> and \<^verbatim>\<open>compress\<close> of \<^verbatim>\<open>server/internal/storage/put.go\<close>,
  \<^verbatim>\<open>decodeJSON\<close> and \<^verbatim>\<open>decompress\<close> of \<^verbatim>\<open>get.go\<close>): as JSON, compressed from a length of 2048 bytes on.
  The JSON form of the value type and the deflate algorithm are parameters; the check of the gzip
  header is that of \<^verbatim>\<open>gzip.NewReader\<close>.
\<close>

record 'v codec =
  json_Marshal :: "'v \<Rightarrow> (string, string) res"
  json_Unmarshal :: "string \<Rightarrow> (string, 'v) res"
  gzip_Write :: "string \<Rightarrow> string option"
  gzip_Close :: "string \<Rightarrow> (string, string) res"
  gzip_fields :: "string \<Rightarrow> string option"
  gzip_ReadAll :: "string \<Rightarrow> (string, string) res"

definition compressionThreshold :: nat where
  "compressionThreshold = 2048"

definition compress :: "'v codec \<Rightarrow> string \<Rightarrow> (string, string) res" where
  "compress K input =
     (if length input < compressionThreshold then Inr input
      else case gzip_Write K input of
        Some e \<Rightarrow> Inl (''failed to compress data: '' @ e)
      | None \<Rightarrow> (case gzip_Close K input of
          Inl e \<Rightarrow> Inl (''failed to close gzip writer: '' @ e)
        | Inr out \<Rightarrow> Inr out))"

definition encodeJSON :: "'v codec \<Rightarrow> 'v \<Rightarrow> (string, string) res" where
  "encodeJSON K val = rbind (json_Marshal K val) (compress K)"

text \<open>
  \<^verbatim>\<open>gzip.NewReader\<close> reads ten bytes, fails when there are fewer, and reports \<^verbatim>\<open>ErrHeader\<close> when they do not
  start with the gzip and deflate identification.
\<close>

datatype gzip_open = Opened | ErrHeader | OpenError string

definition gzip_magic :: string where
  "gzip_magic = [CHR 0x1F, CHR 0x8B, CHR 0x08]"

definition gzip_NewReader :: "'v codec \<Rightarrow> string \<Rightarrow> gzip_open" where
  "gzip_NewReader K input =
     (if input = [] then OpenError ''EOF''
      else if length input < 10 then OpenError ''unexpected EOF''
      else if take 3 input \<noteq> gzip_magic then ErrHeader
      else case gzip_fields K input of Some e \<Rightarrow> OpenError e | None \<Rightarrow> Opened)"

definition decompress :: "'v codec \<Rightarrow> string \<Rightarrow> (string, string) res" where
  "decompress K input =
     (case gzip_NewReader K input of
        ErrHeader \<Rightarrow> Inr input
      | OpenError e \<Rightarrow> Inl (''failed to initialize gzip reader: '' @ e)
      | Opened \<Rightarrow> (case gzip_ReadAll K input of
          Inl e \<Rightarrow> Inl (''failed to decompress data: '' @ e)
        | Inr out \<Rightarrow> Inr out))"

definition decodeJSON :: "'v codec \<Rightarrow> string \<Rightarrow> (string, 'v) res" where
  "decodeJSON K val = rbind (decompress K val) (json_Unmarshal K)"

section \<open>The round trip\<close>

text \<open>
  What the two libraries promise: JSON text is read back as the value it was made from and never starts
  like a gzip member, and a gzip member is read back as the data it was made from.
\<close>

locale json_gzip =
  fixes K :: "'v codec"
  assumes json_law: "json_Marshal K v = Inr raw \<Longrightarrow> json_Unmarshal K raw = Inr v"
    and json_text: "json_Marshal K v = Inr raw \<Longrightarrow> raw \<noteq> [] \<and> take 3 raw \<noteq> gzip_magic"
    and gzip_law: "gzip_Write K input = None \<Longrightarrow> gzip_Close K input = Inr out \<Longrightarrow>
      10 \<le> length out \<and> take 3 out = gzip_magic \<and> gzip_fields K out = None \<and> gzip_ReadAll K out = Inr input"
begin

lemma decompress_compress:
  assumes "compress K raw = Inr s" and "10 \<le> length raw" and "take 3 raw \<noteq> gzip_magic"
  shows "decompress K s = Inr raw"
proof (cases "length raw < compressionThreshold")
  case True
  with assms show ?thesis by (auto simp: compress_def decompress_def gzip_NewReader_def)
next
  case False
  with assms(1) have "gzip_Write K raw = None" "gzip_Close K raw = Inr s"
    by (auto simp: compress_def split: option.splits sum.splits)
  from gzip_law [OF this] show ?thesis by (auto simp: decompress_def gzip_NewReader_def)
qed

lemma decode_encode:
  assumes "json_Marshal K v = Inr raw" and "encodeJSON K v = Inr s"
  shows "decodeJSON K s = (if 10 \<le> length raw then Inr v
    else Inl ''failed to initialize gzip reader: unexpected EOF'')"
proof (cases "10 \<le> length raw")
  case True
  with assms decompress_compress [of raw s] json_text [of v raw] json_law [of v raw] show ?thesis
    by (simp add: encodeJSON_def decodeJSON_def)
next
  case False
  with assms json_text [of v raw] show ?thesis
    by (auto simp: encodeJSON_def decodeJSON_def compress_def compressionThreshold_def decompress_def gzip_NewReader_def)
qed

end

text \<open>
  C32. Encoding and decoding a stored value is a round trip, compressed or not, when its JSON text has at
  least ten bytes. A shorter text is stored but cannot be read: the gzip reader fails on it with an
  unexpected end of file rather than with a missing header, and \<^verbatim>\<open>decompress\<close> reports that as an error.
\<close>
theorem stored_value_round_trip:
  assumes "json_gzip K" and "json_Marshal K v = Inr raw" and "encodeJSON K v = Inr s"
  shows "decodeJSON K s = (if 10 \<le> length raw then Inr v
    else Inl ''failed to initialize gzip reader: unexpected EOF'')"
  using assms by (rule json_gzip.decode_encode)

text \<open>
  A codec of strings: the text in quotes, and gzip members that store their data behind a ten-byte
  header.
\<close>

definition string_codec :: "string codec" where
  "string_codec = \<lparr>
     json_Marshal = (\<lambda>v. Inr (CHR 0x22 # v @ [CHR 0x22])),
     json_Unmarshal = (\<lambda>s. case s of [] \<Rightarrow> Inl ''unexpected end of JSON input'' | c # t \<Rightarrow> Inr (butlast t)),
     gzip_Write = (\<lambda>s. None),
     gzip_Close = (\<lambda>s. Inr (gzip_magic @ replicate 7 CHR 0x00 @ s)),
     gzip_fields = (\<lambda>s. None),
     gzip_ReadAll = (\<lambda>s. Inr (drop 10 s))\<rparr>"

interpretation strings: json_gzip string_codec
  by unfold_locales (auto simp: string_codec_def gzip_magic_def)

theorem stored_value_round_trip_witness:
  "(\<exists>s. encodeJSON string_codec (replicate 3000 CHR ''x'') = Inr s \<and>
      decodeJSON string_codec s = Inr (replicate 3000 CHR ''x'')) \<and>
    decodeJSON string_codec (CHR 0x22 # ''abc'' @ [CHR 0x22]) =
      Inl ''failed to initialize gzip reader: unexpected EOF''"
proof
  let ?v = "replicate 3000 CHR ''x''" and ?raw = "\<lambda>v. CHR 0x22 # v @ [CHR 0x22]"
  have m: "json_Marshal string_codec v = Inr (?raw v)" for v by (simp add: string_codec_def)
  have e: "\<exists>s. encodeJSON string_codec v = Inr s" for v
    by (simp add: encodeJSON_def m compress_def) (simp add: string_codec_def)
  then obtain s where s: "encodeJSON string_codec ?v = Inr s" by blast
  with stored_value_round_trip [OF strings.json_gzip_axioms m s] show
    "\<exists>s. encodeJSON string_codec ?v = Inr s \<and> decodeJSON string_codec s = Inr ?v" by simp
  have "encodeJSON string_codec ''abc'' = Inr (?raw ''abc'')"
    by (simp add: encodeJSON_def m compress_def compressionThreshold_def)
  from stored_value_round_trip [OF strings.json_gzip_axioms m this]
  show "decodeJSON string_codec (?raw ''abc'') = Inl ''failed to initialize gzip reader: unexpected EOF''" by simp
qed

end
