(* ===== verification/Storage_Ops.thy ===== *)
theory Storage_Ops
  imports Storage_Etcd Storage_Codec
begin

text \<open>
  The storage operations (\<^verbatim>\<open>put.go\<close>, \<^verbatim>\<open>get.go\<close> and \<^verbatim>\<open>delete.go\<close> of \<^verbatim>\<open>server/internal/storage\<close>) over the
  etcd client. An operation object carries the item it writes; executing it returns the result, the
  object afterwards, whose item may have a new version, and the state of the world.
\<close>

section \<open>Items and errors\<close>

text \<open>A value with the version it had when it was read (\<^verbatim>\<open>StoredValue\<close>).\<close>

record 'v item =
  item_body :: 'v
  item_version :: int

definition SetVersion :: "int \<Rightarrow> 'v item \<Rightarrow> 'v item" where
  "SetVersion v i = i\<lparr>item_version := v\<rparr>"

datatype storage_error =
    ErrNotFound string
  | ErrAlreadyExists string
  | ErrValueVersionMismatch string
  | ErrOperationConstraintViolated
  | ErrDuplicateKeysInTransaction "string list"
  | ErrRequest string string
  | ErrUnexpectedResponse
  | ErrLease string string
  | ErrEncode string string
  | ErrDecode string string

section \<open>Put, create and update\<close>

datatype put_kind = KindPut | KindCreate | KindUpdate

record 'v put_op =
  po_kind :: put_kind
  po_key :: string
  po_val :: "'v item"
  po_ttl :: "int option"
  po_options :: "op_option list"
  po_shouldUpdateVersion :: bool
  po_revision :: int

definition NewPutOp :: "string \<Rightarrow> 'v item \<Rightarrow> op_option list \<Rightarrow> 'v put_op" where
  "NewPutOp key val options = \<lparr>po_kind = KindPut, po_key = key, po_val = val, po_ttl = None,
     po_options = options, po_shouldUpdateVersion = False, po_revision = 0\<rparr>"

definition NewCreateOp :: "string \<Rightarrow> 'v item \<Rightarrow> op_option list \<Rightarrow> 'v put_op" where
  "NewCreateOp key val options = \<lparr>po_kind = KindCreate, po_key = key, po_val = val, po_ttl = None,
     po_options = options, po_shouldUpdateVersion = False, po_revision = 0\<rparr>"

definition NewUpdateOp :: "string \<Rightarrow> 'v item \<Rightarrow> op_option list \<Rightarrow> 'v put_op" where
  "NewUpdateOp key val options = \<lparr>po_kind = KindUpdate, po_key = key, po_val = val, po_ttl = None,
     po_options = options, po_shouldUpdateVersion = False, po_revision = 0\<rparr>"

definition WithTTL :: "int \<Rightarrow> 'v put_op \<Rightarrow> 'v put_op" where
  "WithTTL ttl po = po\<lparr>po_ttl := Some ttl\<rparr>"

definition WithUpdatedVersion :: "'v put_op \<Rightarrow> 'v put_op" where
  "WithUpdatedVersion po = po\<lparr>po_shouldUpdateVersion := True, po_options := po_options po @ [WithPrevKV]\<rparr>"

definition UpdateRevision :: "int \<Rightarrow> 'v put_op \<Rightarrow> 'v put_op" where
  "UpdateRevision r po = po\<lparr>po_revision := r\<rparr>"

text \<open>\<^verbatim>\<open>int64(ttl.Seconds())\<close> of a duration in nanoseconds, cut towards zero.\<close>

definition ttl_seconds :: "int \<Rightarrow> int" where
  "ttl_seconds d = (if d \<ge> 0 then d div 1000000000 else - ((- d) div 1000000000))"

definition clientPutOp :: "'s etcd_client \<Rightarrow> 'v codec \<Rightarrow> string \<Rightarrow> 'v item \<Rightarrow> int option \<Rightarrow> op_option list \<Rightarrow>
    's \<Rightarrow> (storage_error, client_op) res \<times> 's" where
  "clientPutOp C K key val ttl options s =
     (let (lease, s1) = (case ttl of
            None \<Rightarrow> (Inr options, s)
          | Some d \<Rightarrow> (case client_Grant C (ttl_seconds d) s of
              (Inl e, s1) \<Rightarrow> (Inl (ErrLease key e), s1)
            | (Inr l, s1) \<Rightarrow> (Inr (options @ [WithLease l]), s1)))
      in (rbind lease (\<lambda>allOptions. case encodeJSON K (item_body val) of
            Inl e \<Rightarrow> Inl (ErrEncode key e)
          | Inr encoded \<Rightarrow> Inr (OpPut key encoded allOptions)), s1))"

definition put_ClientOp :: "'s etcd_client \<Rightarrow> 'v codec \<Rightarrow> 'v put_op \<Rightarrow> 's \<Rightarrow> (storage_error, client_op) res \<times> 's" where
  "put_ClientOp C K po = clientPutOp C K (po_key po) (po_val po) (po_ttl po) (po_options po)"

definition put_Cmps :: "'v put_op \<Rightarrow> cmp list" where
  "put_Cmps po = (case po_kind po of
       KindPut \<Rightarrow> []
     | KindCreate \<Rightarrow> [CompareVersion (po_key po) 0]
     | KindUpdate \<Rightarrow> [CompareVersion (po_key po) (item_version (po_val po))])"

text \<open>The previous entries that the puts of a transaction have returned, by key.\<close>

definition extractPrevKVs :: "txn_response \<Rightarrow> (string, kv) gomap" where
  "extractPrevKVs tr = fold (\<lambda>r m. case r of
       ResponsePut _ (Some prev) \<Rightarrow> gm_put m (kv_Key prev) prev
     | _ \<Rightarrow> m) (tr_Responses tr) []"

definition updateVersion :: "string \<Rightarrow> (string, kv) gomap \<Rightarrow> 'v item \<Rightarrow> 'v item" where
  "updateVersion key prevKVs i = (case gm_get prevKVs key of
       Some prev \<Rightarrow> SetVersion (kv_Version prev + 1) i
     | None \<Rightarrow> SetVersion (item_version i + 1) i)"

definition put_UpdateVersion :: "(string, kv) gomap \<Rightarrow> 'v put_op \<Rightarrow> 'v put_op" where
  "put_UpdateVersion prevKVs po = po\<lparr>po_val := updateVersion (po_key po) prevKVs (po_val po)\<rparr>"

definition putOp_Exec :: "'s etcd_client \<Rightarrow> 'v codec \<Rightarrow> 'v put_op \<Rightarrow> 's \<Rightarrow>
    (storage_error, unit) res \<times> 'v put_op \<times> 's" where
  "putOp_Exec C K po s =
     (case put_ClientOp C K po s of
        (Inl e, s1) \<Rightarrow> (Inl e, po, s1)
      | (Inr op, s1) \<Rightarrow> (case client_Do C op s1 of
          (Inl e, s2) \<Rightarrow> (Inl (ErrRequest (po_key po) e), po, s2)
        | (Inr (ResponsePut r prev), s2) \<Rightarrow>
            (let po1 = UpdateRevision r po
             in (Inr (), if po_shouldUpdateVersion po
                   then po1\<lparr>po_val := (case prev of
                       Some e \<Rightarrow> SetVersion (kv_Version e + 1) (po_val po)
                     | None \<Rightarrow> SetVersion (item_version (po_val po) + 1) (po_val po))\<rparr>
                   else po1, s2))
        | (Inr _, s2) \<Rightarrow> (Inl ErrUnexpectedResponse, po, s2)))"

text \<open>Create and update commit a transaction with the comparison of the operation.\<close>

definition conditional_Exec :: "(string \<Rightarrow> storage_error) \<Rightarrow> 's etcd_client \<Rightarrow> 'v codec \<Rightarrow> 'v put_op \<Rightarrow> 's \<Rightarrow>
    (storage_error, unit) res \<times> 'v put_op \<times> 's" where
  "conditional_Exec failure C K po s =
     (case put_ClientOp C K po s of
        (Inl e, s1) \<Rightarrow> (Inl e, po, s1)
      | (Inr op, s1) \<Rightarrow> (case client_Txn C (put_Cmps po) [op] s1 of
          (Inl e, s2) \<Rightarrow> (Inl (ErrRequest (po_key po) e), po, s2)
        | (Inr resp, s2) \<Rightarrow>
            (let po1 = UpdateRevision (tr_Revision resp) po
             in if \<not> tr_Succeeded resp then (Inl (failure (po_key po)), po1, s2)
                else (Inr (), if po_shouldUpdateVersion po then put_UpdateVersion (extractPrevKVs resp) po1 else po1, s2))))"

definition createOp_Exec :: "'s etcd_client \<Rightarrow> 'v codec \<Rightarrow> 'v put_op \<Rightarrow> 's \<Rightarrow>
    (storage_error, unit) res \<times> 'v put_op \<times> 's" where
  "createOp_Exec = conditional_Exec ErrAlreadyExists"

definition updateOp_Exec :: "'s etcd_client \<Rightarrow> 'v codec \<Rightarrow> 'v put_op \<Rightarrow> 's \<Rightarrow>
    (storage_error, unit) res \<times> 'v put_op \<times> 's" where
  "updateOp_Exec = conditional_Exec ErrValueVersionMismatch"

definition put_Exec :: "'s etcd_client \<Rightarrow> 'v codec \<Rightarrow> 'v put_op \<Rightarrow> 's \<Rightarrow>
    (storage_error, unit) res \<times> 'v put_op \<times> 's" where
  "put_Exec C K po = (case po_kind po of
       KindPut \<Rightarrow> putOp_Exec C K po
     | KindCreate \<Rightarrow> createOp_Exec C K po
     | KindUpdate \<Rightarrow> updateOp_Exec C K po)"

section \<open>Reads\<close>

definition decodeKV :: "'v codec \<Rightarrow> kv \<Rightarrow> (storage_error, 'v item) res" where
  "decodeKV K e = (case decodeJSON K (kv_Value e) of
       Inl err \<Rightarrow> Inl (ErrDecode (kv_Key e) err)
     | Inr v \<Rightarrow> Inr \<lparr>item_body = v, item_version = kv_Version e\<rparr>)"

definition decodeKVs :: "'v codec \<Rightarrow> kv list \<Rightarrow> (storage_error, 'v item list) res" where
  "decodeKVs K = map_res (decodeKV K)"

definition DecodeGetResponse :: "'v codec \<Rightarrow> get_response \<Rightarrow> (storage_error, 'v item list) res" where
  "DecodeGetResponse K resp = decodeKVs K (gr_Kvs resp)"

definition getOp_Exec :: "'s etcd_client \<Rightarrow> 'v codec \<Rightarrow> string \<Rightarrow> op_option list \<Rightarrow> 's \<Rightarrow>
    (storage_error, 'v item) res \<times> 's" where
  "getOp_Exec C K key options s =
     (case client_Get C key options s of
        (Inl e, s1) \<Rightarrow> (Inl (ErrRequest key e), s1)
      | (Inr resp, s1) \<Rightarrow> (rbind (DecodeGetResponse K resp)
          (\<lambda>vals. case vals of [] \<Rightarrow> Inl (ErrNotFound key) | v # _ \<Rightarrow> Inr v), s1))"

fun decode_ranges :: "'v codec \<Rightarrow> op_response list \<Rightarrow> (storage_error, 'v item list) res" where
  "decode_ranges K [] = Inr []"
| "decode_ranges K (r # rs) =
     rbind (case r of ResponseRange gr \<Rightarrow> decodeKVs K (gr_Kvs gr) | _ \<Rightarrow> Inr [])
       (\<lambda>v. rbind (decode_ranges K rs) (\<lambda>vals. Inr (v @ vals)))"

definition getMultipleOp_Exec :: "'s etcd_client \<Rightarrow> 'v codec \<Rightarrow> string list \<Rightarrow> op_option list \<Rightarrow> 's \<Rightarrow>
    (storage_error, 'v item list) res \<times> 's" where
  "getMultipleOp_Exec C K keys options s =
     (case client_Txn C [] (map (\<lambda>key. OpGet key options) keys) s of
        (Inl e, s1) \<Rightarrow> (Inl (ErrRequest ''keys'' e), s1)
      | (Inr resp, s1) \<Rightarrow> (decode_ranges K (tr_Responses resp), s1))"

text \<open>The prefix is completed by the constructor \<^verbatim>\<open>NewGetPrefixOp\<close>.\<close>

definition getPrefixOp_Exec :: "'s etcd_client \<Rightarrow> 'v codec \<Rightarrow> string \<Rightarrow> op_option list \<Rightarrow> 's \<Rightarrow>
    (storage_error, 'v item list) res \<times> 's" where
  "getPrefixOp_Exec C K prefix0 options s =
     (let prefix = ensureTrailingSlash prefix0
      in case client_Get C prefix (WithPrefix # options) s of
        (Inl e, s1) \<Rightarrow> (Inl (ErrRequest prefix e), s1)
      | (Inr resp, s1) \<Rightarrow> (DecodeGetResponse K resp, s1))"

definition getRangeOp_Exec :: "'s etcd_client \<Rightarrow> 'v codec \<Rightarrow> string \<Rightarrow> string \<Rightarrow> op_option list \<Rightarrow> 's \<Rightarrow>
    (storage_error, 'v item list) res \<times> 's" where
  "getRangeOp_Exec C K start stop options s =
     (case client_Get C start (WithRange stop # options) s of
        (Inl e, s1) \<Rightarrow> (Inl (ErrRequest start e), s1)
      | (Inr resp, s1) \<Rightarrow> (DecodeGetResponse K resp, s1))"

definition existsOp_Exec :: "'s etcd_client \<Rightarrow> string \<Rightarrow> 's \<Rightarrow> (storage_error, bool) res \<times> 's" where
  "existsOp_Exec C key s =
     (case client_Get C key [WithCountOnly] s of
        (Inl e, s1) \<Rightarrow> (Inl (ErrRequest key e), s1)
      | (Inr resp, s1) \<Rightarrow> (Inr (gr_Count resp > 0), s1))"

section \<open>Deletes\<close>

datatype delete_kind = KindDeleteKey | KindDeletePrefix | KindDeleteValue

record 'v delete_op =
  do_kind :: delete_kind
  do_key :: string
  do_val :: "'v item option"
  do_options :: "op_option list"
  do_revision :: int

definition NewDeleteKeyOp :: "string \<Rightarrow> op_option list \<Rightarrow> 'v delete_op" where
  "NewDeleteKeyOp key options = \<lparr>do_kind = KindDeleteKey, do_key = key, do_val = None, do_options = options, do_revision = 0\<rparr>"

definition NewDeletePrefixOp :: "string \<Rightarrow> op_option list \<Rightarrow> 'v delete_op" where
  "NewDeletePrefixOp prefix options = \<lparr>do_kind = KindDeletePrefix, do_key = ensureTrailingSlash prefix,
     do_val = None, do_options = options, do_revision = 0\<rparr>"

definition NewDeleteValueOp :: "string \<Rightarrow> 'v item \<Rightarrow> op_option list \<Rightarrow> 'v delete_op" where
  "NewDeleteValueOp key val options = \<lparr>do_kind = KindDeleteValue, do_key = key, do_val = Some val,
     do_options = options, do_revision = 0\<rparr>"

definition delete_ClientOp :: "'v delete_op \<Rightarrow> client_op" where
  "delete_ClientOp d = (case do_kind d of
       KindDeletePrefix \<Rightarrow> OpDelete (do_key d) (WithPrefix # do_options d)
     | _ \<Rightarrow> OpDelete (do_key d) (do_options d))"

definition delete_Cmps :: "'v delete_op \<Rightarrow> cmp list" where
  "delete_Cmps d = (case (do_kind d, do_val d) of
       (KindDeleteValue, Some v) \<Rightarrow> [CompareVersion (do_key d) (item_version v)]
     | _ \<Rightarrow> [])"

definition deleteKeyOp_Exec :: "'s etcd_client \<Rightarrow> 'v delete_op \<Rightarrow> 's \<Rightarrow> (storage_error, int) res \<times> 'v delete_op \<times> 's" where
  "deleteKeyOp_Exec C d s =
     (case client_Delete C (do_key d) (do_options d) s of
        (Inl e, s1) \<Rightarrow> (Inl (ErrRequest (do_key d) e), d, s1)
      | (Inr (r, n), s1) \<Rightarrow> (Inr n, d\<lparr>do_revision := r\<rparr>, s1))"

definition deletePrefixOp_Exec :: "'s etcd_client \<Rightarrow> 'v delete_op \<Rightarrow> 's \<Rightarrow> (storage_error, int) res \<times> 'v delete_op \<times> 's" where
  "deletePrefixOp_Exec C d s =
     (case client_Delete C (do_key d) (WithPrefix # do_options d) s of
        (Inl e, s1) \<Rightarrow> (Inl (ErrRequest (do_key d) e), d, s1)
      | (Inr (r, n), s1) \<Rightarrow> (Inr n, d\<lparr>do_revision := r\<rparr>, s1))"

definition deleteValueOp_Exec :: "'s etcd_client \<Rightarrow> 'v delete_op \<Rightarrow> 's \<Rightarrow> (storage_error, unit) res \<times> 'v delete_op \<times> 's" where
  "deleteValueOp_Exec C d s =
     (case client_Txn C (delete_Cmps d) [delete_ClientOp d] s of
        (Inl e, s1) \<Rightarrow> (Inl (ErrRequest (do_key d) e), d, s1)
      | (Inr resp, s1) \<Rightarrow>
          (let d1 = d\<lparr>do_revision := tr_Revision resp\<rparr>
           in if \<not> tr_Succeeded resp then (Inl (ErrValueVersionMismatch (do_key d)), d1, s1) else (Inr (), d1, s1)))"

section \<open>What the operations promise\<close>

lemma WithUpdatedVersion_fields [simp]:
  "po_kind (WithUpdatedVersion po) = po_kind po" "po_key (WithUpdatedVersion po) = po_key po"
  "po_val (WithUpdatedVersion po) = po_val po" "po_shouldUpdateVersion (WithUpdatedVersion po)"
  "set (po_options (WithUpdatedVersion po)) = insert WithPrevKV (set (po_options po))"
  by (simp_all add: WithUpdatedVersion_def)

text \<open>
  A compare-and-swap on one key: it succeeds when the version of the key is the expected one and then
  writes the value with the next version; it reports the failure when the version differs and then
  writes nothing; and after any other error it has either written the value or left the store alone.
\<close>

definition swapped :: "'v codec \<Rightarrow> string \<Rightarrow> 'v \<Rightarrow> int \<Rightarrow> store \<Rightarrow> store \<Rightarrow> bool" where
  "swapped K key body expected m m' \<longleftrightarrow> version_of m key = expected \<and>
     (\<exists>e. m' = fmupd key e m \<and> kv_Key e = key \<and> kv_Version e = expected + 1 \<and> encodeJSON K body = Inr (kv_Value e))"

definition cas_spec :: "storage_error \<Rightarrow> 'v codec \<Rightarrow> string \<Rightarrow> 'v \<Rightarrow> int \<Rightarrow> store \<Rightarrow> (storage_error, unit) res \<Rightarrow> store \<Rightarrow> bool" where
  "cas_spec failure K key body expected m r m' \<longleftrightarrow> (case r of
       Inr _ \<Rightarrow> swapped K key body expected m m'
     | Inl e \<Rightarrow> if e = failure then version_of m key \<noteq> expected \<and> m' = m
               else m' = m \<or> swapped K key body expected m m')"

lemma version_of_absent: "store_wf m \<Longrightarrow> version_of m k = 0 \<longleftrightarrow> fmlookup m k = None"
  by (auto simp: version_of_def store_wf_def split: option.splits dest: spec [where x = k])

lemma store_wf_upd: "store_wf m \<Longrightarrow> store_wf (fmupd k (written r k v os m) m)"
proof -
  assume wf: "store_wf m"
  then have "version_of m k \<ge> 0" by (force simp: store_wf_def version_of_def split: option.splits)
  with wf show ?thesis by (auto simp: store_wf_def written_def)
qed

lemma selected_key: "selects k os = (\<lambda>key. key = k) \<Longrightarrow>
    selected k os m = (case fmlookup m k of None \<Rightarrow> [] | Some e \<Rightarrow> [e])"
proof -
  assume sel: "selects k os = (\<lambda>key. key = k)"
  have "ffilter (\<lambda>key. key = k) (fmdom m) = (if fmlookup m k = None then {||} else {|k|})"
    by (intro fset_eqI) (auto simp: fmlookup_dom_iff)
  then show ?thesis by (auto simp: selected_def sel sorted_list_of_fset.rep_eq)
qed

lemma selects_single [simp]: "selects k [] key \<longleftrightarrow> key = k" "selects k [WithCountOnly] key \<longleftrightarrow> key = k"
  by (simp_all add: selects_def range_end_def)

lemma selects_prefix: "selects k [WithPrefix] = (\<lambda>key. has_prefix key k)"
  by (simp add: fun_eq_iff selects_def)

lemma selected_single [simp]:
  "selected k [] m = (case fmlookup m k of None \<Rightarrow> [] | Some e \<Rightarrow> [e])"
  "selected k [WithCountOnly] m = (case fmlookup m k of None \<Rightarrow> [] | Some e \<Rightarrow> [e])"
  by (rule selected_key, simp add: fun_eq_iff)+

context etcd_server
begin

lemma put_ClientOp_cases:
  assumes "put_ClientOp C K po s = (r, s1)"
  shows "rely (kvs s) (kvs s1) \<and> (case r of
      Inr op \<Rightarrow> \<exists>enc opts. encodeJSON K (item_body (po_val po)) = Inr enc \<and> op = OpPut (po_key po) enc opts \<and>
        set (po_options po) \<subseteq> set opts
    | Inl e \<Rightarrow> e \<noteq> ErrAlreadyExists k \<and> e \<noteq> ErrValueVersionMismatch k)"
proof (cases "po_ttl po")
  case None
  with assms show ?thesis
    by (auto simp: put_ClientOp_def clientPutOp_def rely_refl split: sum.splits)
next
  case (Some d)
  obtain g s2 where g: "client_Grant C (ttl_seconds d) s = (g, s2)" by fastforce
  with Some assms Grant_law [OF g] show ?thesis
    by (cases g) (auto simp: put_ClientOp_def clientPutOp_def split: sum.splits)
qed

lemma etcd_txn_put:
  "etcd_txn rv cmps [OpPut k v os] m =
    (if list_all (cmp_holds m) cmps
     then (\<lparr>tr_Revision = rv, tr_Succeeded = True,
         tr_Responses = [ResponsePut rv (if WithPrevKV \<in> set os then fmlookup m k else None)]\<rparr>,
       fmupd k (written rv k v os m) m)
     else (\<lparr>tr_Revision = rv, tr_Succeeded = False, tr_Responses = []\<rparr>, m))"
  by (simp add: etcd_txn_def)

text \<open>The execution of a conditional put, with the version that the item has afterwards.\<close>

lemma conditional_Exec_cases:
  assumes "conditional_Exec failure C K po s = (r, po', s')"
    and "put_Cmps po = [CompareVersion (po_key po) expected]"
    and "failure = ErrAlreadyExists \<or> failure = ErrValueVersionMismatch"
  shows "\<exists>m. rely (kvs s) m \<and> cas_spec (failure (po_key po)) K (po_key po) (item_body (po_val po)) expected m r (kvs s') \<and>
    (r = Inr () \<and> store_wf m \<and> po_shouldUpdateVersion po \<and> WithPrevKV \<in> set (po_options po) \<longrightarrow>
      item_version (po_val po') =
        (if fmlookup m (po_key po) = None then item_version (po_val po) + 1 else expected + 1))"
proof -
  obtain c s1 where c: "put_ClientOp C K po s = (c, s1)" by fastforce
  note cases = put_ClientOp_cases [OF c, of "po_key po"]
  show ?thesis
  proof (cases c)
    case (Inl e)
    with assms(1) c have "r = Inl e" "s' = s1" by (auto simp: conditional_Exec_def)
    with cases Inl assms(3) show ?thesis by (auto simp: cas_spec_def)
  next
    case (Inr op)
    with cases obtain enc opts where op: "rely (kvs s) (kvs s1)" "encodeJSON K (item_body (po_val po)) = Inr enc"
        "op = OpPut (po_key po) enc opts" "set (po_options po) \<subseteq> set opts" by auto
    have sw: "swapped K (po_key po) (item_body (po_val po)) expected m (fmupd (po_key po) (written rv (po_key po) enc opts m) m)"
      if "version_of m (po_key po) = expected" for m rv
      using that op(2) by (auto simp: swapped_def written_def)
    obtain t s2 where t: "client_Txn C (put_Cmps po) [op] s1 = (t, s2)" by fastforce
    show ?thesis
    proof (cases t)
      case (Inl e)
      then have r: "r = Inl (ErrRequest (po_key po) e)" "s' = s2" using assms(1) c t \<open>c = Inr op\<close>
        by (auto simp: conditional_Exec_def)
      from Txn_error_law t Inl obtain m rv where m: "rely (kvs s1) m"
          "kvs s2 = m \<or> kvs s2 = snd (etcd_txn rv (put_Cmps po) [op] m)" by blast
      with sw [of m rv] have "kvs s2 = m \<or> swapped K (po_key po) (item_body (po_val po)) expected m (kvs s2)"
        by (auto simp: op(3) etcd_txn_put assms(2) split: if_splits)
      with m(1) op(1) r assms(3) show ?thesis
        by (intro exI [of _ m]) (auto simp: cas_spec_def intro: rely_trans)
    next
      case (Inr tr)
      from Txn_law t Inr obtain m where m: "rely (kvs s1) m"
          "(tr, kvs s2) = etcd_txn (tr_Revision tr) (put_Cmps po) [op] m" by blast
      have s': "s' = s2" and r: "r = (if tr_Succeeded tr then Inr () else Inl (failure (po_key po)))"
        using assms(1) c t Inr \<open>c = Inr op\<close> by (auto simp: conditional_Exec_def Let_def split: if_splits)
      have po': "tr_Succeeded tr \<Longrightarrow> po_shouldUpdateVersion po \<Longrightarrow>
          item_version (po_val po') = item_version (updateVersion (po_key po) (extractPrevKVs tr) (po_val po))"
        using assms(1) c t Inr \<open>c = Inr op\<close>
        by (auto simp: conditional_Exec_def Let_def put_UpdateVersion_def UpdateRevision_def)
      have rel: "rely (kvs s) m" using op(1) m(1) by (rule rely_trans)
      show ?thesis
      proof (cases "version_of m (po_key po) = expected")
        case True
        then have tr: "tr = \<lparr>tr_Revision = tr_Revision tr, tr_Succeeded = True,
            tr_Responses = [ResponsePut (tr_Revision tr) (if WithPrevKV \<in> set opts then fmlookup m (po_key po) else None)]\<rparr>"
          "kvs s2 = fmupd (po_key po) (written (tr_Revision tr) (po_key po) enc opts m) m"
          using m(2) by (simp_all add: op(3) etcd_txn_put assms(2))
        have ok: "tr_Succeeded tr" by (subst tr(1)) simp
        have prev: "gm_get (extractPrevKVs tr) (po_key po) = fmlookup m (po_key po)"
          if "store_wf m" "WithPrevKV \<in> set opts"
          using that by (subst tr(1)) (auto simp: extractPrevKVs_def store_wf_def split: option.splits)
        have ver: "item_version (po_val po') =
            (if fmlookup m (po_key po) = None then item_version (po_val po) + 1 else expected + 1)"
          if "store_wf m" "po_shouldUpdateVersion po" "WithPrevKV \<in> set (po_options po)"
          using po' [OF ok that(2)] prev [OF that(1)] that(3) op(4) True
          by (auto simp: updateVersion_def SetVersion_def version_of_def split: option.splits)
        from ok sw [OF True] rel r s' tr(2) ver show ?thesis
          by (intro exI [of _ m]) (simp add: cas_spec_def)
      next
        case False
        then have "tr = \<lparr>tr_Revision = tr_Revision tr, tr_Succeeded = False, tr_Responses = []\<rparr>" "kvs s2 = m"
          using m(2) by (simp_all add: op(3) etcd_txn_put assms(2))
        then have "\<not> tr_Succeeded tr" "kvs s2 = m" by (metis txn_response.select_convs(2))+
        with False rel r s' show ?thesis by (auto simp: cas_spec_def)
      qed
    qed
  qed
qed

lemma deleteValue_cases:
  assumes "deleteValueOp_Exec C (NewDeleteValueOp key val []) s = (r, d', s')"
  shows "\<exists>m. rely (kvs s) m \<and> (case r of
      Inr _ \<Rightarrow> version_of m key = item_version val \<and> kvs s' = fmdrop key m
    | Inl e \<Rightarrow> if e = ErrValueVersionMismatch key then version_of m key \<noteq> item_version val \<and> kvs s' = m
              else kvs s' = m \<or> version_of m key = item_version val \<and> kvs s' = fmdrop key m)"
proof -
  let ?cmps = "[CompareVersion key (item_version val)]" and ?op = "OpDelete key []"
  have drop: "fmfilter (\<lambda>k. k \<noteq> key) m = fmdrop key m" for m :: store
    by (simp add: fmfilter_alt_defs)
  have txn: "etcd_txn rv ?cmps [?op] m = (if version_of m key = item_version val
      then (\<lparr>tr_Revision = rv, tr_Succeeded = True,
          tr_Responses = [ResponseDelete rv (int (length (selected key [] m)))]\<rparr>, fmdrop key m)
      else (\<lparr>tr_Revision = rv, tr_Succeeded = False, tr_Responses = []\<rparr>, m))" for rv m
    by (simp add: etcd_txn_def drop)
  have call: "client_Txn C (delete_Cmps (NewDeleteValueOp key val [])) [delete_ClientOp (NewDeleteValueOp key val [])] s =
      client_Txn C ?cmps [?op] s"
    by (simp add: delete_Cmps_def delete_ClientOp_def NewDeleteValueOp_def)
  obtain t s1 where t: "client_Txn C ?cmps [?op] s = (t, s1)" by fastforce
  show ?thesis
  proof (cases t)
    case (Inl e)
    with assms t call have "r = Inl (ErrRequest key e)" "s' = s1"
      by (auto simp: deleteValueOp_Exec_def NewDeleteValueOp_def)
    moreover from Txn_error_law t Inl obtain m rv where "rely (kvs s) m"
        "kvs s1 = m \<or> kvs s1 = snd (etcd_txn rv ?cmps [?op] m)" by blast
    ultimately show ?thesis by (intro exI [of _ m]) (auto simp: txn split: if_splits)
  next
    case (Inr tr)
    from Txn_law t Inr obtain m where m: "rely (kvs s) m" "(tr, kvs s1) = etcd_txn (tr_Revision tr) ?cmps [?op] m" by blast
    have "tr_Succeeded tr \<longleftrightarrow> version_of m key = item_version val"
      using m(2) by (metis (no_types, lifting) fst_conv txn txn_response.select_convs(2))
    moreover have "kvs s1 = (if version_of m key = item_version val then fmdrop key m else m)"
      using m(2) by (simp add: txn split: if_splits)
    moreover have "s' = s1" "r = (if tr_Succeeded tr then Inr () else Inl (ErrValueVersionMismatch key))"
      using assms t Inr call by (auto simp: deleteValueOp_Exec_def NewDeleteValueOp_def Let_def split: if_splits)
    ultimately show ?thesis using m(1) by (intro exI [of _ m]) auto
  qed
qed

lemma getOp_cases:
  assumes "getOp_Exec C K key [] s = (r, s')"
  shows "(\<exists>e. r = Inl (ErrRequest key e)) \<or>
    rely (kvs s) (kvs s') \<and> r = (case fmlookup (kvs s') key of None \<Rightarrow> Inl (ErrNotFound key) | Some e \<Rightarrow> decodeKV K e)"
proof -
  obtain g s1 where g: "client_Get C key [] s = (g, s1)" by fastforce
  show ?thesis
  proof (cases g)
    case (Inl e)
    with assms g show ?thesis by (auto simp: getOp_Exec_def)
  next
    case (Inr gr)
    with Get_law g obtain m rv where m: "rely (kvs s) m" "gr = range_response rv key [] m" "kvs s1 = m" by blast
    have "gr_Kvs gr = (case fmlookup m key of None \<Rightarrow> [] | Some e \<Rightarrow> [e])"
      by (simp add: m(2) range_response_def limit_kvs_def sort_kvs_def)
    with assms g Inr m show ?thesis
      by (auto simp: getOp_Exec_def DecodeGetResponse_def decodeKVs_def rbind_def split: option.splits sum.splits)
  qed
qed

lemma getPrefix_cases:
  assumes "getPrefixOp_Exec C K prefix [] s = (r, s')"
  shows "(\<exists>e. r = Inl (ErrRequest (ensureTrailingSlash prefix) e)) \<or>
    rely (kvs s) (kvs s') \<and> r = map_res (\<lambda>k. decodeKV K (the (fmlookup (kvs s') k)))
      (sorted_list_of_fset (ffilter (\<lambda>k. has_prefix k (ensureTrailingSlash prefix)) (fmdom (kvs s'))))"
proof -
  let ?p = "ensureTrailingSlash prefix"
  have map_res_map: "map_res f (map g xs) = map_res (\<lambda>x. f (g x)) xs" for f :: "kv \<Rightarrow> (storage_error, 'v item) res" and g and xs :: "string list"
    by (induction xs) auto
  obtain g s1 where g: "client_Get C ?p [WithPrefix] s = (g, s1)" by fastforce
  show ?thesis
  proof (cases g)
    case (Inl e)
    with assms g show ?thesis by (auto simp: getPrefixOp_Exec_def Let_def)
  next
    case (Inr gr)
    with Get_law g obtain m rv where m: "rely (kvs s) m" "gr = range_response rv ?p [WithPrefix] m" "kvs s1 = m" by blast
    have "gr_Kvs gr = selected ?p [WithPrefix] m"
      by (simp add: m(2) range_response_def limit_kvs_def sort_kvs_def)
    with assms g Inr m show ?thesis
      by (auto simp: getPrefixOp_Exec_def Let_def DecodeGetResponse_def decodeKVs_def selected_def selects_prefix map_res_map)
  qed
qed

lemma existsOp_cases:
  assumes "existsOp_Exec C key s = (r, s')"
  shows "(\<exists>e. r = Inl (ErrRequest key e)) \<or> rely (kvs s) (kvs s') \<and> r = Inr (fmlookup (kvs s') key \<noteq> None)"
proof -
  obtain g s1 where g: "client_Get C key [WithCountOnly] s = (g, s1)" by fastforce
  show ?thesis
  proof (cases g)
    case (Inl e)
    with assms g show ?thesis by (auto simp: existsOp_Exec_def)
  next
    case (Inr gr)
    with Get_law g obtain m rv where m: "rely (kvs s) m" "gr = range_response rv key [WithCountOnly] m" "kvs s1 = m" by blast
    then have "gr_Count gr > 0 \<longleftrightarrow> fmlookup m key \<noteq> None"
      by (auto simp: range_response_def split: option.splits)
    with assms g Inr m show ?thesis by (auto simp: existsOp_Exec_def)
  qed
qed

lemma putOp_cases:
  assumes "putOp_Exec C K po s = (Inr (), po', s')"
  shows "\<exists>m e. rely (kvs s) m \<and> kvs s' = fmupd (po_key po) e m \<and> kv_Key e = po_key po \<and>
    kv_Version e = version_of m (po_key po) + 1 \<and> encodeJSON K (item_body (po_val po)) = Inr (kv_Value e)"
proof -
  obtain c s1 where c: "put_ClientOp C K po s = (c, s1)" by fastforce
  with assms obtain op where op: "c = Inr op" by (cases c) (auto simp: putOp_Exec_def)
  from put_ClientOp_cases [OF c] op obtain enc opts where o: "rely (kvs s) (kvs s1)"
      "encodeJSON K (item_body (po_val po)) = Inr enc" "op = OpPut (po_key po) enc opts" by auto
  obtain d s2 where d: "client_Do C op s1 = (d, s2)" by fastforce
  with assms c op obtain resp where resp: "d = Inr resp" "s' = s2"
    by (cases d) (auto simp: putOp_Exec_def Let_def split: op_response.splits)
  with Do_law d obtain m rv where m: "rely (kvs s1) m" "(resp, kvs s2) = etcd_op rv op m" by blast
  from m(2) have "kvs s' = fmupd (po_key po) (written rv (po_key po) enc opts m) m" by (simp add: o(3) resp(2))
  moreover have "rely (kvs s) m" using o(1) m(1) by (rule rely_trans)
  ultimately show ?thesis using o(2)
    by (intro exI [of _ m] exI [of _ "written rv (po_key po) enc opts m"]) (simp add: written_def)
qed

lemma put_Exec_stores:
  assumes "put_Exec C K po s = (Inr (), po', s')"
  shows "\<exists>e. fmlookup (kvs s') (po_key po) = Some e \<and> encodeJSON K (item_body (po_val po)) = Inr (kv_Value e)"
proof (cases "po_kind po")
  case KindPut
  with assms putOp_cases [of K po s po' s'] show ?thesis by (auto simp: put_Exec_def)
next
  case KindCreate
  with assms conditional_Exec_cases [of ErrAlreadyExists K po s "Inr ()" po' s' 0] show ?thesis
    by (auto simp: put_Exec_def createOp_Exec_def put_Cmps_def cas_spec_def swapped_def)
next
  case KindUpdate
  with assms conditional_Exec_cases [of ErrValueVersionMismatch K po s "Inr ()" po' s' "item_version (po_val po)"] show ?thesis
    by (auto simp: put_Exec_def updateOp_Exec_def put_Cmps_def cas_spec_def swapped_def)
qed

end

text \<open>
  C11. Conditional writes are atomic compare-and-swaps, whatever other clients do at the same time: a
  create succeeds only on an absent key, an update and a deletion of a value only on the version that the
  item was read at. When the condition fails the store is unchanged and the error says so; after any
  other error, such as a lost connection, the write has either happened completely or not at all.
\<close>
theorem conditional_writes_are_atomic:
  assumes "etcd_server C kvs rely"
  shows "(po_kind po = KindCreate \<and> put_Exec C K po s = (r, po', s') \<longrightarrow>
      (\<exists>m. rely (kvs s) m \<and>
        cas_spec (ErrAlreadyExists (po_key po)) K (po_key po) (item_body (po_val po)) 0 m r (kvs s'))) \<and>
    (po_kind po = KindUpdate \<and> put_Exec C K po s = (r, po', s') \<longrightarrow>
      (\<exists>m. rely (kvs s) m \<and> cas_spec (ErrValueVersionMismatch (po_key po)) K (po_key po)
        (item_body (po_val po)) (item_version (po_val po)) m r (kvs s'))) \<and>
    (deleteValueOp_Exec C (NewDeleteValueOp key val []) s = (r, d', s') \<longrightarrow>
      (\<exists>m. rely (kvs s) m \<and> (case r of
          Inr _ \<Rightarrow> version_of m key = item_version val \<and> kvs s' = fmdrop key m
        | Inl e \<Rightarrow> if e = ErrValueVersionMismatch key then version_of m key \<noteq> item_version val \<and> kvs s' = m
                  else kvs s' = m \<or> version_of m key = item_version val \<and> kvs s' = fmdrop key m)))"
  using etcd_server.conditional_Exec_cases [OF assms, of ErrAlreadyExists K po s r po' s' 0]
    etcd_server.conditional_Exec_cases [OF assms, of ErrValueVersionMismatch K po s r po' s' "item_version (po_val po)"]
    etcd_server.deleteValue_cases [OF assms, of key val s r d' s']
  by (auto simp: put_Exec_def createOp_Exec_def updateOp_Exec_def put_Cmps_def)

text \<open>
  C13. Versions stay in step with the store: after a successful update, or a successful create of an item
  that had no version, with \<^verbatim>\<open>WithUpdatedVersion\<close>, the item has the version that the write has given to
  the key, so that the next update of the same item succeeds unless somebody else has written the key.
\<close>
theorem item_versions_track_store:
  assumes "etcd_server C kvs rely" and "store_wf (kvs s)"
    and "po_kind po = KindUpdate \<or> po_kind po = KindCreate \<and> item_version (po_val po) = 0"
    and "put_Exec C K (WithUpdatedVersion po) s = (Inr (), po', s')"
  shows "item_version (po_val po') = version_of (kvs s') (po_key po)"
proof -
  let ?po = "WithUpdatedVersion po"
  let ?f = "if po_kind po = KindCreate then ErrAlreadyExists else ErrValueVersionMismatch"
  let ?v = "if po_kind po = KindCreate then 0 else item_version (po_val po)"
  have exec: "conditional_Exec ?f C K ?po s = (Inr (), po', s')"
    using assms(3,4) by (auto simp: put_Exec_def createOp_Exec_def updateOp_Exec_def)
  have cmps: "put_Cmps ?po = [CompareVersion (po_key ?po) ?v]"
    using assms(3) by (auto simp: put_Cmps_def)
  have "?f = ErrAlreadyExists \<or> ?f = ErrValueVersionMismatch" by simp
  from etcd_server.conditional_Exec_cases [OF assms(1) exec cmps this]
  obtain m where m: "rely (kvs s) m" "swapped K (po_key po) (item_body (po_val po)) ?v m (kvs s')"
      "store_wf m \<longrightarrow> item_version (po_val po') =
        (if fmlookup m (po_key po) = None then item_version (po_val po) + 1 else ?v + 1)"
    by (auto simp: cas_spec_def)
  have wf: "store_wf m" using etcd_server.rely_wf [OF assms(1,2) m(1)] .
  have "version_of (kvs s') (po_key po) = ?v + 1" using m(2) by (auto simp: swapped_def version_of_def)
  moreover have "fmlookup m (po_key po) = None \<Longrightarrow> item_version (po_val po) = ?v"
    using m(2) assms(3) by (auto simp: swapped_def version_of_def)
  ultimately show ?thesis using m(3) wf by simp
qed

text \<open>
  C33. Reads return what has been written: without writes in between, reading a key after a successful
  put, create or update of an item returns its value with the version the store has given it, and a
  prefix read returns the entries below the prefix in the order of their keys.
\<close>
theorem reads_return_writes:
  assumes "etcd_server C kvs rely" and "json_gzip K"
    and "put_Exec C K po s = (Inr (), po', s')"
    and "json_Marshal K (item_body (po_val po)) = Inr raw" and "10 \<le> length raw"
    and "kvs s1 = kvs s'" and "\<And>m. rely (kvs s') m \<Longrightarrow> fmlookup m (po_key po) = fmlookup (kvs s') (po_key po)"
    and "getOp_Exec C K (po_key po) [] s1 = (r, s2)"
    and "getPrefixOp_Exec C K prefix [] s1 = (rs, s3)"
  shows "((\<exists>e. r = Inl (ErrRequest (po_key po) e)) \<or>
      r = Inr \<lparr>item_body = item_body (po_val po), item_version = version_of (kvs s') (po_key po)\<rparr>) \<and>
    ((\<exists>e. rs = Inl (ErrRequest (ensureTrailingSlash prefix) e)) \<or>
      rs = map_res (\<lambda>k. decodeKV K (the (fmlookup (kvs s3) k)))
        (sorted_list_of_fset (ffilter (\<lambda>k. has_prefix k (ensureTrailingSlash prefix)) (fmdom (kvs s3)))))"
proof -
  from etcd_server.put_Exec_stores [OF assms(1,3)] obtain e where
    e: "fmlookup (kvs s') (po_key po) = Some e" "encodeJSON K (item_body (po_val po)) = Inr (kv_Value e)" by blast
  have dec: "decodeJSON K (kv_Value e) = Inr (item_body (po_val po))"
    using json_gzip.decode_encode [OF assms(2,4) e(2)] assms(5) by simp
  from etcd_server.getOp_cases [OF assms(1,8)]
  have "(\<exists>e. r = Inl (ErrRequest (po_key po) e)) \<or> r = decodeKV K e"
    using assms(6,7) e(1) by auto
  moreover have "decodeKV K e = Inr \<lparr>item_body = item_body (po_val po), item_version = version_of (kvs s') (po_key po)\<rparr>"
    using dec e(1) by (simp add: decodeKV_def version_of_def)
  ultimately show ?thesis using etcd_server.getPrefix_cases [OF assms(1,9)] by auto
qed

section \<open>A run\<close>

definition sample_item :: "string item" where
  "sample_item = \<lparr>item_body = ''pgedge-1'', item_version = 0\<rparr>"

definition sample_create :: "string put_op" where
  "sample_create = WithUpdatedVersion (NewCreateOp ''/hosts/1'' sample_item [])"

definition sample_kv :: kv where
  "sample_kv = \<lparr>kv_Key = ''/hosts/1'', kv_Value = CHR 0x22 # ''pgedge-1'' @ [CHR 0x22], kv_Version = 1,
     kv_CreateRevision = 1, kv_ModRevision = 1, kv_Lease = 0\<rparr>"

lemma sample_create_run:
  "put_Exec (local_client quiet) string_codec sample_create (0, fmempty) =
    (Inr (), sample_create\<lparr>po_val := SetVersion 1 sample_item, po_revision := 1\<rparr>, (1, fmupd ''/hosts/1'' sample_kv fmempty))"
  by (simp add: put_Exec_def sample_create_def createOp_Exec_def conditional_Exec_def put_ClientOp_def clientPutOp_def
      NewCreateOp_def WithUpdatedVersion_def put_Cmps_def encodeJSON_def compress_def compressionThreshold_def
      string_codec_def local_client_def request_def serve_txn_def etcd_txn_def version_of_def next_revision_def changes_def
      sample_item_def sample_kv_def written_def lease_of_def UpdateRevision_def put_UpdateVersion_def extractPrevKVs_def
      updateVersion_def SetVersion_def Let_def)

lemma sample_fields:
  "po_kind sample_create = KindCreate" "po_key sample_create = ''/hosts/1''" "po_val sample_create = sample_item"
  by (simp_all add: sample_create_def NewCreateOp_def)

theorem conditional_writes_are_atomic_witness:
  "cas_spec (ErrAlreadyExists ''/hosts/1'') string_codec ''/hosts/1'' ''pgedge-1'' 0 fmempty (Inr ())
     (fmupd ''/hosts/1'' sample_kv fmempty)"
  using conditional_writes_are_atomic [OF alone.etcd_server_axioms, THEN conjunct1, of sample_create string_codec
      "(0, fmempty)" "Inr ()" "sample_create\<lparr>po_val := SetVersion 1 sample_item, po_revision := 1\<rparr>"
      "(1, fmupd ''/hosts/1'' sample_kv fmempty)"]
    sample_create_run by (simp add: sample_fields sample_item_def)

theorem item_versions_track_store_witness:
  "item_version (SetVersion 1 sample_item) = version_of (fmupd ''/hosts/1'' sample_kv fmempty) ''/hosts/1''"
  using item_versions_track_store [OF alone.etcd_server_axioms, of "(0, fmempty)" "NewCreateOp ''/hosts/1'' sample_item []"
      string_codec] sample_create_run
  by (auto simp: sample_create_def NewCreateOp_def sample_item_def store_wf_def)

theorem reads_return_writes_witness:
  "fst (getOp_Exec (local_client quiet) string_codec ''/hosts/1'' [] (1, fmupd ''/hosts/1'' sample_kv fmempty)) =
     Inr (SetVersion 1 sample_item)"
proof -
  let ?s = "(1, fmupd ''/hosts/1'' sample_kv fmempty) :: server"
  let ?g = "getOp_Exec (local_client quiet) string_codec ''/hosts/1'' [] ?s"
  let ?p = "getPrefixOp_Exec (local_client quiet) string_codec ''/hosts'' [] ?s"
  have "(\<exists>e. fst ?g = Inl (ErrRequest ''/hosts/1'' e)) \<or>
      fst ?g = Inr \<lparr>item_body = ''pgedge-1'', item_version = version_of (snd ?s) ''/hosts/1''\<rparr>"
    using reads_return_writes [OF alone.etcd_server_axioms strings.json_gzip_axioms sample_create_run, of
        "CHR 0x22 # ''pgedge-1'' @ [CHR 0x22]" ?s "fst ?g" "snd ?g" "''/hosts''" "fst ?p" "snd ?p"]
    by (simp add: sample_fields sample_item_def string_codec_def)
  moreover have "\<nexists>e. fst ?g = Inl (ErrRequest ''/hosts/1'' e)"
    by (simp add: getOp_Exec_def local_client_def request_def range_response_def limit_kvs_def sort_kvs_def
        DecodeGetResponse_def decodeKVs_def decodeKV_def sample_kv_def split: sum.splits)
  ultimately show ?thesis by (simp add: version_of_def sample_kv_def SetVersion_def sample_item_def)
qed

text \<open>
  A plain put keeps the version of its item in step with the store only when the key existed or the
  item had no version: a put of an item that was read earlier and whose key has been deleted since leaves
  the item one above its old version, while the store has restarted at one.
\<close>
theorem put_version_after_deletion:
  "\<exists>po' s'. put_Exec (local_client quiet) string_codec
       (WithUpdatedVersion (NewPutOp ''/hosts/1'' (SetVersion 7 sample_item) [])) (0, fmempty) = (Inr (), po', s') \<and>
     item_version (po_val po') = 8 \<and> version_of (snd s') ''/hosts/1'' = 1"
  by (simp add: put_Exec_def putOp_Exec_def put_ClientOp_def clientPutOp_def
      NewPutOp_def WithUpdatedVersion_def encodeJSON_def compress_def compressionThreshold_def
      string_codec_def local_client_def request_def serve_op_def version_of_def next_revision_def changes_def
      sample_item_def written_def UpdateRevision_def SetVersion_def Let_def)

end
