(* ===== verification/Storage_Cache.thy ===== *)
theory Storage_Cache
  imports Storage_Ops
begin

text \<open>
  The write-through cache and the watch that feeds it (\<^verbatim>\<open>cache.go\<close> and \<^verbatim>\<open>watch.go\<close> of
  \<^verbatim>\<open>server/internal/storage\<close>). Every method takes the lock of the cache for its whole body, so that a run is
  a sequence of method calls and handled events. Go's random order of iteration over the items is a
  parameter of the two methods that range over them.
\<close>

section \<open>Watch events\<close>

datatype watch_type = WatchPut | WatchDelete | WatchError | WatchUnknown

record 'v watch_event =
  we_Err :: "storage_error option"
  we_Type :: watch_type
  we_Key :: string
  we_Value :: "'v item option"
  we_IsCreate :: bool
  we_IsModify :: bool
  we_Revision :: int

datatype client_event_type = ClientPut | ClientDelete | ClientOther

record client_event =
  ce_Type :: client_event_type
  ce_Kv :: kv

definition error_event :: "storage_error \<Rightarrow> int \<Rightarrow> 'v watch_event" where
  "error_event e revision = \<lparr>we_Err = Some e, we_Type = WatchError, we_Key = [], we_Value = None,
     we_IsCreate = False, we_IsModify = False, we_Revision = revision\<rparr>"

definition convertKVToEvent :: "'v codec \<Rightarrow> kv \<Rightarrow> int \<Rightarrow> 'v watch_event" where
  "convertKVToEvent K e revision =
     (case decodeKV K e of
        Inl err \<Rightarrow> error_event err revision
      | Inr v \<Rightarrow> \<lparr>we_Err = None, we_Type = WatchPut, we_Key = kv_Key e, we_Value = Some v,
          we_IsCreate = (kv_CreateRevision e = kv_ModRevision e), we_IsModify = False, we_Revision = revision\<rparr>)"

definition convertEvent :: "'v codec \<Rightarrow> client_event \<Rightarrow> int \<Rightarrow> 'v watch_event" where
  "convertEvent K e revision =
     (let v = (if length (kv_Value (ce_Kv e)) > 0 then map_sum id Some (decodeKV K (ce_Kv e)) else Inr None)
      in case v of
        Inl err \<Rightarrow> error_event err revision
      | Inr val \<Rightarrow> \<lparr>we_Err = None,
          we_Type = (case ce_Type e of ClientDelete \<Rightarrow> WatchDelete | ClientPut \<Rightarrow> WatchPut | ClientOther \<Rightarrow> WatchUnknown),
          we_Key = kv_Key (ce_Kv e), we_Value = val,
          we_IsCreate = (ce_Type e = ClientPut \<and> kv_CreateRevision (ce_Kv e) = kv_ModRevision (ce_Kv e)),
          we_IsModify = (ce_Type e = ClientPut \<and> kv_CreateRevision (ce_Kv e) \<noteq> kv_ModRevision (ce_Kv e)),
          we_Revision = revision\<rparr>)"

section \<open>The items of the cache\<close>

record cachedValue =
  cv_revision :: int
  cv_version :: int
  cv_raw :: string
  cv_deleted :: bool

record cache =
  c_items :: "(string, cachedValue) gomap"
  c_lastWatchRevision :: int
  c_tombstones :: "string list"
  c_started :: bool

text \<open>The panics of the cache: it cannot marshal or unmarshal a value, or an event has no value.\<close>

datatype cache_panic = MarshalPanic string | UnmarshalPanic string | NilValue

definition NewCache :: cache where
  "NewCache = \<lparr>c_items = [], c_lastWatchRevision = 0, c_tombstones = [], c_started = False\<rparr>"

definition unlockedWrite :: "'v codec \<Rightarrow> ('v \<Rightarrow> string) \<Rightarrow> 'v item \<Rightarrow> int \<Rightarrow> cache \<Rightarrow> (cache_panic, cache) res" where
  "unlockedWrite K keyf i revision c =
     (let key = keyf (item_body i);
          newer = (case gm_get (c_items c) key of None \<Rightarrow> False | Some existing \<Rightarrow> cv_revision existing \<ge> revision)
      in if newer then Inr c
         else case json_Marshal K (item_body i) of
           Inl e \<Rightarrow> Inl (MarshalPanic e)
         | Inr raw \<Rightarrow> Inr (c\<lparr>c_items := gm_put (c_items c) key
             \<lparr>cv_revision = revision, cv_version = item_version i, cv_raw = raw, cv_deleted = False\<rparr>\<rparr>))"

definition unlockedWriteTombstone :: "string \<Rightarrow> int \<Rightarrow> cache \<Rightarrow> cache" where
  "unlockedWriteTombstone key revision c =
     (if (case gm_get (c_items c) key of None \<Rightarrow> False | Some existing \<Rightarrow> cv_revision existing \<ge> revision) then c
      else c\<lparr>c_items := gm_put (c_items c) key
               \<lparr>cv_revision = revision, cv_version = 0, cv_raw = [], cv_deleted = True\<rparr>,
             c_tombstones := c_tombstones c @ [key]\<rparr>)"

definition unlockedDelete :: "string \<Rightarrow> int \<Rightarrow> cache \<Rightarrow> cache" where
  "unlockedDelete key revision c =
     (case gm_get (c_items c) key of
        None \<Rightarrow> c
      | Some existing \<Rightarrow> if cv_revision existing > revision then c
          else c\<lparr>c_items := gm_delete (c_items c) key\<rparr>)"

fun purge_loop :: "int \<Rightarrow> string list \<Rightarrow> (string, cachedValue) gomap \<Rightarrow> string list \<Rightarrow>
    (string, cachedValue) gomap \<times> string list" where
  "purge_loop revision [] items remaining = (items, remaining)"
| "purge_loop revision (key # keys) items remaining =
     (case gm_get items key of
        None \<Rightarrow> purge_loop revision keys items remaining
      | Some existing \<Rightarrow>
          if cv_revision existing > revision then purge_loop revision keys items (remaining @ [key])
          else if cv_deleted existing then purge_loop revision keys (gm_delete items key) remaining
          else purge_loop revision keys items remaining)"

definition purgeTombstones :: "int \<Rightarrow> cache \<Rightarrow> cache" where
  "purgeTombstones revision c =
     (if c_tombstones c = [] then c
      else let (items, remaining) = purge_loop revision (c_tombstones c) (c_items c) []
           in c\<lparr>c_items := items, c_tombstones := remaining\<rparr>)"

definition cache_unmarshal :: "'v codec \<Rightarrow> cachedValue \<Rightarrow> (cache_panic, 'v item) res" where
  "cache_unmarshal K cached = (case json_Unmarshal K (cv_raw cached) of
       Inl e \<Rightarrow> Inl (UnmarshalPanic e)
     | Inr v \<Rightarrow> Inr \<lparr>item_body = v, item_version = cv_version cached\<rparr>)"

text \<open>\<^verbatim>\<open>get\<close> returns nothing where the source returns \<^verbatim>\<open>ErrNotFound\<close>.\<close>

definition cache_get :: "'v codec \<Rightarrow> string \<Rightarrow> cache \<Rightarrow> (cache_panic, 'v item option) res" where
  "cache_get K key c = (case gm_get (c_items c) key of
       None \<Rightarrow> Inr None
     | Some cached \<Rightarrow> if cv_deleted cached then Inr None else map_sum id Some (cache_unmarshal K cached))"

definition cache_getPrefix :: "((string, cachedValue) gomap \<Rightarrow> (string, cachedValue) gomap) \<Rightarrow> 'v codec \<Rightarrow> string \<Rightarrow>
    cache \<Rightarrow> (cache_panic, 'v item list) res" where
  "cache_getPrefix order K prefix c =
     map_res (cache_unmarshal K) (map snd
       (filter (\<lambda>(key, cached). \<not> cv_deleted cached \<and> has_prefix key prefix) (order (c_items c))))"

definition cache_put :: "'v codec \<Rightarrow> ('v \<Rightarrow> string) \<Rightarrow> 'v item \<Rightarrow> int \<Rightarrow> cache \<Rightarrow> (cache_panic, cache) res" where
  "cache_put K keyf i revision c =
     (if revision \<le> c_lastWatchRevision c then Inr c else unlockedWrite K keyf i revision c)"

definition cache_delete :: "string \<Rightarrow> int \<Rightarrow> cache \<Rightarrow> cache" where
  "cache_delete key revision c =
     (if revision \<le> c_lastWatchRevision c then c else unlockedWriteTombstone key revision c)"

definition cache_deletePrefix :: "(string list \<Rightarrow> string list) \<Rightarrow> string \<Rightarrow> int \<Rightarrow> cache \<Rightarrow> cache" where
  "cache_deletePrefix order prefix revision c =
     (if revision \<le> c_lastWatchRevision c then c
      else fold (\<lambda>key c. if has_prefix key prefix then unlockedWriteTombstone key revision c else c)
        (order (gm_keys (c_items c))) c)"

definition cache_Stop :: "cache \<Rightarrow> cache" where
  "cache_Stop c = (if c_started c then NewCache else c)"

section \<open>The watch\<close>

text \<open>The handler that \<^verbatim>\<open>Start\<close> gives to the watch.\<close>

definition handle_event :: "'v codec \<Rightarrow> ('v \<Rightarrow> string) \<Rightarrow> 'v watch_event \<Rightarrow> cache \<Rightarrow> (cache_panic, cache) res" where
  "handle_event K keyf e c =
     (if we_Type e \<noteq> WatchPut \<and> we_Type e \<noteq> WatchDelete then Inr c
      else let c1 = (if we_Revision e > c_lastWatchRevision c then c\<lparr>c_lastWatchRevision := we_Revision e\<rparr> else c)
           in map_sum id (purgeTombstones (we_Revision e))
             (if we_Type e = WatchPut then
                (case we_Value e of
                   None \<Rightarrow> Inl NilValue
                 | Some v \<Rightarrow> unlockedWrite K keyf v (we_Revision e) c1)
              else Inr (unlockedDelete (we_Key e) (we_Revision e) c1)))"

text \<open>
  The initial read of a watch: every entry is handled as a put at the revision of the response. The
  result is the cache and the revision from which the watch goes on.
\<close>

definition watch_load :: "'s etcd_client \<Rightarrow> 'v codec \<Rightarrow> ('v \<Rightarrow> string) \<Rightarrow> string \<Rightarrow> cache \<Rightarrow> 's \<Rightarrow>
    (storage_error + (cache_panic, cache \<times> int) res) \<times> 's" where
  "watch_load C K keyf prefix c s =
     (case client_Get C prefix [WithPrefix] s of
        (Inl e, s1) \<Rightarrow> (Inl (ErrRequest prefix e), s1)
      | (Inr resp, s1) \<Rightarrow> (Inr (map_sum id (\<lambda>c'. (c', gr_Revision resp))
          (fold_res (\<lambda>e. handle_event K keyf (convertKVToEvent K e (gr_Revision resp))) (gr_Kvs resp) c)), s1))"

definition cache_Start :: "'s etcd_client \<Rightarrow> 'v codec \<Rightarrow> ('v \<Rightarrow> string) \<Rightarrow> string \<Rightarrow> cache \<Rightarrow> 's \<Rightarrow>
    (storage_error + (cache_panic, cache \<times> int) res) option \<times> 's" where
  "cache_Start C K keyf prefix c s =
     (if c_started c then (None, s)
      else let (r, s1) = watch_load C K keyf (ensureTrailingSlash prefix) (c\<lparr>c_started := True\<rparr>) s in (Some r, s1))"

record watch_response =
  wr_Revision :: int
  wr_Err :: "string option"
  wr_Events :: "client_event list"

text \<open>
  One response of the watch channel: the revision of the watch is raised even when the response carries
  an error; the result says whether the watch has to be set up again.
\<close>

definition handle_response :: "'v codec \<Rightarrow> ('v \<Rightarrow> string) \<Rightarrow> watch_response \<Rightarrow> cache \<times> int \<Rightarrow>
    (cache_panic, cache \<times> int \<times> bool) res" where
  "handle_response K keyf wr = (\<lambda>(c, revision).
     (let revision' = (if wr_Revision wr > revision then wr_Revision wr else revision)
      in case wr_Err wr of
        Some e \<Rightarrow> Inr (c, revision', True)
      | None \<Rightarrow> map_sum id (\<lambda>c'. (c', revision', False))
          (fold_res (\<lambda>e. handle_event K keyf (convertEvent K e (wr_Revision wr))) (wr_Events wr) c)))"

definition setupWatch_options :: "op_option list \<Rightarrow> int \<Rightarrow> op_option list" where
  "setupWatch_options options revision = (if revision > 0 then options @ [WithRev (revision + 1)] else options)"

section \<open>Coherence with the store\<close>

text \<open>
  The history of the watched prefix: which key got which item, or was deleted, at which revision. A
  transaction writes a key at most once, so that key and revision determine an entry.
\<close>

type_synonym 'v history = "(int \<times> string \<times> 'v item option) list"

definition contents :: "'v history \<Rightarrow> int \<Rightarrow> string \<Rightarrow> 'v item option" where
  "contents H r k = (case filter (\<lambda>(r', k', _). r' \<le> r \<and> k' = k) H of
       [] \<Rightarrow> None
     | es \<Rightarrow> snd (snd (last es)))"

definition history_wf :: "('v \<Rightarrow> string) \<Rightarrow> 'v history \<Rightarrow> bool" where
  "history_wf keyf H \<longleftrightarrow> sorted_wrt (\<lambda>a b. fst a \<le> fst b) H \<and> distinct (map (\<lambda>(r, k, _). (r, k)) H) \<and>
     list_all (\<lambda>(r, k, v). r > 0 \<and> (case v of None \<Rightarrow> True | Some i \<Rightarrow> keyf (item_body i) = k)) H"

definition segment :: "'v history \<Rightarrow> int \<Rightarrow> int \<Rightarrow> 'v history" where
  "segment H w h = filter (\<lambda>(r, _). w < r \<and> r \<le> h) H"

text \<open>What a cached value stands for.\<close>

definition cached_value :: "'v codec \<Rightarrow> cachedValue \<Rightarrow> (cache_panic, 'v item option) res" where
  "cached_value K cv = (if cv_deleted cv then Inr None else map_sum id Some (cache_unmarshal K cv))"

text \<open>
  The cache is coherent at a revision when every entry shows the contents of the store at that revision
  or at the later one of a write of its own, and every key without an entry is absent at that revision.
\<close>

definition key_coherent :: "'v codec \<Rightarrow> 'v history \<Rightarrow> int \<Rightarrow> (string, cachedValue) gomap \<Rightarrow> string \<Rightarrow> bool" where
  "key_coherent K H w items k \<longleftrightarrow> (case gm_get items k of
       None \<Rightarrow> contents H w k = None
     | Some cv \<Rightarrow> cached_value K cv = Inr (contents H (max w (cv_revision cv)) k))"

definition cache_coherent :: "'v codec \<Rightarrow> 'v history \<Rightarrow> cache \<Rightarrow> bool" where
  "cache_coherent K H c \<longleftrightarrow> (\<forall>k. key_coherent K H (c_lastWatchRevision c) (c_items c) k)"

lemma key_coherent_put [simp]:
  "key_coherent K H w (gm_put items k cv) k' \<longleftrightarrow>
    (if k' = k then cached_value K cv = Inr (contents H (max w (cv_revision cv)) k) else key_coherent K H w items k')"
  by (simp add: key_coherent_def)

lemma cache_get_cached: "cache_get K k c = (case gm_get (c_items c) k of None \<Rightarrow> Inr None | Some cv \<Rightarrow> cached_value K cv)"
  by (simp add: cache_get_def cached_value_def split: option.splits)

lemma coherent_get:
  assumes "cache_coherent K H c"
  shows "\<exists>r. c_lastWatchRevision c \<le> r \<and> cache_get K k c = Inr (contents H r k)"
proof -
  have "key_coherent K H (c_lastWatchRevision c) (c_items c) k" using assms by (simp add: cache_coherent_def)
  then show ?thesis
    by (auto simp: key_coherent_def cache_get_cached split: option.splits intro: max.cobounded1 exI)
qed

lemma gm_get_purge:
  "gm_get (fst (purge_loop h keys items rem)) k =
    (case gm_get items k of
       None \<Rightarrow> None
     | Some cv \<Rightarrow> if k \<in> set keys \<and> cv_deleted cv \<and> cv_revision cv \<le> h then None else Some cv)"
  by (induction h keys items rem rule: purge_loop.induct) (auto split: option.splits)

lemma gm_get_purgeTombstones:
  "gm_get (c_items (purgeTombstones h c)) k =
    (case gm_get (c_items c) k of
       None \<Rightarrow> None
     | Some cv \<Rightarrow> if k \<in> set (c_tombstones c) \<and> cv_deleted cv \<and> cv_revision cv \<le> h then None else Some cv)"
  using gm_get_purge [of h "c_tombstones c" "c_items c" "[]" k]
  by (auto simp: purgeTombstones_def Let_def split: option.splits prod.splits)

lemma purgeTombstones_lastWatch [simp]: "c_lastWatchRevision (purgeTombstones h c) = c_lastWatchRevision c"
  by (simp add: purgeTombstones_def Let_def split: prod.splits)

text \<open>Purging a tombstone that the watch has passed keeps the entry coherent.\<close>

lemma key_coherent_purge:
  "key_coherent K H h (c_items c) k \<Longrightarrow> key_coherent K H h (c_items (purgeTombstones h c)) k"
  by (auto simp: key_coherent_def gm_get_purgeTombstones cached_value_def max_def split: option.splits if_splits)

section \<open>Local writes\<close>

lemma contents_entry:
  assumes "history_wf keyf H" and "(r, k, v) \<in> set H"
  shows "contents H r k = v"
proof -
  let ?P = "\<lambda>(r', k', _). r' \<le> r \<and> k' = k"
  have mem: "(r, k, v) \<in> set (filter ?P H)" using assms(2) by simp
  then have ne: "filter ?P H \<noteq> []" by (metis empty_iff empty_set)
  have sorted: "sorted_wrt (\<lambda>a b. fst a \<le> fst b) (filter ?P H)"
    using assms(1) by (auto simp: history_wf_def intro: sorted_wrt_filter)
  obtain r' k' v' where l0: "last (filter ?P H) = (r', k', v')" by (metis prod_cases3)
  have "(r', k', v') \<in> set (filter ?P H)" using last_in_set [OF ne] unfolding l0 .
  then have "(r', k', v') \<in> set H" "r' \<le> r" "k' = k" by auto
  with l0 have l: "last (filter ?P H) = (r', k, v')" "r' \<le> r" "(r', k, v') \<in> set H" by auto
  have "r \<le> r'"
  proof -
    from mem obtain ys zs where "filter ?P H = ys @ (r, k, v) # zs" by (meson split_list)
    with sorted l show ?thesis by (cases zs rule: rev_cases) (auto simp: sorted_wrt_append)
  qed
  with l have last: "last (filter ?P H) = (r, k, v')" by simp
  from l(2,3) \<open>r \<le> r'\<close> have "(r, k, v') \<in> set H" by simp
  then have "v' = v" using assms by (auto simp: history_wf_def distinct_map inj_on_def)
  with last ne show ?thesis by (cases "filter ?P H") (auto simp: contents_def)
qed

definition json_total :: "'v codec \<Rightarrow> bool" where
  "json_total K \<longleftrightarrow> (\<forall>v. \<exists>raw. json_Marshal K v = Inr raw \<and> json_Unmarshal K raw = Inr v)"

lemma unlockedWrite_total:
  assumes "json_total K"
  shows "\<exists>raw. json_Unmarshal K raw = Inr (item_body i) \<and> unlockedWrite K keyf i revision c = Inr
    (if (case gm_get (c_items c) (keyf (item_body i)) of None \<Rightarrow> False | Some cv \<Rightarrow> cv_revision cv \<ge> revision) then c
     else c\<lparr>c_items := gm_put (c_items c) (keyf (item_body i))
       \<lparr>cv_revision = revision, cv_version = item_version i, cv_raw = raw, cv_deleted = False\<rparr>\<rparr>)"
  using assms by (fastforce simp: json_total_def unlockedWrite_def Let_def split: option.splits)

lemma item_split: "\<lparr>item_body = item_body i, item_version = item_version i\<rparr> = i"
  by (cases i) simp

lemma local_put_coherent:
  assumes "json_total K" and "history_wf keyf H" and "cache_coherent K H c"
    and "(r, keyf (item_body i), Some i) \<in> set H"
  shows "\<exists>c'. cache_put K keyf i r c = Inr c' \<and> cache_coherent K H c' \<and>
    c_lastWatchRevision c' = c_lastWatchRevision c"
proof -
  let ?k = "keyf (item_body i)"
  have here: "contents H r ?k = Some i" by (rule contents_entry [OF assms(2,4)])
  obtain raw where raw: "json_Unmarshal K raw = Inr (item_body i)" "unlockedWrite K keyf i r c = Inr
      (if (case gm_get (c_items c) ?k of None \<Rightarrow> False | Some cv \<Rightarrow> cv_revision cv \<ge> r) then c
       else c\<lparr>c_items := gm_put (c_items c) ?k
         \<lparr>cv_revision = r, cv_version = item_version i, cv_raw = raw, cv_deleted = False\<rparr>\<rparr>)"
    using unlockedWrite_total [OF assms(1)] by blast
  show ?thesis
  proof (cases "r \<le> c_lastWatchRevision c")
    case True
    with assms(3) show ?thesis by (simp add: cache_put_def)
  next
    case False
    with assms(3) here raw show ?thesis
      by (auto simp: cache_put_def cache_coherent_def cached_value_def cache_unmarshal_def item_split)
  qed
qed

lemma tombstone_coherent:
  assumes "cache_coherent K H c" and "contents H r k = None" and "c_lastWatchRevision c < r"
  shows "cache_coherent K H (unlockedWriteTombstone k r c) \<and>
    c_lastWatchRevision (unlockedWriteTombstone k r c) = c_lastWatchRevision c"
  using assms by (auto simp: unlockedWriteTombstone_def cache_coherent_def cached_value_def)

lemma local_delete_coherent:
  "cache_coherent K H c \<Longrightarrow> contents H r k = None \<Longrightarrow> cache_coherent K H (cache_delete k r c)"
  using tombstone_coherent [of K H c r k] by (auto simp: cache_delete_def)

lemma local_deletePrefix_coherent:
  assumes "cache_coherent K H c" and "\<And>k. has_prefix k prefix \<Longrightarrow> contents H r k = None"
  shows "cache_coherent K H (cache_deletePrefix order prefix r c)"
proof (cases "r \<le> c_lastWatchRevision c")
  case True
  with assms(1) show ?thesis by (simp add: cache_deletePrefix_def)
next
  case False
  have "cache_coherent K H (fold (\<lambda>key c. if has_prefix key prefix then unlockedWriteTombstone key r c else c) ks c) \<and>
      c_lastWatchRevision (fold (\<lambda>key c. if has_prefix key prefix then unlockedWriteTombstone key r c else c) ks c) =
        c_lastWatchRevision c" for ks
    using assms(1) False
  proof (induction ks arbitrary: c)
    case (Cons k ks)
    with tombstone_coherent [of K H c r k] assms(2) [of k] show ?case by simp
  qed simp
  with False show ?thesis by (simp add: cache_deletePrefix_def)
qed

section \<open>Watch responses\<close>

definition entry_key :: "int \<times> string \<times> 'v item option \<Rightarrow> string" where
  "entry_key e = fst (snd e)"

lemma entry_key_eq: "entry_key = (\<lambda>e. fst (snd e))"
  by (simp add: fun_eq_iff entry_key_def)

text \<open>An event of the client shows an entry of the history.\<close>

definition shows_entry :: "'v codec \<Rightarrow> client_event \<Rightarrow> int \<times> string \<times> 'v item option \<Rightarrow> bool" where
  "shows_entry K ce = (\<lambda>(r, k, v). kv_Key (ce_Kv ce) = k \<and> (case v of
       None \<Rightarrow> ce_Type ce = ClientDelete \<and> kv_Value (ce_Kv ce) = []
     | Some i \<Rightarrow> ce_Type ce = ClientPut \<and> kv_Value (ce_Kv ce) \<noteq> [] \<and> decodeKV K (ce_Kv ce) = Inr i))"

lemma contents_constant:
  assumes "k \<notin> entry_key ` set (segment H w h)" and "w \<le> r" and "r \<le> h"
  shows "contents H r k = contents H w k"
proof -
  have "filter (\<lambda>(r', k', _). r' \<le> r \<and> k' = k) H = filter (\<lambda>(r', k', _). r' \<le> w \<and> k' = k) H"
    using assms by (intro filter_cong refl) (force simp: segment_def entry_key_def)
  then show ?thesis by (simp add: contents_def)
qed

lemma contents_segment:
  assumes "history_wf keyf H" and "distinct (map entry_key (segment H w h))" and "(r, k, v) \<in> set (segment H w h)"
  shows "contents H h k = v"
proof -
  have r: "(r, k, v) \<in> set H" "w < r" "r \<le> h" using assms(3) by (auto simp: segment_def)
  have "e = (r, k, v)" if "e \<in> set (segment H w h)" "entry_key e = k" for e
    using assms(2,3) that by (auto simp: distinct_map inj_on_def entry_key_def)
  then have "k \<notin> entry_key ` set (segment H r h)" using r(2) by (force simp: segment_def)
  from contents_constant [OF this] contents_entry [OF assms(1) r(1)] r(3) show ?thesis by simp
qed

text \<open>Inside a response: the keys that are still to come may be behind, all others are coherent.\<close>

definition response_inv :: "'v codec \<Rightarrow> 'v history \<Rightarrow> int \<Rightarrow> string set \<Rightarrow> (string, cachedValue) gomap \<Rightarrow> bool" where
  "response_inv K H h todo items \<longleftrightarrow> (\<forall>k.
     (k \<in> todo \<longrightarrow> (\<forall>cv. gm_get items k = Some cv \<and> cv_revision cv \<ge> h \<longrightarrow>
        cached_value K cv = Inr (contents H (cv_revision cv) k))) \<and>
     (k \<notin> todo \<longrightarrow> key_coherent K H h items k))"

lemma response_start:
  assumes "cache_coherent K H c" and "c_lastWatchRevision c \<le> h"
  shows "response_inv K H h (entry_key ` set (segment H (c_lastWatchRevision c) h)) (c_items c)"
proof -
  have kc: "key_coherent K H (c_lastWatchRevision c) (c_items c) k" for k
    using assms(1) by (simp add: cache_coherent_def)
  have "cached_value K cv = Inr (contents H (cv_revision cv) k)" if "gm_get (c_items c) k = Some cv" "cv_revision cv \<ge> h" for k cv
    using kc [of k] that assms(2) by (simp add: key_coherent_def max_def split: if_splits)
  moreover have "key_coherent K H h (c_items c) k" if k: "k \<notin> entry_key ` set (segment H (c_lastWatchRevision c) h)" for k
  proof -
    have const: "contents H r k = contents H (c_lastWatchRevision c) k" if "c_lastWatchRevision c \<le> r" "r \<le> h" for r
      by (rule contents_constant [OF k that])
    then have "contents H (max h r) k = contents H (max (c_lastWatchRevision c) r) k" for r
      using assms(2) by (metis (no_types, opaque_lifting) max.absorb1 max.absorb2 max.cobounded1 max.coboundedI1 max_def order.trans linear)
    with kc [of k] const [of h] assms(2) show ?thesis by (simp add: key_coherent_def split: option.splits)
  qed
  ultimately show ?thesis by (auto simp: response_inv_def)
qed

lemma response_inv_purge:
  "response_inv K H h todo (c_items c) \<Longrightarrow> response_inv K H h todo (c_items (purgeTombstones h c))"
  by (auto simp: response_inv_def key_coherent_purge gm_get_purgeTombstones split: option.splits if_splits)

text \<open>The event that the handler gets for an entry.\<close>

definition event_shows :: "('v \<Rightarrow> string) \<Rightarrow> int \<Rightarrow> 'v watch_event \<Rightarrow> string \<Rightarrow> 'v item option \<Rightarrow> bool" where
  "event_shows keyf h e k v \<longleftrightarrow> we_Revision e = h \<and> (case v of
       None \<Rightarrow> we_Type e = WatchDelete \<and> we_Key e = k
     | Some i \<Rightarrow> we_Type e = WatchPut \<and> we_Value e = Some i \<and> keyf (item_body i) = k)"

lemma convertEvent_shows:
  assumes "shows_entry K ce (r, k, v)" and "\<And>i. v = Some i \<Longrightarrow> keyf (item_body i) = k"
  shows "event_shows keyf h (convertEvent K ce h) k v"
  using assms by (auto simp: shows_entry_def convertEvent_def event_shows_def split: option.splits)

lemma key_coherent_delete: "gm_get items k = None \<or> k' \<noteq> k \<Longrightarrow> key_coherent K H h items k' \<Longrightarrow>
    key_coherent K H h (gm_delete items k) k'"
  by (auto simp: key_coherent_def split: option.splits)

lemma response_step:
  assumes "json_total K" and "event_shows keyf h e k v" and "contents H h k = v"
    and "response_inv K H h (insert k todo) (c_items c)" and "k \<notin> todo"
  shows "\<exists>c'. handle_event K keyf e c = Inr c' \<and> response_inv K H h todo (c_items c') \<and>
    c_lastWatchRevision c' = max (c_lastWatchRevision c) h"
proof -
  let ?c = "if h > c_lastWatchRevision c then c\<lparr>c_lastWatchRevision := h\<rparr> else c"
  have c: "c_items ?c = c_items c" "c_lastWatchRevision ?c = max (c_lastWatchRevision c) h" by auto
  have here: "cached_value K cv = Inr (contents H (cv_revision cv) k)"
    if "gm_get (c_items c) k = Some cv" "cv_revision cv \<ge> h" for cv
    using assms(4) that by (auto simp: response_inv_def)
  have others: "response_inv K H h todo items"
    if "key_coherent K H h items k" "\<And>k'. k' \<noteq> k \<Longrightarrow> gm_get items k' = gm_get (c_items c) k'" for items
    unfolding response_inv_def
  proof
    fix k'
    from assms(4,5) that show "(k' \<in> todo \<longrightarrow> (\<forall>cv. gm_get items k' = Some cv \<and> cv_revision cv \<ge> h \<longrightarrow>
        cached_value K cv = Inr (contents H (cv_revision cv) k'))) \<and> (k' \<notin> todo \<longrightarrow> key_coherent K H h items k')"
      by (cases "k' = k") (simp_all add: response_inv_def key_coherent_def)
  qed
  have keep: "response_inv K H h todo (c_items c)" if "gm_get (c_items c) k = Some cv" "cv_revision cv \<ge> h" for cv
    using here [OF that] that by (intro others) (auto simp: key_coherent_def max_def)
  show ?thesis
  proof (cases v)
    case None
    with assms(2) have "handle_event K keyf e c = Inr (purgeTombstones h (unlockedDelete k h ?c))"
      by (auto simp: handle_event_def event_shows_def Let_def)
    moreover have "response_inv K H h todo (c_items (unlockedDelete k h ?c))"
      using keep others [of "c_items c"] others [of "gm_delete (c_items c) k"] None assms(3)
      by (auto simp: unlockedDelete_def c key_coherent_def split: option.splits)
    moreover have "c_lastWatchRevision (unlockedDelete k h ?c) = max (c_lastWatchRevision c) h"
      by (auto simp: unlockedDelete_def split: option.splits)
    ultimately show ?thesis by (auto intro: response_inv_purge)
  next
    case (Some i)
    with assms(2) have k: "keyf (item_body i) = k" by (simp add: event_shows_def)
    obtain raw where raw: "json_Unmarshal K raw = Inr (item_body i)" "unlockedWrite K keyf i h ?c = Inr
        (if (case gm_get (c_items ?c) k of None \<Rightarrow> False | Some cv \<Rightarrow> cv_revision cv \<ge> h) then ?c
         else ?c\<lparr>c_items := gm_put (c_items ?c) k
           \<lparr>cv_revision = h, cv_version = item_version i, cv_raw = raw, cv_deleted = False\<rparr>\<rparr>)" (is "_ = Inr ?c'")
      using unlockedWrite_total [OF assms(1), of i keyf h ?c] unfolding k by blast
    have "handle_event K keyf e c = Inr (purgeTombstones h ?c')"
      using assms(2) Some raw(2) by (auto simp: handle_event_def event_shows_def Let_def)
    moreover have "response_inv K H h todo (c_items ?c')"
    proof (cases "\<exists>cv. gm_get (c_items c) k = Some cv \<and> cv_revision cv \<ge> h")
      case True
      with keep c show ?thesis by auto
    next
      case False
      then have "c_items ?c' = gm_put (c_items c) k
          \<lparr>cv_revision = h, cv_version = item_version i, cv_raw = raw, cv_deleted = False\<rparr>"
        by (auto split: option.splits)
      with raw(1) Some assms(3) show ?thesis
        by (auto intro!: others simp: cached_value_def cache_unmarshal_def item_split)
    qed
    moreover have "c_lastWatchRevision ?c' = max (c_lastWatchRevision c) h" by simp
    ultimately show ?thesis by (auto intro: response_inv_purge)
  qed
qed

lemma response_loop:
  assumes "json_total K" and "list_all2 (\<lambda>e kv. event_shows keyf h (f e) (fst kv) (snd kv)) es kvs"
    and "distinct (map fst kvs)" and "\<forall>(k, v) \<in> set kvs. contents H h k = v"
    and "response_inv K H h (fst ` set kvs) (c_items c)"
  shows "\<exists>c'. fold_res (\<lambda>e. handle_event K keyf (f e)) es c = Inr c' \<and> response_inv K H h {} (c_items c') \<and>
    c_lastWatchRevision c' = (if es = [] then c_lastWatchRevision c else max (c_lastWatchRevision c) h)"
  using assms(2-)
proof (induction es kvs arbitrary: c rule: list_all2_induct)
  case (Cons e es kv kvs)
  have "\<exists>c'. handle_event K keyf (f e) c = Inr c' \<and> response_inv K H h (fst ` set kvs) (c_items c') \<and>
      c_lastWatchRevision c' = max (c_lastWatchRevision c) h"
    using Cons.prems Cons.hyps(1) by (intro response_step [OF assms(1), of keyf h "f e" "fst kv" "snd kv"]) auto
  then obtain c1 where c1: "handle_event K keyf (f e) c = Inr c1" "response_inv K H h (fst ` set kvs) (c_items c1)"
      "c_lastWatchRevision c1 = max (c_lastWatchRevision c) h" by blast
  with Cons.IH [of c1] Cons.prems obtain c' where "fold_res (\<lambda>e. handle_event K keyf (f e)) es c1 = Inr c'"
      "response_inv K H h {} (c_items c')"
      "c_lastWatchRevision c' = (if es = [] then c_lastWatchRevision c1 else max (c_lastWatchRevision c1) h)" by auto
  with c1 show ?case by (auto simp: max.assoc)
qed auto

section \<open>Runs of the cache\<close>

text \<open>
  A run starts with the initial read and goes on with writes of this process, which reach the cache at
  any time after they have been committed, and with responses of the watch. The history holds the
  entries that the initial read has found and everything after it. A response delivers the entries
  after the position of the watch up to its revision, each key at most once.
\<close>

inductive cache_run :: "'v codec \<Rightarrow> ('v \<Rightarrow> string) \<Rightarrow> 'v history \<Rightarrow> cache \<Rightarrow> bool"
  for K :: "'v codec" and keyf :: "'v \<Rightarrow> string" and H :: "'v history" where
  run_load: "list_all2 (\<lambda>e (r, k, v). kv_Key e = k \<and> map_sum id Some (decodeKV K e) = Inr v) kvs (segment H 0 h) \<Longrightarrow>
    distinct (map entry_key (segment H 0 h)) \<Longrightarrow>
    fold_res (\<lambda>e. handle_event K keyf (convertKVToEvent K e h)) kvs (NewCache\<lparr>c_started := True\<rparr>) = Inr c \<Longrightarrow>
    0 \<le> h \<Longrightarrow> cache_run K keyf H c"
| run_put: "cache_run K keyf H c \<Longrightarrow> (r, keyf (item_body i), Some i) \<in> set H \<Longrightarrow>
    cache_put K keyf i r c = Inr c' \<Longrightarrow> cache_run K keyf H c'"
| run_delete: "cache_run K keyf H c \<Longrightarrow> contents H r k = None \<Longrightarrow> cache_run K keyf H (cache_delete k r c)"
| run_deletePrefix: "cache_run K keyf H c \<Longrightarrow> (\<And>k. has_prefix k prefix \<Longrightarrow> contents H r k = None) \<Longrightarrow>
    cache_run K keyf H (cache_deletePrefix order prefix r c)"
| run_response: "cache_run K keyf H c \<Longrightarrow> wr_Err wr = None \<Longrightarrow> c_lastWatchRevision c \<le> wr_Revision wr \<Longrightarrow>
    list_all2 (shows_entry K) (wr_Events wr) (segment H (c_lastWatchRevision c) (wr_Revision wr)) \<Longrightarrow>
    distinct (map entry_key (segment H (c_lastWatchRevision c) (wr_Revision wr))) \<Longrightarrow>
    handle_response K keyf wr (c, rv) = Inr (c', rv', b) \<Longrightarrow> cache_run K keyf H c'"

lemma history_keys: "history_wf keyf H \<Longrightarrow> (r, k, Some i) \<in> set H \<Longrightarrow> keyf (item_body i) = k"
  by (auto simp: history_wf_def list_all_iff)

lemma response_end:
  assumes "response_inv K H h {} (c_items c)" and "c_lastWatchRevision c = h"
  shows "cache_coherent K H c"
  using assms by (simp add: response_inv_def cache_coherent_def)

lemma response_coherent:
  assumes "json_total K" and "history_wf keyf H" and "cache_coherent K H c" and "wr_Err wr = None"
    and "c_lastWatchRevision c \<le> wr_Revision wr"
    and "list_all2 (shows_entry K) (wr_Events wr) (segment H (c_lastWatchRevision c) (wr_Revision wr))"
    and "distinct (map entry_key (segment H (c_lastWatchRevision c) (wr_Revision wr)))"
  shows "\<exists>c' rv'. handle_response K keyf wr (c, rv) = Inr (c', rv', False) \<and> cache_coherent K H c'"
proof -
  let ?h = "wr_Revision wr" and ?seg = "segment H (c_lastWatchRevision c) (wr_Revision wr)"
  have "list_all2 (\<lambda>e kv. event_shows keyf ?h (convertEvent K e ?h) (fst kv) (snd kv)) (wr_Events wr) (map snd ?seg)"
    using assms(6) unfolding list.rel_map
  proof (rule list.rel_mono_strong)
    fix e x assume "x \<in> set ?seg" "shows_entry K e x"
    with history_keys [OF assms(2)] show "event_shows keyf ?h (convertEvent K e ?h) (fst (snd x)) (snd (snd x))"
      by (cases x) (auto intro!: convertEvent_shows simp: segment_def)
  qed
  moreover have "distinct (map fst (map snd ?seg))"
    using assms(7) by (simp add: entry_key_eq comp_def)
  moreover have "\<forall>(k, v) \<in> set (map snd ?seg). contents H ?h k = v"
    using contents_segment [OF assms(2,7)] by auto
  moreover have "response_inv K H ?h (fst ` set (map snd ?seg)) (c_items c)"
    using response_start [OF assms(3,5)] by (simp add: image_comp entry_key_def comp_def)
  ultimately obtain c' where c': "fold_res (\<lambda>e. handle_event K keyf (convertEvent K e ?h)) (wr_Events wr) c = Inr c'"
      "response_inv K H ?h {} (c_items c')"
      "c_lastWatchRevision c' = (if wr_Events wr = [] then c_lastWatchRevision c else max (c_lastWatchRevision c) ?h)"
    using response_loop [OF assms(1), of keyf ?h "\<lambda>e. convertEvent K e ?h"] by blast
  have "cache_coherent K H c'"
  proof (cases "wr_Events wr = []")
    case True
    with c'(1) assms(3) show ?thesis by simp
  next
    case False
    with c'(2,3) assms(5) show ?thesis by (intro response_end) (auto simp: max_def)
  qed
  with c'(1) assms(4) show ?thesis by (simp add: handle_response_def Let_def)
qed

lemma load_coherent:
  assumes "json_total K" and "history_wf keyf H" and "0 \<le> h"
    and "list_all2 (\<lambda>e (r, k, v). kv_Key e = k \<and> map_sum id Some (decodeKV K e) = Inr v) kvs (segment H 0 h)"
    and "distinct (map entry_key (segment H 0 h))"
  shows "\<exists>c. fold_res (\<lambda>e. handle_event K keyf (convertKVToEvent K e h)) kvs (NewCache\<lparr>c_started := True\<rparr>) = Inr c \<and>
    cache_coherent K H c"
proof -
  let ?seg = "segment H 0 h" and ?c = "NewCache\<lparr>c_started := True\<rparr>"
  have zero: "contents H 0 k = None" for k
  proof -
    have "\<not> r \<le> 0" if "(r, k', v) \<in> set H" for r k' v using assms(2) that by (auto simp: history_wf_def list_all_iff)
    then have "filter (\<lambda>(r', k', _). r' \<le> 0 \<and> k' = k) H = []" by (auto simp: filter_empty_conv)
    then show ?thesis by (simp add: contents_def)
  qed
  then have start: "cache_coherent K H ?c" by (simp add: cache_coherent_def key_coherent_def NewCache_def)
  have "list_all2 (\<lambda>e kv. event_shows keyf h (convertKVToEvent K e h) (fst kv) (snd kv)) kvs (map snd ?seg)"
    using assms(4) unfolding list.rel_map
  proof (rule list.rel_mono_strong)
    fix e x assume x: "x \<in> set ?seg" "case x of (r, k, v) \<Rightarrow> kv_Key e = k \<and> map_sum id Some (decodeKV K e) = Inr v"
    obtain r k v where xe: "x = (r, k, v)" by (cases x)
    from x(2) xe obtain i where i: "decodeKV K e = Inr i" "v = Some i" by (cases "decodeKV K e") auto
    with x xe history_keys [OF assms(2), of r k i] show "event_shows keyf h (convertKVToEvent K e h) (fst (snd x)) (snd (snd x))"
      by (auto simp: convertKVToEvent_def event_shows_def segment_def)
  qed
  moreover have "distinct (map fst (map snd ?seg))"
    using assms(5) by (simp add: entry_key_eq comp_def)
  moreover have "\<forall>(k, v) \<in> set (map snd ?seg). contents H h k = v"
    using contents_segment [OF assms(2,5)] by auto
  moreover have "response_inv K H h (fst ` set (map snd ?seg)) (c_items ?c)"
    using response_start [OF start, of h] assms(3) by (simp add: image_comp entry_key_def comp_def NewCache_def)
  ultimately obtain c' where c': "fold_res (\<lambda>e. handle_event K keyf (convertKVToEvent K e h)) kvs ?c = Inr c'"
      "response_inv K H h {} (c_items c')"
      "c_lastWatchRevision c' = (if kvs = [] then c_lastWatchRevision ?c else max (c_lastWatchRevision ?c) h)"
    using response_loop [OF assms(1), of keyf h "\<lambda>e. convertKVToEvent K e h"] by blast
  have "cache_coherent K H c'"
  proof (cases "kvs = []")
    case True
    with c'(1) start show ?thesis by simp
  next
    case False
    with c'(2,3) assms(3) show ?thesis by (intro response_end) (auto simp: NewCache_def max_def)
  qed
  with c'(1) show ?thesis by blast
qed


lemma coherent_read_at_least:
  assumes "cache_coherent K H c"
    and "r \<le> c_lastWatchRevision c \<or> (\<exists>cv. gm_get (c_items c) k = Some cv \<and> r \<le> cv_revision cv)"
  shows "\<exists>r'. r \<le> r' \<and> cache_get K k c = Inr (contents H r' k)"
proof (cases "r \<le> c_lastWatchRevision c")
  case True
  with coherent_get [OF assms(1), of k] show ?thesis by (meson order.trans)
next
  case False
  with assms(2) obtain cv where cv: "gm_get (c_items c) k = Some cv" "r \<le> cv_revision cv" by blast
  have "key_coherent K H (c_lastWatchRevision c) (c_items c) k" using assms(1) by (simp add: cache_coherent_def)
  with cv have "cache_get K k c = Inr (contents H (max (c_lastWatchRevision c) (cv_revision cv)) k)"
    by (simp add: key_coherent_def cache_get_cached)
  with cv(2) show ?thesis by (intro exI [of _ "max (c_lastWatchRevision c) (cv_revision cv)"]) simp
qed


section \<open>Sample runs\<close>

text \<open>Queue items whose text starts with their id.\<close>

definition sample_keyf :: "string \<Rightarrow> string" where
  "sample_keyf v = ''/q/'' @ takeWhile (\<lambda>c. c \<noteq> CHR ''='') v"

definition sample_history :: "string history" where
  "sample_history =
     [(1, ''/q/1'', Some \<lparr>item_body = ''1=pending'', item_version = 1\<rparr>),
      (2, ''/q/1'', Some \<lparr>item_body = ''1=running'', item_version = 2\<rparr>)]"

definition sample_put_event :: "string \<Rightarrow> int \<Rightarrow> client_event" where
  "sample_put_event v r = \<lparr>ce_Type = ClientPut, ce_Kv = \<lparr>kv_Key = sample_keyf v,
     kv_Value = CHR 0x22 # v @ [CHR 0x22], kv_Version = r, kv_CreateRevision = 1, kv_ModRevision = r, kv_Lease = 0\<rparr>\<rparr>"

lemma json_total_strings: "json_total string_codec"
  by (simp add: json_total_def string_codec_def)

lemma sample_history_wf: "history_wf sample_keyf sample_history"
  by (simp add: history_wf_def sample_history_def sample_keyf_def)

lemma sample_run_empty: "cache_run string_codec sample_keyf sample_history (NewCache\<lparr>c_started := True\<rparr>)"
  by (rule run_load [of _ "[]" _ 0]) (simp_all add: segment_def sample_history_def)



text \<open>
  C40. The condition that a watch response holds each key at most once is needed: the handler passes the
  revision of the response for every event in it, and a write does not replace an entry of the same
  revision. When a watch catches up and gets two puts of one key in one response, the cache keeps the
  first and older value.
\<close>
theorem batched_puts_leave_stale_value:
  "\<exists>c' rv. handle_response string_codec sample_keyf
       \<lparr>wr_Revision = 2, wr_Err = None, wr_Events = [sample_put_event ''1=pending'' 1, sample_put_event ''1=running'' 2]\<rparr>
       (NewCache, 0) = Inr (c', rv, False) \<and>
     list_all2 (shows_entry string_codec) [sample_put_event ''1=pending'' 1, sample_put_event ''1=running'' 2]
       (segment sample_history 0 2) \<and>
     cache_get string_codec ''/q/1'' c' = Inr (Some \<lparr>item_body = ''1=pending'', item_version = 1\<rparr>) \<and>
     contents sample_history 2 ''/q/1'' = Some \<lparr>item_body = ''1=running'', item_version = 2\<rparr>"
proof -
  have dec: "decodeKV string_codec (ce_Kv (sample_put_event v r)) = Inr \<lparr>item_body = v, item_version = r\<rparr>"
    if "8 \<le> length v" for v r
  proof -
    have "take 3 (CHR 0x22 # v @ [CHR 0x22]) \<noteq> gzip_magic" by (simp add: gzip_magic_def)
    with that show ?thesis
      by (simp add: decodeKV_def sample_put_event_def decodeJSON_def decompress_def gzip_NewReader_def)
        (simp add: string_codec_def)
  qed
  have event: "convertEvent string_codec (sample_put_event v r) h = \<lparr>we_Err = None, we_Type = WatchPut,
      we_Key = sample_keyf v, we_Value = Some \<lparr>item_body = v, item_version = r\<rparr>, we_IsCreate = (r = 1),
      we_IsModify = (r \<noteq> 1), we_Revision = h\<rparr>" if "8 \<le> length v" for v r h
    using dec [OF that] by (auto simp: convertEvent_def sample_put_event_def)
  have raw: "json_Marshal string_codec v = Inr (CHR 0x22 # v @ [CHR 0x22])"
    "json_Unmarshal string_codec (CHR 0x22 # v @ [CHR 0x22]) = Inr v" for v
    by (simp_all add: string_codec_def)
  have "sample_keyf ''1=pending'' = ''/q/1''" "sample_keyf ''1=running'' = ''/q/1''"
    by (simp_all add: sample_keyf_def)
  note keys = this
  have "handle_response string_codec sample_keyf
       \<lparr>wr_Revision = 2, wr_Err = None, wr_Events = [sample_put_event ''1=pending'' 1, sample_put_event ''1=running'' 2]\<rparr>
       (NewCache, 0) = Inr (NewCache\<lparr>c_lastWatchRevision := 2, c_items := [(''/q/1'',
         \<lparr>cv_revision = 2, cv_version = 1, cv_raw = CHR 0x22 # ''1=pending'' @ [CHR 0x22], cv_deleted = False\<rparr>)]\<rparr>, 2, False)"
    by (simp add: handle_response_def event handle_event_def unlockedWrite_def raw keys NewCache_def purgeTombstones_def Let_def)
  moreover have "list_all2 (shows_entry string_codec) [sample_put_event ''1=pending'' 1, sample_put_event ''1=running'' 2]
       (segment sample_history 0 2)"
    using dec [of "''1=pending''" 1] dec [of "''1=running''" 2]
    by (simp add: segment_def sample_history_def shows_entry_def) (simp add: sample_put_event_def keys)
  moreover have "contents sample_history 2 ''/q/1'' = Some \<lparr>item_body = ''1=running'', item_version = 2\<rparr>"
    by (simp add: contents_def sample_history_def)
  ultimately show ?thesis
    using raw(2) [of "''1=pending''"]
    by (simp add: cache_get_def cache_unmarshal_def)
qed

end
