(* ===== verification/Storage_Txn.thy ===== *)
theory Storage_Txn
  imports Storage_Cache
begin

text \<open>
  Transactions (\<^verbatim>\<open>server/internal/storage/txn.go\<close>) over the operations of \<^verbatim>\<open>put.go\<close> and \<^verbatim>\<open>delete.go\<close> and
  over the cached operations of \<^verbatim>\<open>cache.go\<close>, which wrap them and tell the cache after a commit.
\<close>

section \<open>Operations in a transaction\<close>

text \<open>
  A cached operation has the operation that it wraps; a cached prefix deletion also keeps the prefix as
  it was given, without the trailing slash that the wrapped operation adds.
\<close>

datatype 'v txn_op =
    TxnPut "'v put_op"
  | TxnDelete "'v delete_op"
  | TxnCachePut "'v put_op"
  | TxnCacheDelete "'v delete_op"
  | TxnCacheDeletePrefix string "'v delete_op"

definition cache_Put :: "('v \<Rightarrow> string) \<Rightarrow> 'v item \<Rightarrow> op_option list \<Rightarrow> 'v txn_op" where
  "cache_Put keyf i options = TxnCachePut (WithUpdatedVersion (NewPutOp (keyf (item_body i)) i options))"

definition cache_Create :: "('v \<Rightarrow> string) \<Rightarrow> 'v item \<Rightarrow> op_option list \<Rightarrow> 'v txn_op" where
  "cache_Create keyf i options = TxnCachePut (WithUpdatedVersion (NewCreateOp (keyf (item_body i)) i options))"

definition cache_Update :: "('v \<Rightarrow> string) \<Rightarrow> 'v item \<Rightarrow> op_option list \<Rightarrow> 'v txn_op" where
  "cache_Update keyf i options = TxnCachePut (WithUpdatedVersion (NewUpdateOp (keyf (item_body i)) i options))"

definition cache_DeleteByKey :: "string \<Rightarrow> op_option list \<Rightarrow> 'v txn_op" where
  "cache_DeleteByKey key options = TxnCacheDelete (NewDeleteKeyOp key options)"

definition cache_DeleteValue :: "('v \<Rightarrow> string) \<Rightarrow> 'v item \<Rightarrow> op_option list \<Rightarrow> 'v txn_op" where
  "cache_DeleteValue keyf i options = TxnCacheDelete (NewDeleteValueOp (keyf (item_body i)) i options)"

definition cache_DeletePrefix :: "string \<Rightarrow> op_option list \<Rightarrow> 'v txn_op" where
  "cache_DeletePrefix prefix options = TxnCacheDeletePrefix prefix (NewDeletePrefixOp prefix options)"

fun ClientOp :: "'s etcd_client \<Rightarrow> 'v codec \<Rightarrow> 'v txn_op \<Rightarrow> 's \<Rightarrow> (storage_error, client_op) res \<times> 's" where
  "ClientOp C K (TxnPut po) s = put_ClientOp C K po s"
| "ClientOp C K (TxnCachePut po) s = put_ClientOp C K po s"
| "ClientOp C K (TxnDelete d) s = (Inr (delete_ClientOp d), s)"
| "ClientOp C K (TxnCacheDelete d) s = (Inr (delete_ClientOp d), s)"
| "ClientOp C K (TxnCacheDeletePrefix p d) s = (Inr (delete_ClientOp d), s)"

fun Cmps :: "'v txn_op \<Rightarrow> cmp list" where
  "Cmps (TxnPut po) = put_Cmps po"
| "Cmps (TxnCachePut po) = put_Cmps po"
| "Cmps (TxnDelete d) = delete_Cmps d"
| "Cmps (TxnCacheDelete d) = delete_Cmps d"
| "Cmps (TxnCacheDeletePrefix p d) = delete_Cmps d"

fun op_UpdateRevision :: "int \<Rightarrow> 'v txn_op \<Rightarrow> 'v txn_op" where
  "op_UpdateRevision r (TxnPut po) = TxnPut (UpdateRevision r po)"
| "op_UpdateRevision r (TxnCachePut po) = TxnCachePut (UpdateRevision r po)"
| "op_UpdateRevision r (TxnDelete d) = TxnDelete (d\<lparr>do_revision := r\<rparr>)"
| "op_UpdateRevision r (TxnCacheDelete d) = TxnCacheDelete (d\<lparr>do_revision := r\<rparr>)"
| "op_UpdateRevision r (TxnCacheDeletePrefix p d) = TxnCacheDeletePrefix p (d\<lparr>do_revision := r\<rparr>)"

text \<open>Only puts are version updaters, and only when the update is enabled.\<close>

fun op_UpdateVersion :: "(string, kv) gomap \<Rightarrow> 'v txn_op \<Rightarrow> 'v txn_op" where
  "op_UpdateVersion prevKVs (TxnPut po) =
     TxnPut (if po_shouldUpdateVersion po then put_UpdateVersion prevKVs po else po)"
| "op_UpdateVersion prevKVs (TxnCachePut po) =
     TxnCachePut (if po_shouldUpdateVersion po then put_UpdateVersion prevKVs po else po)"
| "op_UpdateVersion prevKVs t = t"

fun UpdateCache :: "(string list \<Rightarrow> string list) \<Rightarrow> 'v codec \<Rightarrow> ('v \<Rightarrow> string) \<Rightarrow> 'v txn_op \<Rightarrow> cache \<Rightarrow>
    (cache_panic, cache) res" where
  "UpdateCache order K keyf (TxnCachePut po) c = cache_put K keyf (po_val po) (po_revision po) c"
| "UpdateCache order K keyf (TxnCacheDelete d) c = Inr (cache_delete (do_key d) (do_revision d) c)"
| "UpdateCache order K keyf (TxnCacheDeletePrefix p d) c = Inr (cache_deletePrefix order p (do_revision d) c)"
| "UpdateCache order K keyf t c = Inr c"

section \<open>Commit\<close>

record 'v txn =
  txn_ops :: "'v txn_op list"
  txn_cmps :: "cmp list"

definition NewTxn :: "'v txn_op list \<Rightarrow> 'v txn" where
  "NewTxn ops = \<lparr>txn_ops = ops, txn_cmps = []\<rparr>"

definition AddOps :: "'v txn_op list \<Rightarrow> 'v txn \<Rightarrow> 'v txn" where
  "AddOps ops t = t\<lparr>txn_ops := txn_ops t @ ops\<rparr>"

definition AddConditions :: "cmp list \<Rightarrow> 'v txn \<Rightarrow> 'v txn" where
  "AddConditions cmps t = t\<lparr>txn_cmps := txn_cmps t @ cmps\<rparr>"

fun opType :: "client_op \<Rightarrow> string" where
  "opType (OpDelete k os) = ''delete''"
| "opType (OpGet k os) = ''get''"
| "opType (OpPut k v os) = ''put''"

text \<open>The requests of the operations, which may grant leases, up to the first error.\<close>

fun client_ops :: "'s etcd_client \<Rightarrow> 'v codec \<Rightarrow> 'v txn_op list \<Rightarrow> 's \<Rightarrow> (storage_error, client_op list) res \<times> 's" where
  "client_ops C K [] s = (Inr [], s)"
| "client_ops C K (t # ts) s =
     (case ClientOp C K t s of
        (Inl e, s1) \<Rightarrow> (Inl e, s1)
      | (Inr op, s1) \<Rightarrow> (case client_ops C K ts s1 of
          (Inl e, s2) \<Rightarrow> (Inl e, s2)
        | (Inr ops, s2) \<Rightarrow> (Inr (op # ops), s2)))"

definition ops_by_key :: "client_op list \<Rightarrow> (string, client_op list) gomap" where
  "ops_by_key ops = fold (\<lambda>op m. gm_put m (KeyBytes op)
     ((case gm_get m (KeyBytes op) of None \<Rightarrow> [] | Some os \<Rightarrow> os) @ [op])) ops []"

definition duplicates :: "client_op list \<Rightarrow> string list" where
  "duplicates ops = concat (map (\<lambda>(key, os). if length os > 1
     then map (\<lambda>op. CHR 0x09 # opType op @ '' '' @ key) os else []) (ops_by_key ops))"

definition Commit :: "(string list \<Rightarrow> string list) \<Rightarrow> 's etcd_client \<Rightarrow> 'v codec \<Rightarrow> ('v \<Rightarrow> string) \<Rightarrow> 'v txn \<Rightarrow> cache \<Rightarrow> 's \<Rightarrow>
    (storage_error, unit) res \<times> 'v txn \<times> (cache_panic, cache) res \<times> 's" where
  "Commit order C K keyf t c s =
     (case client_ops C K (txn_ops t) s of
        (Inl e, s1) \<Rightarrow> (Inl e, t, Inr c, s1)
      | (Inr allOps, s1) \<Rightarrow>
          (let allCmps = concat (map Cmps (txn_ops t)) @ txn_cmps t;
               dups = duplicates allOps
           in if dups \<noteq> [] then (Inl (ErrDuplicateKeysInTransaction dups), t, Inr c, s1)
              else (case client_Txn C allCmps allOps s1 of
                  (Inl e, s2) \<Rightarrow> (Inl (ErrRequest ''transaction'' e), t, Inr c, s2)
                | (Inr resp, s2) \<Rightarrow>
                    (let t1 = t\<lparr>txn_ops := map (op_UpdateRevision (tr_Revision resp)) (txn_ops t)\<rparr>
                     in if \<not> tr_Succeeded resp then (Inl ErrOperationConstraintViolated, t1, Inr c, s2)
                        else (let t2 = t1\<lparr>txn_ops := map (op_UpdateVersion (extractPrevKVs resp)) (txn_ops t1)\<rparr>
                              in (Inr (), t2, fold_res (UpdateCache order K keyf) (txn_ops t2) c, s2))))))"

section \<open>Atomicity\<close>

lemma ops_by_key_get:
  "gm_get (fold (\<lambda>op m. gm_put m (KeyBytes op)
     ((case gm_get m (KeyBytes op) of None \<Rightarrow> [] | Some os \<Rightarrow> os) @ [op])) ops m) k =
   (case filter (\<lambda>op. KeyBytes op = k) ops of
      [] \<Rightarrow> gm_get m k
    | os \<Rightarrow> Some ((case gm_get m k of None \<Rightarrow> [] | Some os \<Rightarrow> os) @ os))"
  by (induction ops arbitrary: m) (auto split: list.splits option.splits)

lemma gomap_wf_ops_by_key: "gomap_wf m \<Longrightarrow> gomap_wf (fold (\<lambda>op m. gm_put m (KeyBytes op)
     ((case gm_get m (KeyBytes op) of None \<Rightarrow> [] | Some os \<Rightarrow> os) @ [op])) ops m)"
  by (induction ops arbitrary: m) auto

lemma distinct_filter_length: "distinct (map f xs) \<longleftrightarrow> (\<forall>k. length (filter (\<lambda>x. f x = k) xs) \<le> 1)"
proof (induction xs)
  case (Cons x xs)
  have step: "length (filter (\<lambda>y. f y = k) (x # xs)) \<le> 1 \<longleftrightarrow>
      (if f x = k then filter (\<lambda>y. f y = k) xs = [] else length (filter (\<lambda>y. f y = k) xs) \<le> 1)" for k
    by simp
  have empty: "filter (\<lambda>y. f y = f x) xs = [] \<longleftrightarrow> f x \<notin> f ` set xs" 
    unfolding filter_empty_conv image_iff by metis
  have "(\<forall>k. length (filter (\<lambda>y. f y = k) (x # xs)) \<le> 1) \<longleftrightarrow>
      filter (\<lambda>y. f y = f x) xs = [] \<and> (\<forall>k. length (filter (\<lambda>y. f y = k) xs) \<le> 1)"
  proof (intro iffI conjI allI)
    fix k
    assume all: "\<forall>k. length (filter (\<lambda>y. f y = k) (x # xs)) \<le> 1"
    from all [rule_format, of "f x"] show *: "filter (\<lambda>y. f y = f x) xs = []" unfolding step by simp
    from all [rule_format, of k] * show "length (filter (\<lambda>y. f y = k) xs) \<le> 1"
      unfolding step by (cases "f x = k") simp_all
  next
    fix k
    assume "filter (\<lambda>y. f y = f x) xs = [] \<and> (\<forall>k. length (filter (\<lambda>y. f y = k) xs) \<le> 1)"
    then show "length (filter (\<lambda>y. f y = k) (x # xs)) \<le> 1" unfolding step by (cases "f x = k") auto
  qed
  with empty have "(\<forall>k. length (filter (\<lambda>y. f y = k) (x # xs)) \<le> 1) \<longleftrightarrow>
      f x \<notin> f ` set xs \<and> (\<forall>k. length (filter (\<lambda>y. f y = k) xs) \<le> 1)" by argo
  with Cons show ?case by simp
qed simp

lemma duplicates_iff: "duplicates ops = [] \<longleftrightarrow> distinct (map KeyBytes ops)"
proof -
  have mem: "(k, os) \<in> set (ops_by_key ops) \<longleftrightarrow> os \<noteq> [] \<and> os = filter (\<lambda>op. KeyBytes op = k) ops" for k os
    using ops_by_key_get [of ops "[]" k] gomap_wf_ops_by_key [of "[]" ops]
    by (auto simp: ops_by_key_def gm_get_iff_mem [symmetric] split: list.splits)
  have "duplicates ops = [] \<longleftrightarrow> (\<forall>x \<in> set (ops_by_key ops). length (snd x) \<le> 1)"
  proof -
    have c: "concat (map g xs) = [] \<longleftrightarrow> (\<forall>x \<in> set xs. g x = [])"
      for g :: "string \<times> client_op list \<Rightarrow> string list" and xs by (induction xs) auto
    have e: "(case x of (key, os) \<Rightarrow> if length os > 1 then map (h key) os else []) = [] \<longleftrightarrow> length (snd x) \<le> 1"
      for x :: "string \<times> client_op list" and h :: "string \<Rightarrow> client_op \<Rightarrow> string"
      by (cases x; cases "snd x") auto
    show ?thesis unfolding duplicates_def c e ..
  qed
  also have "\<dots> \<longleftrightarrow> (\<forall>k os. (k, os) \<in> set (ops_by_key ops) \<longrightarrow> length os \<le> 1)" by auto
  also have "\<dots> \<longleftrightarrow> (\<forall>k. length (filter (\<lambda>op. KeyBytes op = k) ops) \<le> 1)"
  proof -
    have "length os \<le> 1" if "os = []" for os :: "client_op list" using that by simp
    then show ?thesis unfolding mem by blast
  qed
  finally show ?thesis by (simp add: distinct_filter_length)
qed

text \<open>The key of an operation and the request that it sends.\<close>

fun txn_key :: "'v txn_op \<Rightarrow> string" where
  "txn_key (TxnPut po) = po_key po"
| "txn_key (TxnCachePut po) = po_key po"
| "txn_key (TxnDelete d) = do_key d"
| "txn_key (TxnCacheDelete d) = do_key d"
| "txn_key (TxnCacheDeletePrefix p d) = do_key d"

definition put_sends :: "'v codec \<Rightarrow> 'v put_op \<Rightarrow> client_op \<Rightarrow> bool" where
  "put_sends K po op \<longleftrightarrow> (\<exists>enc opts. encodeJSON K (item_body (po_val po)) = Inr enc \<and>
     op = OpPut (po_key po) enc opts \<and> set (po_options po) \<subseteq> set opts)"

fun sends :: "'v codec \<Rightarrow> 'v txn_op \<Rightarrow> client_op \<Rightarrow> bool" where
  "sends K (TxnPut po) op = put_sends K po op"
| "sends K (TxnCachePut po) op = put_sends K po op"
| "sends K (TxnDelete d) op = (op = delete_ClientOp d)"
| "sends K (TxnCacheDelete d) op = (op = delete_ClientOp d)"
| "sends K (TxnCacheDeletePrefix p d) op = (op = delete_ClientOp d)"

fun op_revision :: "'v txn_op \<Rightarrow> int" where
  "op_revision (TxnPut po) = po_revision po"
| "op_revision (TxnCachePut po) = po_revision po"
| "op_revision (TxnDelete d) = do_revision d"
| "op_revision (TxnCacheDelete d) = do_revision d"
| "op_revision (TxnCacheDeletePrefix p d) = do_revision d"

lemma sends_key: "sends K t op \<Longrightarrow> KeyBytes op = txn_key t"
  by (cases t) (auto simp: put_sends_def delete_ClientOp_def split: delete_kind.splits)

lemma op_revision_update [simp]: "op_revision (op_UpdateVersion p (op_UpdateRevision r t)) = r"
  by (cases t) (simp_all add: UpdateRevision_def put_UpdateVersion_def)

lemma sends_keys: "list_all2 (sends K) ts ops \<Longrightarrow> map KeyBytes ops = map txn_key ts"
  by (induction rule: list_all2_induct) (simp_all add: sends_key)

lemma etcd_txn_results:
  "(tr, m') = etcd_txn r cmps ops m \<Longrightarrow> tr_Succeeded tr = list_all (cmp_holds m) cmps \<and>
    m' = (if list_all (cmp_holds m) cmps then snd (etcd_ops r ops m) else m)"
  by (simp add: etcd_txn_def Let_def split_beta split: if_splits)

context etcd_server
begin

lemma ClientOp_cases:
  assumes "ClientOp C K t s = (r, s1)"
  shows "rely (kvs s) (kvs s1) \<and> (case r of
      Inr op \<Rightarrow> sends K t op
    | Inl e \<Rightarrow> e \<noteq> ErrOperationConstraintViolated \<and> (\<forall>ds. e \<noteq> ErrDuplicateKeysInTransaction ds))"
proof -
  have put: "rely (kvs s) (kvs s1) \<and> (case r of
      Inr op \<Rightarrow> put_sends K po op
    | Inl e \<Rightarrow> e \<noteq> ErrOperationConstraintViolated \<and> (\<forall>ds. e \<noteq> ErrDuplicateKeysInTransaction ds))"
    if p: "put_ClientOp C K po s = (r, s1)" for po
  proof -
    have "e \<noteq> ErrOperationConstraintViolated \<and> (\<forall>ds. e \<noteq> ErrDuplicateKeysInTransaction ds)" if "r = Inl e" for e
      using p that by (auto simp: put_ClientOp_def clientPutOp_def rbind_def Let_def split: option.splits sum.splits prod.splits)
    with put_ClientOp_cases [OF p] show ?thesis by (auto simp: put_sends_def split: sum.splits)
  qed
  show ?thesis
  proof (cases t)
    case (TxnPut po)
    with put [of po] assms show ?thesis by (cases r) simp_all
  next
    case (TxnCachePut po)
    with put [of po] assms show ?thesis by (cases r) simp_all
  qed (use assms rely_refl in auto)
qed

lemma client_ops_cases:
  assumes "client_ops C K ts s = (r, s1)"
  shows "rely (kvs s) (kvs s1) \<and> (case r of
      Inr ops \<Rightarrow> list_all2 (sends K) ts ops
    | Inl e \<Rightarrow> e \<noteq> ErrOperationConstraintViolated \<and> (\<forall>ds. e \<noteq> ErrDuplicateKeysInTransaction ds))"
  using assms
proof (induction ts arbitrary: s r s1)
  case Nil
  then show ?case by (auto simp: rely_refl)
next
  case (Cons t ts)
  obtain r1 s2 where t: "ClientOp C K t s = (r1, s2)" by fastforce
  note tc = ClientOp_cases [OF t]
  show ?case
  proof (cases r1)
    case (Inl e)
    with t Cons.prems tc show ?thesis by auto
  next
    case (Inr op)
    obtain r2 s3 where ts: "client_ops C K ts s2 = (r2, s3)" by fastforce
    note ih = Cons.IH [OF ts]
    have rel: "rely (kvs s) (kvs s3)" using tc ih rely_trans by blast
    show ?thesis
    proof (cases r2)
      case (Inl e)
      with t ts Inr Cons.prems ih rel show ?thesis by auto
    next
      case (Inr ops)
      with t ts \<open>r1 = Inr op\<close> Cons.prems ih tc rel show ?thesis by auto
    qed
  qed
qed

end

text \<open>The outcome of a commit on the contents \<open>m\<close> that the transaction has met.\<close>

definition committed :: "'v codec \<Rightarrow> 'v txn \<Rightarrow> int \<Rightarrow> store \<Rightarrow> store \<Rightarrow> bool" where
  "committed K t r m m' \<longleftrightarrow>
     list_all (cmp_holds m) (concat (map Cmps (txn_ops t)) @ txn_cmps t) \<and>
     (\<exists>ops. list_all2 (sends K) (txn_ops t) ops \<and> m' = snd (etcd_ops r ops m))"

definition commit_spec :: "'v codec \<Rightarrow> 'v txn \<Rightarrow> 'v txn \<Rightarrow> store \<Rightarrow> (storage_error, unit) res \<Rightarrow> store \<Rightarrow> bool" where
  "commit_spec K t t' m r m' \<longleftrightarrow> (case r of
       Inr _ \<Rightarrow> distinct (map txn_key (txn_ops t)) \<and>
         (\<exists>rv. committed K t rv m m' \<and> list_all (\<lambda>o'. op_revision o' = rv) (txn_ops t'))
     | Inl ErrOperationConstraintViolated \<Rightarrow>
         \<not> list_all (cmp_holds m) (concat (map Cmps (txn_ops t)) @ txn_cmps t) \<and> m' = m
     | Inl (ErrDuplicateKeysInTransaction ds) \<Rightarrow> \<not> distinct (map txn_key (txn_ops t)) \<and> m' = m
     | Inl _ \<Rightarrow> m' = m \<or> (\<exists>rv. committed K t rv m m'))"

lemma commit_spec_other:
  assumes "e \<noteq> ErrOperationConstraintViolated" and "\<And>ds. e \<noteq> ErrDuplicateKeysInTransaction ds"
    and "m' = m \<or> (\<exists>rv. committed K t rv m m')"
  shows "commit_spec K t t' m (Inl e) m'"
proof (cases e)
  case (ErrDuplicateKeysInTransaction ds)
  with assms(2) show ?thesis by blast
qed (use assms in \<open>simp_all add: commit_spec_def\<close>)

lemma Commit_request_error:
  "client_ops C K (txn_ops t) s = (Inl e, s1) \<Longrightarrow> Commit order C K keyf t c s = (Inl e, t, Inr c, s1)"
  by (simp add: Commit_def)

lemma Commit_duplicates:
  "client_ops C K (txn_ops t) s = (Inr ops, s1) \<Longrightarrow> duplicates ops \<noteq> [] \<Longrightarrow>
    Commit order C K keyf t c s = (Inl (ErrDuplicateKeysInTransaction (duplicates ops)), t, Inr c, s1)"
  by (simp add: Commit_def Let_def)

lemma Commit_txn:
  assumes "client_ops C K (txn_ops t) s = (Inr ops, s1)" and "duplicates ops = []"
    and "client_Txn C (concat (map Cmps (txn_ops t)) @ txn_cmps t) ops s1 = (tr, s2)"
  shows "case tr of
      Inl e \<Rightarrow> Commit order C K keyf t c s = (Inl (ErrRequest ''transaction'' e), t, Inr c, s2)
    | Inr resp \<Rightarrow> if tr_Succeeded resp
        then \<exists>t' c'. Commit order C K keyf t c s = (Inr (), t', c', s2) \<and>
          txn_ops t' = map (\<lambda>o'. op_UpdateVersion (extractPrevKVs resp) (op_UpdateRevision (tr_Revision resp) o')) (txn_ops t)
        else \<exists>t'. Commit order C K keyf t c s = (Inl ErrOperationConstraintViolated, t', Inr c, s2)"
  using assms by (cases tr) (simp_all add: Commit_def Let_def comp_def)

text \<open>
  C12. A commit is all or nothing, whatever other clients do at the same time: it succeeds only when the
  conditions of all operations hold together, and then all operations take effect at one revision, which
  every operation object gets; operations on the same key are refused before anything is sent; a violated
  condition leaves the store unchanged; and any other error leaves either everything or nothing.
\<close>
theorem Commit_all_or_nothing:
  assumes "etcd_server C kvs rely" and "Commit order C K keyf t c s = (r, t', c', s')"
  shows "\<exists>m. rely (kvs s) m \<and> commit_spec K t t' m r (kvs s')"
proof -
  let ?cmps = "concat (map Cmps (txn_ops t)) @ txn_cmps t"
  obtain r1 s1 where ops: "client_ops C K (txn_ops t) s = (r1, s1)" by (cases "client_ops C K (txn_ops t) s")
  note oc = etcd_server.client_ops_cases [OF assms(1) ops]
  then have rel1: "rely (kvs s) (kvs s1)" ..
  show ?thesis
  proof (cases r1)
    case (Inl e)
    with Commit_request_error [of C K t s e s1] ops assms(2) have "r = Inl e" "s' = s1" by simp_all
    with oc Inl have "commit_spec K t t' (kvs s1) r (kvs s')" by (auto intro: commit_spec_other)
    with rel1 show ?thesis by blast
  next
    case (Inr allOps)
    with oc have sent: "list_all2 (sends K) (txn_ops t) allOps" by simp
    have keys: "distinct (map txn_key (txn_ops t)) \<longleftrightarrow> duplicates allOps = []"
      by (simp add: duplicates_iff sends_keys [OF sent])
    have ops': "client_ops C K (txn_ops t) s = (Inr allOps, s1)" using ops Inr by simp
    show ?thesis
    proof (cases "duplicates allOps = []")
      case False
      with Commit_duplicates [OF ops' False] assms(2) keys have "commit_spec K t t' (kvs s1) r (kvs s')"
        by (auto simp: commit_spec_def)
      with rel1 show ?thesis by blast
    next
      case True
      obtain tr s2 where tr: "client_Txn C ?cmps allOps s1 = (tr, s2)" by (cases "client_Txn C ?cmps allOps s1")
      note ct = Commit_txn [OF ops' True tr, of order keyf c]
      have comm: "committed K t rv m (snd (etcd_ops rv allOps m))" if "list_all (cmp_holds m) ?cmps" for m rv
        unfolding committed_def using that sent by blast
      show ?thesis
      proof (cases tr)
        case (Inl e)
        with ct assms(2) have r: "r = Inl (ErrRequest ''transaction'' e)" "s' = s2" by simp_all
        from etcd_server.Txn_error_law [OF assms(1) tr [unfolded Inl]] obtain m rv where
          m: "rely (kvs s1) m" "kvs s2 = m \<or> kvs s2 = snd (etcd_txn rv ?cmps allOps m)" by blast
        have "snd (etcd_txn rv ?cmps allOps m) = (if list_all (cmp_holds m) ?cmps then snd (etcd_ops rv allOps m) else m)"
          using etcd_txn_results [OF prod.collapse, of rv ?cmps allOps m] by (rule conjunct2)
        with m(2) comm [of m rv] have "kvs s2 = m \<or> (\<exists>rv. committed K t rv m (kvs s2))" by metis
        then have "commit_spec K t t' m r (kvs s')" unfolding r by (intro commit_spec_other) auto
        with etcd_server.rely_trans [OF assms(1) rel1 m(1)] show ?thesis by blast
      next
        case (Inr resp)
        from etcd_server.Txn_law [OF assms(1) tr [unfolded Inr]] obtain m where
          m: "rely (kvs s1) m" "(resp, kvs s2) = etcd_txn (tr_Revision resp) ?cmps allOps m" by blast
        have rel: "rely (kvs s) m" by (rule etcd_server.rely_trans [OF assms(1) rel1 m(1)])
        note res = etcd_txn_results [OF m(2)]
        have "commit_spec K t t' m r (kvs s')"
        proof (cases "list_all (cmp_holds m) ?cmps")
          case holds: True
          with res ct Inr assms(2) have r: "r = Inr ()" "s' = s2" "txn_ops t' =
              map (\<lambda>o'. op_UpdateVersion (extractPrevKVs resp) (op_UpdateRevision (tr_Revision resp) o')) (txn_ops t)"
            by (auto simp del: list_all_append)
          have "kvs s2 = snd (etcd_ops (tr_Revision resp) allOps m)" using res holds by argo
          with comm [OF holds] r keys True show ?thesis
            unfolding commit_spec_def by (auto simp: list_all_iff simp del: list_all_append)
        next
          case False
          with res ct Inr assms(2) have "r = Inl ErrOperationConstraintViolated" "s' = s2" "kvs s2 = m"
            by (auto simp del: list_all_append)
          with False show ?thesis unfolding commit_spec_def by (simp del: list_all_append)
        qed
        with rel show ?thesis by blast
      qed
    qed
  qed
qed

lemma sample_commit:
  "\<exists>t' c'. Commit id (local_client quiet) string_codec sample_keyf (NewTxn [TxnPut sample_create]) NewCache (0, fmempty) =
    (Inr (), t', c', (1, fmupd ''/hosts/1'' sample_kv fmempty))"
  by (simp add: Commit_def NewTxn_def duplicates_def ops_by_key_def sample_create_def put_ClientOp_def clientPutOp_def
      NewCreateOp_def WithUpdatedVersion_def put_Cmps_def encodeJSON_def compress_def compressionThreshold_def
      string_codec_def local_client_def request_def serve_txn_def etcd_txn_def version_of_def next_revision_def changes_def
      sample_item_def sample_kv_def written_def lease_of_def Let_def)

theorem Commit_all_or_nothing_witness:
  "\<exists>t'. commit_spec string_codec (NewTxn [TxnPut sample_create]) t' fmempty (Inr ()) (fmupd ''/hosts/1'' sample_kv fmempty)"
proof -
  obtain t' c' where run: "Commit id (local_client quiet) string_codec sample_keyf (NewTxn [TxnPut sample_create]) NewCache
      (0, fmempty) = (Inr (), t', c', (1, fmupd ''/hosts/1'' sample_kv fmempty))" using sample_commit by blast
  from Commit_all_or_nothing [OF alone.etcd_server_axioms run] show ?thesis by auto
qed

end
