(* ===== verification/Ports.thy ===== *)
theory Ports
  imports CP_Prelude "HOL-Library.Word"
begin

text \<open>
  The allocator of ports (\<^verbatim>\<open>server/internal/ports/ports.go\<close>): a bitmap over all valid ports, kept in a
  \<^verbatim>\<open>big.Int\<close>, from which random free ports of a configured range are drawn. The random number is a
  parameter.
\<close>

section \<open>The bitmap\<close>

definition MinValidPort :: int where
  "MinValidPort = 1"

definition MaxValidPort :: int where
  "MaxValidPort = 65535"

definition bitmapBytes :: nat where
  "bitmapBytes = nat ((MaxValidPort + 7) div 8)"

datatype port_error =
    ErrInvalidRange
  | ErrMinGreaterThanMax int int
  | ErrFull
  | ErrAllocated
  | ErrNotInRange int int
  | ErrSnapshotSize nat

record port_range =
  pr_min :: int
  pr_max :: int
  pr_bits :: nat

definition NewPortRange :: "int \<Rightarrow> int \<Rightarrow> (port_error, port_range) res" where
  "NewPortRange mn mx =
     (if mn < MinValidPort \<or> mx > MaxValidPort then Inl ErrInvalidRange
      else if mn > mx then Inl (ErrMinGreaterThanMax mn mx)
      else Inr \<lparr>pr_min = mn, pr_max = mx, pr_bits = 0\<rparr>)"

abbreviation port_bit :: "nat \<Rightarrow> int \<Rightarrow> bool" where
  "port_bit bits p \<equiv> bit bits (nat p)"

definition Used :: "port_range \<Rightarrow> int" where
  "Used r = int (length (filter (port_bit (pr_bits r)) [pr_min r..pr_max r]))"

definition Free :: "port_range \<Rightarrow> int" where
  "Free r = pr_max r - pr_min r + 1 - Used r"

definition Allocate :: "int \<Rightarrow> port_range \<Rightarrow> (port_error, port_range) res" where
  "Allocate port r =
     (if port < MinValidPort \<or> port > MaxValidPort then Inl (ErrNotInRange MinValidPort MaxValidPort)
      else if port_bit (pr_bits r) port then Inl ErrAllocated
      else Inr (r\<lparr>pr_bits := set_bit (nat port) (pr_bits r)\<rparr>))"

text \<open>The loop of \<^verbatim>\<open>AllocateNext\<close>: the free port with \<open>n\<close> free ports before it.\<close>

fun nth_free :: "nat \<Rightarrow> nat \<Rightarrow> int list \<Rightarrow> int option" where
  "nth_free bits n [] = None"
| "nth_free bits n (p # ps) =
     (if \<not> port_bit bits p then (if n = 0 then Some p else nth_free bits (n - 1) ps)
      else nth_free bits n ps)"

definition AllocateNext :: "(int \<Rightarrow> nat) \<Rightarrow> port_range \<Rightarrow> (port_error, int \<times> port_range) res" where
  "AllocateNext rand_Intn r =
     (let free = Free r
      in if free = 0 then Inl ErrFull
         else case nth_free (pr_bits r) (rand_Intn free) [pr_min r..pr_max r] of
           Some p \<Rightarrow> Inr (p, r\<lparr>pr_bits := set_bit (nat p) (pr_bits r)\<rparr>)
         | None \<Rightarrow> Inl ErrFull)"

definition Release :: "int \<Rightarrow> port_range \<Rightarrow> port_range" where
  "Release port r =
     (if port < MinValidPort \<or> port > MaxValidPort then r
      else r\<lparr>pr_bits := unset_bit (nat port) (pr_bits r)\<rparr>)"

definition Has :: "port_range \<Rightarrow> int \<Rightarrow> bool" where
  "Has r port = (if port < MinValidPort \<or> port > MaxValidPort then False else port_bit (pr_bits r) port)"

definition ForEach :: "(int \<Rightarrow> 'a \<Rightarrow> 'a) \<Rightarrow> port_range \<Rightarrow> 'a \<Rightarrow> 'a" where
  "ForEach f r = fold f (filter (port_bit (pr_bits r)) [MinValidPort..MaxValidPort])"

text \<open>\<^verbatim>\<open>big.Int.FillBytes\<close> and \<^verbatim>\<open>SetBytes\<close>: big-endian bytes.\<close>

type_synonym byte = "8 word"

fun fill_bytes :: "nat \<Rightarrow> nat \<Rightarrow> byte list" where
  "fill_bytes 0 x = []"
| "fill_bytes (Suc n) x = fill_bytes n (x div 256) @ [word_of_nat x]"

definition set_bytes :: "byte list \<Rightarrow> nat" where
  "set_bytes bs = foldl (\<lambda>x b. x * 256 + unat b) 0 bs"

definition Snapshot :: "port_range \<Rightarrow> byte list" where
  "Snapshot r = fill_bytes bitmapBytes (pr_bits r)"

definition Restore :: "byte list \<Rightarrow> port_range \<Rightarrow> (port_error, port_range) res" where
  "Restore data r =
     (if length data \<noteq> bitmapBytes then Inl (ErrSnapshotSize (length data))
      else Inr (r\<lparr>pr_bits := set_bytes data\<rparr>))"

section \<open>The allocator as a set of ports\<close>

definition allocated :: "port_range \<Rightarrow> int set" where
  "allocated r = {p. Has r p}"

definition valid_port :: "int \<Rightarrow> bool" where
  "valid_port p \<longleftrightarrow> MinValidPort \<le> p \<and> p \<le> MaxValidPort"

text \<open>
  A range is well formed when its bounds are valid and the bitmap fits the snapshot.
\<close>

definition range_wf :: "port_range \<Rightarrow> bool" where
  "range_wf r \<longleftrightarrow> MinValidPort \<le> pr_min r \<and> pr_min r \<le> pr_max r \<and> pr_max r \<le> MaxValidPort \<and>
     take_bit 65536 (pr_bits r) = pr_bits r"

lemma bitmapBytes_val: "bitmapBytes = 8192"
  by (simp add: bitmapBytes_def MaxValidPort_def)

lemmas port_bounds = MinValidPort_def MaxValidPort_def

lemma mem_allocated: "p \<in> allocated r \<longleftrightarrow> valid_port p \<and> port_bit (pr_bits r) p"
  by (auto simp: allocated_def Has_def valid_port_def)

lemma finite_allocated [simp]: "finite (allocated r)"
  by (rule finite_subset [of _ "{MinValidPort..MaxValidPort}"]) (auto simp: mem_allocated valid_port_def)

lemma nat_port_eq: "valid_port p \<Longrightarrow> valid_port q \<Longrightarrow> nat p = nat q \<longleftrightarrow> p = q"
  by (auto simp: valid_port_def port_bounds)

lemma allocated_set_bit:
  "valid_port p \<Longrightarrow> allocated (r\<lparr>pr_bits := set_bit (nat p) (pr_bits r)\<rparr>) = insert p (allocated r)"
  by (auto simp: mem_allocated bit_set_bit_iff nat_port_eq)

lemma allocated_unset_bit:
  "valid_port p \<Longrightarrow> allocated (r\<lparr>pr_bits := unset_bit (nat p) (pr_bits r)\<rparr>) = allocated r - {p}"
  by (auto simp: mem_allocated bit_unset_bit_iff nat_port_eq)

lemma take_bit_set_bit:
  assumes "valid_port p" and "take_bit 65536 b = (b :: nat)"
  shows "take_bit 65536 (set_bit (nat p) b) = set_bit (nat p) b"
proof (rule bit_eqI)
  fix n
  have "nat p < 65536" using assms(1) by (auto simp: valid_port_def port_bounds nat_less_iff)
  moreover have "bit b n \<Longrightarrow> n < 65536" using assms(2) by (metis bit_take_bit_iff)
  ultimately show "bit (take_bit 65536 (set_bit (nat p) b)) n = bit (set_bit (nat p) b) n"
    by (auto simp: bit_take_bit_iff bit_set_bit_iff)
qed

lemma take_bit_unset_bit:
  assumes "take_bit 65536 b = (b :: nat)"
  shows "take_bit 65536 (unset_bit n b) = unset_bit n b"
proof (rule bit_eqI)
  fix k
  have "bit b k \<Longrightarrow> k < 65536" using assms by (metis bit_take_bit_iff)
  then show "bit (take_bit 65536 (unset_bit n b)) k = bit (unset_bit n b) k"
    by (auto simp: bit_take_bit_iff bit_unset_bit_iff)
qed

section \<open>Drawing a free port\<close>

lemma nth_free_Some:
  "nth_free bits n ps = Some p \<Longrightarrow> p \<in> set ps \<and> \<not> port_bit bits p"
  by (induction ps arbitrary: n) (auto split: if_splits)

lemma nth_free_filter:
  "nth_free bits n ps = (if n < length (filter (\<lambda>p. \<not> port_bit bits p) ps)
     then Some (filter (\<lambda>p. \<not> port_bit bits p) ps ! n) else None)"
  by (induction ps arbitrary: n) (auto simp: nth_Cons')

lemma Free_filter:
  assumes "pr_min r \<le> pr_max r"
  shows "Free r = int (length (filter (\<lambda>p. \<not> port_bit (pr_bits r) p) [pr_min r..pr_max r]))"
  using sum_length_filter_compl [of "port_bit (pr_bits r)" "[pr_min r..pr_max r]"] assms
  by (simp add: Free_def Used_def length_upto)

lemma Used_card: "Used r = int (card (allocated r \<inter> {pr_min r..pr_max r}))"
  if "range_wf r"
proof -
  have "set (filter (port_bit (pr_bits r)) [pr_min r..pr_max r]) = allocated r \<inter> {pr_min r..pr_max r}"
    using that by (auto simp: mem_allocated valid_port_def range_wf_def)
  then show ?thesis by (metis Used_def distinct_card distinct_filter distinct_upto)
qed

lemma Free_card:
  assumes "range_wf r"
  shows "Free r = int (card ({pr_min r..pr_max r} - allocated r))"
proof -
  have "set (filter (\<lambda>p. \<not> port_bit (pr_bits r) p) [pr_min r..pr_max r]) = {pr_min r..pr_max r} - allocated r"
    using assms by (auto simp: mem_allocated valid_port_def range_wf_def)
  with assms show ?thesis
    by (metis Free_filter distinct_card distinct_filter distinct_upto range_wf_def)
qed

lemma range_wf_set_bit: "range_wf r \<Longrightarrow> valid_port p \<Longrightarrow> range_wf (r\<lparr>pr_bits := set_bit (nat p) (pr_bits r)\<rparr>)"
  by (simp add: range_wf_def take_bit_set_bit)

lemma range_valid: "range_wf r \<Longrightarrow> p \<in> {pr_min r..pr_max r} \<Longrightarrow> valid_port p"
  by (simp add: range_wf_def valid_port_def)

lemma AllocateNext_cases:
  assumes "range_wf r" and "AllocateNext rnd r = res"
  shows "(res = Inl ErrFull \<and> (({pr_min r..pr_max r} \<subseteq> allocated r) \<or> rnd (Free r) \<ge> nat (Free r))) \<or>
    (\<exists>p r'. res = Inr (p, r') \<and> p \<in> {pr_min r..pr_max r} \<and> p \<notin> allocated r \<and> range_wf r' \<and>
      allocated r' = insert p (allocated r) \<and> pr_min r' = pr_min r \<and> pr_max r' = pr_max r \<and> rnd (Free r) < nat (Free r))"
proof (cases "Free r = 0")
  case True
  with Free_card [OF assms(1)] have "{pr_min r..pr_max r} \<subseteq> allocated r" by auto
  with True assms(2) show ?thesis by (simp add: AllocateNext_def)
next
  case False
  let ?ps = "filter (\<lambda>p. \<not> port_bit (pr_bits r) p) [pr_min r..pr_max r]"
  have len: "nat (Free r) = length ?ps" using Free_filter [of r] assms(1) by (simp add: range_wf_def)
  show ?thesis
  proof (cases "rnd (Free r) < length ?ps")
    case True
    let ?p = "?ps ! rnd (Free r)"
    have "?p \<in> set ?ps" using True by (rule nth_mem)
    then have p: "?p \<in> {pr_min r..pr_max r}" "\<not> port_bit (pr_bits r) ?p" by auto
    have v: "valid_port ?p" by (rule range_valid [OF assms(1) p(1)])
    have "res = Inr (?p, r\<lparr>pr_bits := set_bit (nat ?p) (pr_bits r)\<rparr>)"
      using assms(2) False True by (simp add: AllocateNext_def Let_def nth_free_filter)
    with p v assms(1) True len show ?thesis
      by (auto simp: allocated_set_bit range_wf_set_bit mem_allocated)
  next
    case no: False
    with assms(2) False have "res = Inl ErrFull" by (simp add: AllocateNext_def Let_def nth_free_filter)
    with no len show ?thesis by simp
  qed
qed

text \<open>
  C20. The bitmap behaves like a set of ports: a new range is empty, an allocation adds exactly the given
  port and fails when it is invalid or taken, a release removes it, an automatic allocation takes a port
  of the configured range that was free and fails only when none is, and the counts are those of the set.
\<close>
theorem port_operations_refine_set:
  assumes "range_wf r" and "\<And>free. 0 < free \<Longrightarrow> rnd free < nat free"
  shows "(\<forall>mn mx r0. NewPortRange mn mx = Inr r0 \<longrightarrow> range_wf r0 \<and> allocated r0 = {} \<and> pr_min r0 = mn \<and> pr_max r0 = mx) \<and>
    (case Allocate p r of
       Inl e \<Rightarrow> (e = ErrNotInRange 1 65535 \<and> \<not> valid_port p) \<or> (e = ErrAllocated \<and> p \<in> allocated r)
     | Inr r' \<Rightarrow> valid_port p \<and> p \<notin> allocated r \<and> range_wf r' \<and> allocated r' = insert p (allocated r)) \<and>
    (range_wf (Release p r) \<and> allocated (Release p r) = allocated r - {p}) \<and>
    (case AllocateNext rnd r of
       Inl e \<Rightarrow> e = ErrFull \<and> {pr_min r..pr_max r} \<subseteq> allocated r
     | Inr (q, r') \<Rightarrow> q \<in> {pr_min r..pr_max r} - allocated r \<and> range_wf r' \<and> allocated r' = insert q (allocated r)) \<and>
    Used r = int (card (allocated r \<inter> {pr_min r..pr_max r})) \<and>
    Free r = int (card ({pr_min r..pr_max r} - allocated r)) \<and>
    (Has r p \<longleftrightarrow> p \<in> allocated r)"
proof (intro conjI)
  show "\<forall>mn mx r0. NewPortRange mn mx = Inr r0 \<longrightarrow> range_wf r0 \<and> allocated r0 = {} \<and> pr_min r0 = mn \<and> pr_max r0 = mx"
    by (auto simp: NewPortRange_def range_wf_def mem_allocated split: if_splits)
  show "case Allocate p r of
       Inl e \<Rightarrow> (e = ErrNotInRange 1 65535 \<and> \<not> valid_port p) \<or> (e = ErrAllocated \<and> p \<in> allocated r)
     | Inr r' \<Rightarrow> valid_port p \<and> p \<notin> allocated r \<and> range_wf r' \<and> allocated r' = insert p (allocated r)"
    using assms(1) by (auto simp: Allocate_def mem_allocated valid_port_def port_bounds
        allocated_set_bit [unfolded valid_port_def port_bounds] range_wf_set_bit [unfolded valid_port_def port_bounds])
  show "range_wf (Release p r)"
    using assms(1) by (simp add: Release_def range_wf_def take_bit_unset_bit)
  show "allocated (Release p r) = allocated r - {p}"
  proof (cases "valid_port p")
    case True
    then show ?thesis by (simp add: Release_def allocated_unset_bit [symmetric] valid_port_def not_less)
  next
    case False
    then show ?thesis by (auto simp: Release_def mem_allocated valid_port_def)
  qed
  have "rnd (Free r) < nat (Free r)" if "\<not> {pr_min r..pr_max r} \<subseteq> allocated r"
    using that Free_card [OF assms(1)] by (intro assms(2)) (auto simp: card_gt_0_iff)
  with AllocateNext_cases [OF assms(1) refl, of rnd] show "case AllocateNext rnd r of
       Inl e \<Rightarrow> e = ErrFull \<and> {pr_min r..pr_max r} \<subseteq> allocated r
     | Inr (q, r') \<Rightarrow> q \<in> {pr_min r..pr_max r} - allocated r \<and> range_wf r' \<and> allocated r' = insert q (allocated r)"
    by (cases "{pr_min r..pr_max r} \<subseteq> allocated r"; cases "AllocateNext rnd r") auto
qed (use Used_card [OF assms(1)] Free_card [OF assms(1)] in \<open>simp_all add: allocated_def\<close>)

text \<open>
  The draw is fair: every free port of the range is returned for exactly one value of the random
  number, so that a uniform number gives a uniform port.
\<close>
theorem AllocateNext_fair:
  assumes "range_wf r" and "p \<in> {pr_min r..pr_max r}" and "p \<notin> allocated r"
  shows "\<exists>!n. n < nat (Free r) \<and> (\<exists>r'. AllocateNext (\<lambda>_. n) r = Inr (p, r'))"
proof -
  let ?ps = "filter (\<lambda>p. \<not> port_bit (pr_bits r) p) [pr_min r..pr_max r]"
  have len: "nat (Free r) = length ?ps" "Free r \<ge> 0" using Free_filter [of r] assms(1) by (simp_all add: range_wf_def)
  have "p \<in> set ?ps" using assms range_valid [OF assms(1,2)] by (simp add: mem_allocated)
  then obtain n where n: "n < length ?ps" "?ps ! n = p" by (metis in_set_conv_nth)
  have "(\<exists>r'. AllocateNext (\<lambda>_. k) r = Inr (p, r')) \<longleftrightarrow> ?ps ! k = p" if "k < length ?ps" for k
    using that len by (auto simp: AllocateNext_def Let_def nth_free_filter)
  note iff = this
  have "k = n" if "k < length ?ps" "?ps ! k = p" for k
    using n that nth_eq_iff_index_eq [of ?ps k n] by simp
  with iff n show ?thesis
    unfolding len by (intro ex1I [of _ n]) blast+
qed

lemma length_fill_bytes [simp]: "length (fill_bytes n x) = n"
  by (induction n arbitrary: x) auto

lemma set_fill_bytes: "set_bytes (fill_bytes n x) = x mod 256 ^ n"
proof (induction n arbitrary: x)
  case (Suc n)
  have "set_bytes (fill_bytes (Suc n) x) = set_bytes (fill_bytes n (x div 256)) * 256 + x mod 256"
    by (simp add: set_bytes_def unat_of_nat)
  also have "\<dots> = x mod (256 * 256 ^ n)"
    unfolding Suc by (subst mod_mult2_eq) simp
  finally show ?case by simp
qed (simp add: set_bytes_def)

lemma set_bytes_bound: "set_bytes bs < 256 ^ length bs"
proof (induction bs rule: rev_induct)
  case (snoc b bs)
  have "unat b < 2 ^ LENGTH(8)" by (rule unsigned_less)
  then have "unat b < 256" by simp
  have "set_bytes (bs @ [b]) = set_bytes bs * 256 + unat b" by (simp add: set_bytes_def)
  also have "\<dots> < (set_bytes bs + 1) * 256" using \<open>unat b < 256\<close> by simp
  also have "\<dots> \<le> 256 ^ length bs * 256" using snoc by (intro mult_right_mono) simp_all
  finally show ?case by (simp add: mult.commute)
qed (simp add: set_bytes_def)

lemma snapshot_fits: "take_bit 65536 (b :: nat) = b mod 256 ^ bitmapBytes"
proof -
  have e: "(8 * 8192 :: nat) = 65536" and b: "(2 ^ 8 :: nat) = 256" by simp_all
  have "(2 :: nat) ^ 65536 = 256 ^ 8192" using power_mult [of "2 :: nat" 8 8192] unfolding e b .
  then show ?thesis unfolding bitmapBytes_val take_bit_eq_mod by (rule arg_cong)
qed

lemma Restore_wf: "range_wf r \<Longrightarrow> Restore data r = Inr r' \<Longrightarrow> range_wf r' \<and> pr_min r' = pr_min r \<and> pr_max r' = pr_max r"
  using set_bytes_bound [of data] unfolding range_wf_def snapshot_fits
  by (auto simp: Restore_def split: if_splits)

lemma Restore_Snapshot:
  assumes "range_wf r"
  shows "Restore (Snapshot r) r2 = Inr (r2\<lparr>pr_bits := pr_bits r\<rparr>)"
proof -
  have "set_bytes (Snapshot r) = pr_bits r"
    using assms unfolding Snapshot_def set_fill_bytes snapshot_fits [symmetric] by (simp add: range_wf_def)
  then show ?thesis by (simp add: Restore_def Snapshot_def)
qed

text \<open>
  C34. A snapshot has a fixed size and loses nothing: restoring it, even into a range with other bounds,
  gives the same set of allocated ports and keeps the bounds; data of any other size is refused.
\<close>
theorem snapshot_restores:
  assumes "range_wf r" and "range_wf r2"
  shows "length (Snapshot r) = 8192 \<and>
    (\<exists>r'. Restore (Snapshot r) r2 = Inr r' \<and> range_wf r' \<and> allocated r' = allocated r \<and>
       pr_min r' = pr_min r2 \<and> pr_max r' = pr_max r2) \<and>
    (length data \<noteq> 8192 \<longrightarrow> Restore data r2 = Inl (ErrSnapshotSize (length data)))"
proof -
  have "Restore (Snapshot r) r2 = Inr (r2\<lparr>pr_bits := pr_bits r\<rparr>)" by (rule Restore_Snapshot [OF assms(1)])
  moreover have "allocated (r2\<lparr>pr_bits := pr_bits r\<rparr>) = allocated r" by (auto simp: mem_allocated)
  moreover have "range_wf (r2\<lparr>pr_bits := pr_bits r\<rparr>)" using assms by (simp add: range_wf_def)
  ultimately show ?thesis
    by (simp add: Restore_def bitmapBytes_val) (simp add: Snapshot_def bitmapBytes_val)
qed

section \<open>A sample range\<close>

definition sample_range :: port_range where
  "sample_range = \<lparr>pr_min = 1, pr_max = 3, pr_bits = 4\<rparr>"

lemma sample_bits: "port_bit 4 p \<longleftrightarrow> nat p = 2"
proof -
  have "bit (4 :: nat) n \<longleftrightarrow> n = 2" for n using bit_exp_iff [where 'a = nat, of 2 n] by simp
  then show ?thesis by blast
qed

lemma sample_range_wf: "range_wf sample_range"
proof -
  have "(4 :: nat) < 2 ^ 3" by simp
  also have "(2 :: nat) ^ 3 \<le> 2 ^ 65536" by (rule power_increasing) simp_all
  finally have "take_bit 65536 (4 :: nat) = 4" by (rule take_bit_nat_eq_self)
  then show ?thesis by (simp add: range_wf_def sample_range_def port_bounds)
qed

lemma sample_allocated: "allocated sample_range = {2}"
  by (auto simp: mem_allocated sample_range_def sample_bits valid_port_def port_bounds bit_0)

theorem port_operations_refine_set_witness:
  "case AllocateNext (\<lambda>_. 0) sample_range of Inl e \<Rightarrow> False | Inr (q, r') \<Rightarrow> q \<in> {1, 3} \<and> allocated r' = {q, 2}"
proof -
  have pos: "(\<lambda>_. 0) free < nat free" if "0 < free" for free using that by simp
  have "case AllocateNext (\<lambda>_. 0) sample_range of
       Inl e \<Rightarrow> e = ErrFull \<and> {pr_min sample_range..pr_max sample_range} \<subseteq> allocated sample_range
     | Inr (q, r') \<Rightarrow> q \<in> {pr_min sample_range..pr_max sample_range} - allocated sample_range \<and> range_wf r' \<and>
         allocated r' = insert q (allocated sample_range)"
    by (rule port_operations_refine_set [OF sample_range_wf pos, THEN conjunct2, THEN conjunct2, THEN conjunct2, THEN conjunct1])
  moreover have "\<not> {1..3 :: int} \<subseteq> {2}" by (auto dest: subsetD [of _ _ 1])
  ultimately show ?thesis
    unfolding sample_allocated by (auto simp: sample_range_def split: sum.splits)
qed

theorem AllocateNext_fair_witness:
  "\<exists>!n. n < nat (Free sample_range) \<and> (\<exists>r'. AllocateNext (\<lambda>_. n) sample_range = Inr (3, r'))"
  by (rule AllocateNext_fair [OF sample_range_wf]) (simp_all only: sample_allocated, simp_all add: sample_range_def)

theorem snapshot_restores_witness:
  "\<exists>r'. Restore (Snapshot sample_range) (sample_range\<lparr>pr_max := 10\<rparr>) = Inr r' \<and> allocated r' = {2} \<and> pr_max r' = 10"
proof -
  have "range_wf (sample_range\<lparr>pr_max := 10\<rparr>)"
    using sample_range_wf by (simp add: range_wf_def sample_range_def port_bounds)
  from snapshot_restores [OF sample_range_wf this, of "[]"] show ?thesis by (auto simp: sample_allocated)
qed

end
