(* ===== verification/Ipam_Subnet.thy ===== *)
theory Ipam_Subnet
  imports Ports
begin

text \<open>
  The allocator of subnets (\<^verbatim>\<open>server/internal/ipam/subnet.go\<close>) over \<^verbatim>\<open>net/netip\<close> of the Go library and the
  offset allocator of \<^verbatim>\<open>github.com/cilium/ipam\<close>. The offset allocator is a parameter, a record of its
  methods whose documented behaviour the locale \<open>offset_allocator\<close> states. Sizes are 64-bit integers, as
  in the code, so that shifts can overflow and a division by zero panics.
\<close>

section \<open>Addresses and prefixes\<close>

datatype addr = NoAddr | IPv4 "32 word" | IPv6 "128 word"

fun BitLen :: "addr \<Rightarrow> nat" where
  "BitLen NoAddr = 0"
| "BitLen (IPv4 w) = 32"
| "BitLen (IPv6 w) = 128"

fun addr_value :: "addr \<Rightarrow> nat" where
  "addr_value NoAddr = 0"
| "addr_value (IPv4 w) = unat w"
| "addr_value (IPv6 w) = unat w"

definition mk_addr :: "nat \<Rightarrow> nat \<Rightarrow> addr" where
  "mk_addr len v = (if len = 32 then IPv4 (word_of_nat v) else if len = 128 then IPv6 (word_of_nat v) else NoAddr)"

record prefix =
  pf_addr :: addr
  pf_bits :: int

definition no_prefix :: prefix where
  "no_prefix = \<lparr>pf_addr = NoAddr, pf_bits = -1\<rparr>"

definition PrefixFrom :: "addr \<Rightarrow> int \<Rightarrow> prefix" where
  "PrefixFrom a bits = \<lparr>pf_addr = a, pf_bits = (if a \<noteq> NoAddr \<and> 0 \<le> bits \<and> bits \<le> int (BitLen a) then bits else -1)\<rparr>"

definition IsValid :: "prefix \<Rightarrow> bool" where
  "IsValid p \<longleftrightarrow> pf_bits p \<ge> 0"

text \<open>The value with the bits after the first \<open>ones\<close> of \<open>len\<close> cleared.\<close>

definition mask_value :: "nat \<Rightarrow> nat \<Rightarrow> nat \<Rightarrow> nat" where
  "mask_value len ones v = v div 2 ^ (len - ones) * 2 ^ (len - ones)"

definition addr_Prefix :: "addr \<Rightarrow> int \<Rightarrow> (string, prefix) res" where
  "addr_Prefix a b =
     (if b < 0 then Inl ''negative Prefix bits''
      else if a = NoAddr then Inr no_prefix
      else if b > int (BitLen a) then Inl ''prefix length too large''
      else Inr (PrefixFrom (mk_addr (BitLen a) (mask_value (BitLen a) (nat b) (addr_value a))) b))"

definition Masked :: "prefix \<Rightarrow> prefix" where
  "Masked p = (case addr_Prefix (pf_addr p) (pf_bits p) of Inl e \<Rightarrow> no_prefix | Inr m \<Rightarrow> m)"

definition prefix_Contains :: "prefix \<Rightarrow> addr \<Rightarrow> bool" where
  "prefix_Contains p a \<longleftrightarrow> IsValid p \<and> a \<noteq> NoAddr \<and> BitLen (pf_addr p) = BitLen a \<and>
     mask_value (BitLen a) (nat (pf_bits p)) (addr_value a) =
     mask_value (BitLen a) (nat (pf_bits p)) (addr_value (pf_addr p))"

section \<open>Arithmetic of the code\<close>

text \<open>64-bit integers: the value that a result wraps to, and division and remainder towards zero.\<close>

definition int64 :: "int \<Rightarrow> int" where
  "int64 x = sint (word_of_int x :: 64 word)"

definition go_div :: "int \<Rightarrow> int \<Rightarrow> int" where
  "go_div a b = int64 (sgn a * sgn b * (abs a div abs b))"

definition go_mod :: "int \<Rightarrow> int \<Rightarrow> int" where
  "go_mod a b = sgn a * (abs a mod abs b)"

definition RangeSize :: "prefix \<Rightarrow> int" where
  "RangeSize p =
     (let bits = int (BitLen (pf_addr p)); ones = pf_bits p
      in if bits = 32 \<and> bits - ones \<ge> 31 \<or> bits = 128 \<and> bits - ones \<ge> 127 then 0
         else int64 (if bits - ones \<ge> 0 then 2 ^ nat (bits - ones) else 0))"

definition bigForIP :: "addr \<Rightarrow> int" where
  "bigForIP a = int (addr_value a)"

fun num_bytes :: "nat \<Rightarrow> nat" where
  "num_bytes n = (if n = 0 then 0 else Suc (num_bytes (n div 256)))"

declare num_bytes.simps [simp del]

text \<open>\<^verbatim>\<open>netip.AddrFromSlice\<close> of the bytes of a \<^verbatim>\<open>big.Int\<close>, which has no leading zeros.\<close>

definition AddrFromSlice :: "nat \<Rightarrow> addr option" where
  "AddrFromSlice n = (if num_bytes n = 4 then Some (IPv4 (word_of_nat n))
     else if num_bytes n = 16 then Some (IPv6 (word_of_nat n)) else None)"

datatype subnet_error =
    ErrSubnetTooLarge
  | ErrInvalidSubnet
  | ErrSpec string
  | PanicDivideByZero
  | ErrSubnetNotInRange prefix
  | ErrSubnetAllocated
  | ErrSubnetFull
  | ErrAllocator string
  | ErrInvalidIP int
  | ErrPrefix string
  | ErrMismatchedNetwork
  | ErrRestoring string

definition addIPOffset :: "int \<Rightarrow> int \<Rightarrow> (subnet_error, addr) res" where
  "addIPOffset base offset = (case AddrFromSlice (nat (abs (base + offset))) of
       Some a \<Rightarrow> Inr a
     | None \<Rightarrow> Inl (ErrInvalidIP offset))"

definition calculateIPOffset :: "int \<Rightarrow> addr \<Rightarrow> int" where
  "calculateIPOffset base ip = int64 (bigForIP ip - base)"

section \<open>The offset allocator\<close>

record 'a allocator =
  al_new :: "int \<Rightarrow> string \<Rightarrow> 'a"
  al_Free :: "'a \<Rightarrow> int"
  al_Allocate :: "int \<Rightarrow> 'a \<Rightarrow> (string, bool) res \<times> 'a"
  al_AllocateNext :: "'a \<Rightarrow> (string, int \<times> bool) res \<times> 'a"
  al_Release :: "int \<Rightarrow> 'a \<Rightarrow> string option \<times> 'a"
  al_Has :: "int \<Rightarrow> 'a \<Rightarrow> bool"
  al_offsets :: "'a \<Rightarrow> int list"
  al_Snapshot :: "'a \<Rightarrow> string \<times> byte list"
  al_Restore :: "string \<Rightarrow> byte list \<Rightarrow> 'a \<Rightarrow> string option \<times> 'a"

locale offset_allocator =
  fixes A :: "'a allocator" and cap :: "'a \<Rightarrow> int" and spec_of :: "'a \<Rightarrow> string" and offs :: "'a \<Rightarrow> int set"
  assumes new_law: "0 \<le> n \<Longrightarrow> offs (al_new A n spec) = {} \<and> cap (al_new A n spec) = n \<and> spec_of (al_new A n spec) = spec"
    and bounded: "offs a \<subseteq> {0..<cap a}"
    and Free_law: "al_Free A a = cap a - int (card (offs a))"
    and Allocate_law: "0 \<le> i \<Longrightarrow> i < cap a \<Longrightarrow> \<exists>a'. al_Allocate A i a = (Inr (i \<notin> offs a), a') \<and>
      offs a' = insert i (offs a) \<and> cap a' = cap a \<and> spec_of a' = spec_of a"
    and AllocateNext_law: "al_AllocateNext A a = (r, a') \<Longrightarrow> cap a' = cap a \<and> spec_of a' = spec_of a \<and>
      (if {0..<cap a} \<subseteq> offs a then (\<exists>i. r = Inr (i, False)) \<and> offs a' = offs a
       else \<exists>i. r = Inr (i, True) \<and> i \<in> {0..<cap a} - offs a \<and> offs a' = insert i (offs a))"
    and Release_law: "\<exists>a'. al_Release A i a = (None, a') \<and> offs a' = offs a - {i} \<and> cap a' = cap a \<and> spec_of a' = spec_of a"
    and Has_law: "al_Has A i a \<longleftrightarrow> i \<in> offs a"
    and offsets_law: "set (al_offsets A a) = offs a"
    and Snapshot_law: "fst (al_Snapshot A a) = spec_of a"
    and Restore_law: "al_Snapshot A a = (spec, data) \<Longrightarrow> spec_of b = spec \<Longrightarrow> cap b = cap a \<Longrightarrow>
      \<exists>b'. al_Restore A spec data b = (None, b') \<and> offs b' = offs a \<and> cap b' = cap a \<and> spec_of b' = spec"

text \<open>An allocator with these laws: a bit for every offset, the lowest free one is next.\<close>

type_synonym bitmap = "string \<times> bool list"

definition bit_set :: "bitmap \<Rightarrow> int set" where
  "bit_set b = {i. 0 \<le> i \<and> i < int (length (snd b)) \<and> snd b ! nat i}"

definition bitmap_allocator :: "bitmap allocator" where
  "bitmap_allocator = \<lparr>al_new = (\<lambda>n spec. (spec, replicate (nat n) False)),
     al_Free = (\<lambda>(spec, b). int (length (filter Not b))),
     al_Allocate = (\<lambda>i (spec, b). if 0 \<le> i \<and> i < int (length b) then (Inr (\<not> b ! nat i), (spec, b[nat i := True]))
       else (Inl ''offset out of range'', (spec, b))),
     al_AllocateNext = (\<lambda>(spec, b). let i = length (takeWhile id b)
       in if i < length b then (Inr (int i, True), (spec, b[i := True])) else (Inr (0, False), (spec, b))),
     al_Release = (\<lambda>i (spec, b). (None, (spec, if 0 \<le> i then b[nat i := False] else b))),
     al_Has = (\<lambda>i (spec, b). 0 \<le> i \<and> i < int (length b) \<and> b ! nat i),
     al_offsets = (\<lambda>(spec, b). map int (filter (\<lambda>i. b ! i) [0..<length b])),
     al_Snapshot = (\<lambda>(spec, b). (spec, map (\<lambda>x. if x then 1 else 0) b)),
     al_Restore = (\<lambda>spec data (spec', b). if spec \<noteq> spec' then (Some ''mismatched spec'', (spec', b))
       else (None, (spec', map (\<lambda>x. x \<noteq> 0) data)))\<rparr>"

lemma bit_set_image: "bit_set (spec, b) = int ` {i. i < length b \<and> b ! i}"
  by (auto simp: bit_set_def image_iff) (metis nat_0_le nat_less_iff)

lemma card_bit_set: "card (bit_set (spec, b)) = length (filter id b)"
  by (simp add: bit_set_image card_image length_filter_conv_card)

lemma first_clear_bit:
  assumes "length (takeWhile id b) < length b"
  shows "\<not> b ! length (takeWhile id b)"
  using nth_length_takeWhile [OF assms] by simp

lemma all_bits_set: "length (takeWhile id b) = length b \<Longrightarrow> i < length b \<Longrightarrow> b ! i"
  by (metis id_apply nth_mem set_takeWhileD takeWhile_nth)

lemma bit_set_update:
  assumes "0 \<le> i"
  shows "i < int (length b) \<Longrightarrow> bit_set (spec, b[nat i := True]) = insert i (bit_set (spec, b))"
    and "bit_set (spec, b[nat i := False]) = bit_set (spec, b) - {i}"
proof -
  obtain k where i: "i = int k" using assms nonneg_int_cases by blast
  have upd: "j \<in> bit_set (spec, b[k := x]) \<longleftrightarrow> 0 \<le> j \<and> j < int (length b) \<and> (if j = int k then x else b ! nat j)" for j x
    by (cases "0 \<le> j") (auto simp: bit_set_def nth_list_update elim!: nonneg_int_cases)
  show "bit_set (spec, b[nat i := True]) = insert i (bit_set (spec, b))" if "i < int (length b)"
    using that by (auto simp: i upd) (auto simp: bit_set_def split: if_splits)
  show "bit_set (spec, b[nat i := False]) = bit_set (spec, b) - {i}"
    by (auto simp: i upd) (auto simp: bit_set_def split: if_splits)
qed

interpretation bits: offset_allocator bitmap_allocator "\<lambda>b. int (length (snd b))" fst bit_set
proof
  show "bit_set a \<subseteq> {0..<int (length (snd a))}" for a by (auto simp: bit_set_def)
  show "al_Free bitmap_allocator a = int (length (snd a)) - int (card (bit_set a))" for a
    using sum_length_filter_compl [of id "snd a"]
    by (cases a) (simp add: bitmap_allocator_def card_bit_set flip: of_nat_diff)
  show "al_AllocateNext bitmap_allocator a = (r, a') \<Longrightarrow>
    int (length (snd a')) = int (length (snd a)) \<and> fst a' = fst a \<and>
    (if {0..<int (length (snd a))} \<subseteq> bit_set a then (\<exists>i. r = Inr (i, False)) \<and> bit_set a' = bit_set a
     else \<exists>i. r = Inr (i, True) \<and> i \<in> {0..<int (length (snd a))} - bit_set a \<and> bit_set a' = insert i (bit_set a))"
    for a r a'
  proof -
    assume e: "al_AllocateNext bitmap_allocator a = (r, a')"
    obtain spec b where a: "a = (spec, b)" by (cases a)
    define i where "i = length (takeWhile id b)"
    show ?thesis
    proof (cases "i < length b")
      case True
      then have "\<not> b ! i" unfolding i_def by (rule first_clear_bit)
      then have "int i \<notin> bit_set a" by (simp add: a bit_set_def)
      moreover have "r = Inr (int i, True)" "a' = (spec, b[i := True])"
        using e True by (simp_all add: a bitmap_allocator_def i_def [symmetric])
      moreover have "\<not> {0..<int (length b)} \<subseteq> bit_set a" using calculation(1) True by (force simp: subset_iff)
      ultimately show ?thesis using True bit_set_update(1) [of "int i" b spec] by (simp add: a)
    next
      case False
      then have "length (takeWhile id b) = length b" using length_takeWhile_le [of id b] by (simp add: i_def)
      then have "{0..<int (length b)} \<subseteq> bit_set a" using all_bits_set by (auto simp: a bit_set_def nat_less_iff)
      then show ?thesis using e False by (auto simp: a bitmap_allocator_def i_def [symmetric])
    qed
  qed
  show "set (al_offsets bitmap_allocator a) = bit_set a" for a
    by (cases a) (auto simp: bitmap_allocator_def bit_set_image)
  show "\<exists>a'. al_Release bitmap_allocator i a = (None, a') \<and> bit_set a' = bit_set a - {i} \<and>
      int (length (snd a')) = int (length (snd a)) \<and> fst a' = fst a" for i a
    by (cases a) (auto simp: bitmap_allocator_def bit_set_update(2), auto simp: bit_set_def)
qed (auto simp: bitmap_allocator_def bit_set_update(1), auto simp: bit_set_def split: if_splits)

section \<open>Ranges of subnets\<close>

record SubnetRangeSpec =
  ss_CIDR :: prefix
  ss_SubnetBits :: int

text \<open>The JSON form of a spec and the text of a prefix.\<close>

record spec_codec =
  spec_String :: "SubnetRangeSpec \<Rightarrow> (string, string) res"
  ParseSubnetRangeSpec :: "string \<Rightarrow> (string, SubnetRangeSpec) res"
  prefix_String :: "prefix \<Rightarrow> string"

record 'a SubnetRange =
  sr_net :: prefix
  sr_base :: int
  sr_max :: int
  sr_subnetSize :: int
  sr_subnetBits :: int
  sr_alloc :: 'a

definition NewSubnetRange :: "'a allocator \<Rightarrow> spec_codec \<Rightarrow> SubnetRangeSpec \<Rightarrow> (subnet_error, 'a SubnetRange) res" where
  "NewSubnetRange A S spec0 =
     (let spec = \<lparr>ss_CIDR = Masked (ss_CIDR spec0), ss_SubnetBits = ss_SubnetBits spec0\<rparr>
      in if ss_SubnetBits spec < pf_bits (ss_CIDR spec) then Inl ErrSubnetTooLarge
         else let subnet = PrefixFrom (pf_addr (ss_CIDR spec)) (ss_SubnetBits spec)
           in if \<not> IsValid subnet then Inl ErrInvalidSubnet
              else let rangeSize = RangeSize (ss_CIDR spec); subnetSize = RangeSize subnet
                in if subnetSize = 0 then Inl PanicDivideByZero
                   else case spec_String S spec of
                     Inl e \<Rightarrow> Inl (ErrSpec e)
                   | Inr specStr \<Rightarrow>
                       let m = max 0 (go_div rangeSize subnetSize)
                       in Inr \<lparr>sr_net = ss_CIDR spec, sr_base = bigForIP (pf_addr (ss_CIDR spec)), sr_max = m,
                            sr_subnetSize = subnetSize, sr_subnetBits = ss_SubnetBits spec,
                            sr_alloc = al_new A m specStr\<rparr>)"

definition subnet_Free :: "'a allocator \<Rightarrow> 'a SubnetRange \<Rightarrow> int" where
  "subnet_Free A r = al_Free A (sr_alloc r)"

definition subnet_Used :: "'a allocator \<Rightarrow> 'a SubnetRange \<Rightarrow> int" where
  "subnet_Used A r = sr_max r - al_Free A (sr_alloc r)"

definition subnet_contains :: "'a SubnetRange \<Rightarrow> prefix \<Rightarrow> bool \<times> int" where
  "subnet_contains r cidr =
     (if pf_bits cidr \<noteq> sr_subnetBits r then (False, 0)
      else if \<not> prefix_Contains (sr_net r) (pf_addr cidr) then (False, 0)
      else let offset = calculateIPOffset (sr_base r) (pf_addr cidr)
        in if offset < 0 \<or> go_mod offset (sr_subnetSize r) \<noteq> 0 \<or> go_div offset (sr_subnetSize r) \<ge> sr_max r
           then (False, 0)
           else (True, go_div offset (sr_subnetSize r)))"

definition subnet_Allocate :: "'a allocator \<Rightarrow> prefix \<Rightarrow> 'a SubnetRange \<Rightarrow> (subnet_error, unit) res \<times> 'a SubnetRange" where
  "subnet_Allocate A cidr r =
     (let (ok, offset) = subnet_contains r cidr
      in if \<not> ok then (Inl (ErrSubnetNotInRange (sr_net r)), r)
         else let (res, a') = al_Allocate A offset (sr_alloc r); r' = r\<lparr>sr_alloc := a'\<rparr>
           in case res of
             Inl e \<Rightarrow> (Inl (ErrAllocator e), r')
           | Inr fresh \<Rightarrow> if \<not> fresh then (Inl ErrSubnetAllocated, r') else (Inr (), r'))"

definition subnet_AllocateNext :: "'a allocator \<Rightarrow> 'a SubnetRange \<Rightarrow> (subnet_error, prefix) res \<times> 'a SubnetRange" where
  "subnet_AllocateNext A r =
     (let (res, a') = al_AllocateNext A (sr_alloc r); r' = r\<lparr>sr_alloc := a'\<rparr>
      in case res of
        Inl e \<Rightarrow> (Inl (ErrAllocator e), r')
      | Inr (offset, ok) \<Rightarrow>
          if \<not> ok then (Inl ErrSubnetFull, r')
          else (rbind (addIPOffset (sr_base r) (int64 (offset * sr_subnetSize r)))
            (\<lambda>ip. map_sum ErrPrefix id (addr_Prefix ip (sr_subnetBits r))), r'))"

definition subnet_Release :: "'a allocator \<Rightarrow> prefix \<Rightarrow> 'a SubnetRange \<Rightarrow> string option \<times> 'a SubnetRange" where
  "subnet_Release A subnet r =
     (let (ok, offset) = subnet_contains r subnet
      in if \<not> ok then (None, r)
         else let (e, a') = al_Release A offset (sr_alloc r) in (e, r\<lparr>sr_alloc := a'\<rparr>))"

definition GetIndexedIP :: "prefix \<Rightarrow> int \<Rightarrow> (subnet_error, addr) res" where
  "GetIndexedIP subnet index = rbind (addIPOffset (bigForIP (pf_addr subnet)) index)
     (\<lambda>ip. if \<not> prefix_Contains subnet ip then Inl (ErrInvalidIP index) else Inr ip)"

text \<open>\<^verbatim>\<open>ForEach\<close> ignores the errors of both conversions and passes what they return with them.\<close>

definition subnet_ForEach :: "'a allocator \<Rightarrow> (prefix \<Rightarrow> 'b \<Rightarrow> 'b) \<Rightarrow> 'a SubnetRange \<Rightarrow> 'b \<Rightarrow> 'b" where
  "subnet_ForEach A f r = fold (\<lambda>offset.
     (let ip = (case GetIndexedIP (sr_net r) (int64 (offset * sr_subnetSize r)) of Inl e \<Rightarrow> NoAddr | Inr ip \<Rightarrow> ip)
      in f (case addr_Prefix ip (sr_subnetBits r) of Inl e \<Rightarrow> no_prefix | Inr p \<Rightarrow> p))) (al_offsets A (sr_alloc r))"

definition subnet_Has :: "'a allocator \<Rightarrow> prefix \<Rightarrow> 'a SubnetRange \<Rightarrow> bool" where
  "subnet_Has A subnet r =
     (let (ok, offset) = subnet_contains r subnet in if \<not> ok then False else al_Has A offset (sr_alloc r))"

definition subnet_Contains :: "'a SubnetRange \<Rightarrow> prefix \<Rightarrow> bool" where
  "subnet_Contains r subnet = fst (subnet_contains r subnet)"

definition subnet_Snapshot :: "'a allocator \<Rightarrow> 'a SubnetRange \<Rightarrow> string \<times> byte list" where
  "subnet_Snapshot A r = al_Snapshot A (sr_alloc r)"

definition subnet_Restore :: "'a allocator \<Rightarrow> spec_codec \<Rightarrow> string \<Rightarrow> byte list \<Rightarrow> 'a SubnetRange \<Rightarrow>
    (subnet_error, unit) res \<times> 'a SubnetRange" where
  "subnet_Restore A S specStr data r =
     (case ParseSubnetRangeSpec S specStr of
        Inl e \<Rightarrow> (Inl (ErrSpec e), r)
      | Inr spec \<Rightarrow>
          if prefix_String S (sr_net r) \<noteq> prefix_String S (ss_CIDR spec) \<or> sr_subnetBits r \<noteq> ss_SubnetBits spec
          then (Inl ErrMismatchedNetwork, r)
          else (case al_Restore A specStr data (sr_alloc r) of
              (Some e, a') \<Rightarrow> (Inl (ErrRestoring e), r\<lparr>sr_alloc := a'\<rparr>)
            | (None, a') \<Rightarrow> (Inr (), r\<lparr>sr_alloc := a'\<rparr>)))"

section \<open>Arithmetic facts\<close>

lemma int64_small: "0 \<le> x \<Longrightarrow> x < 2 ^ 63 \<Longrightarrow> int64 x = x"
  unfolding int64_def by (simp add: sint_uint uint_word_of_int_eq take_bit_int_eq_self signed_take_bit_int_eq_self)

lemma num_bytes_eq: "256 ^ k \<le> n \<Longrightarrow> n < 256 ^ Suc k \<Longrightarrow> num_bytes n = Suc k"
proof (induction k arbitrary: n)
  case 0
  then show ?case by (simp add: num_bytes.simps [of n] num_bytes.simps [of 0])
next
  case (Suc k)
  have "256 ^ k \<le> n div 256" using Suc.prems(1) by (simp add: less_eq_div_iff_mult_less_eq mult.commute)
  moreover have "n div 256 < 256 ^ Suc k" using Suc.prems(2) by (simp add: div_less_iff_less_mult mult.commute)
  ultimately have "num_bytes (n div 256) = Suc k" by (rule Suc.IH)
  moreover have "n \<noteq> 0" using Suc.prems(1) by (metis le_zero_eq power_eq_0_iff zero_neq_numeral)
  ultimately show ?case by (simp add: num_bytes.simps [of n])
qed

lemma AddrFromSlice_mk:
  assumes "len = 32 \<or> len = 128" and "2 ^ (len - 8) \<le> n" and "n < 2 ^ len"
  shows "AddrFromSlice n = Some (mk_addr len n)"
  using assms(1)
proof
  assume "len = 32"
  with assms num_bytes_eq [of 3 n] show ?thesis by (simp add: AddrFromSlice_def mk_addr_def)
next
  assume "len = 128"
  with assms num_bytes_eq [of 15 n] show ?thesis by (simp add: AddrFromSlice_def mk_addr_def)
qed

lemma mk_addr_simps:
  assumes "len = 32 \<or> len = 128" and "n < 2 ^ len"
  shows "BitLen (mk_addr len n) = len" "addr_value (mk_addr len n) = n" "mk_addr len n \<noteq> NoAddr"
  using assms by (auto simp: mk_addr_def unat_of_nat)

lemma mask_value_multiple: "2 ^ (len - ones) dvd v \<Longrightarrow> mask_value len ones v = v"
  by (simp add: mask_value_def)

lemma mask_value_dvd: "2 ^ (len - ones) dvd mask_value len ones v"
  by (simp add: mask_value_def)

lemma mask_value_eq_iff: "mask_value len ones v = mask_value len ones w \<longleftrightarrow> v div 2 ^ (len - ones) = w div 2 ^ (len - ones)"
  by (simp add: mask_value_def)

lemma mk_addr_value: "a \<noteq> NoAddr \<Longrightarrow> mk_addr (BitLen a) (addr_value a) = a"
  by (cases a) (simp_all add: mk_addr_def)

lemma addr_value_bound: "addr_value a < 2 ^ BitLen a"
  using unsigned_less [of "case a of IPv4 w \<Rightarrow> w | _ \<Rightarrow> 0", where ?'a = nat]
    unsigned_less [of "case a of IPv6 w \<Rightarrow> w | _ \<Rightarrow> 0", where ?'a = nat]
  by (cases a) simp_all

lemma BitLen_cases: "a \<noteq> NoAddr \<Longrightarrow> BitLen a = 32 \<or> BitLen a = 128"
  by (cases a) simp_all

section \<open>Well-formed ranges\<close>

text \<open>
  The ranges for which the 64-bit arithmetic is exact: at most \<open>62\<close> bits of host part, and a network
  whose first byte is not zero, so that its number has all its bytes.
\<close>

definition subnet_range_ok :: "'a SubnetRange \<Rightarrow> bool" where
  "subnet_range_ok r \<longleftrightarrow> (\<exists>len ones sb v. len = BitLen (pf_addr (sr_net r)) \<and> (len = 32 \<or> len = 128) \<and>
     v = addr_value (pf_addr (sr_net r)) \<and> pf_bits (sr_net r) = int ones \<and> sr_subnetBits r = int sb \<and>
     ones \<le> sb \<and> sb \<le> len \<and> len - ones \<le> 62 \<and> sr_base r = int v \<and> 2 ^ (len - ones) dvd v \<and> 2 ^ (len - 8) \<le> v \<and>
     sr_subnetSize r = 2 ^ (len - sb) \<and> sr_max r = 2 ^ (sb - ones))"

definition subnet_at :: "'a SubnetRange \<Rightarrow> int \<Rightarrow> prefix" where
  "subnet_at r off = PrefixFrom (mk_addr (BitLen (pf_addr (sr_net r)))
     (addr_value (pf_addr (sr_net r)) + nat off * nat (sr_subnetSize r))) (sr_subnetBits r)"

lemma subnet_value_bounds:
  fixes v off :: nat
  assumes "2 ^ (len - ones) dvd v" and "v < 2 ^ len" and "ones \<le> sb" and "sb \<le> len" and "off < 2 ^ (sb - ones)"
  shows "v + off * 2 ^ (len - sb) < v + 2 ^ (len - ones)" "v + off * 2 ^ (len - sb) < 2 ^ len"
    "off * 2 ^ (len - sb) < 2 ^ (len - ones)"
proof -
  have e: "len - ones = (sb - ones) + (len - sb)" using assms(3,4) by simp
  show lt: "off * 2 ^ (len - sb) < 2 ^ (len - ones)" unfolding e power_add using assms(5) by simp
  then show "v + off * 2 ^ (len - sb) < v + 2 ^ (len - ones)" by simp
  obtain q where q: "v = 2 ^ (len - ones) * q" using assms(1) by blast
  have "(2 :: nat) ^ len = 2 ^ (len - ones) * 2 ^ ones" using assms(3,4) by (simp add: power_add [symmetric])
  then have "q < 2 ^ ones" using assms(2) q by simp
  then have "q + 1 \<le> 2 ^ ones" by simp
  then have "v + 2 ^ (len - ones) \<le> 2 ^ len"
    unfolding q \<open>2 ^ len = 2 ^ (len - ones) * 2 ^ ones\<close> by (metis Suc_eq_plus1 mult_Suc_right add.commute mult_le_mono2)
  with lt show "v + off * 2 ^ (len - sb) < 2 ^ len" by simp
qed

lemma subnet_range_okE:
  assumes "subnet_range_ok r"
  obtains len ones sb v where "len = BitLen (pf_addr (sr_net r))" "len = 32 \<or> len = 128"
    "v = addr_value (pf_addr (sr_net r))" "pf_bits (sr_net r) = int ones" "sr_subnetBits r = int sb"
    "ones \<le> sb" "sb \<le> len" "len - ones \<le> 62" "sr_base r = int v" "2 ^ (len - ones) dvd v" "2 ^ (len - 8) \<le> v"
    "sr_subnetSize r = 2 ^ (len - sb)" "sr_max r = 2 ^ (sb - ones)" "v < 2 ^ len"
  using assms unfolding subnet_range_ok_def using addr_value_bound by metis

text \<open>The address and the prefix that the code computes for an offset.\<close>

lemma addIPOffset_subnet:
  assumes ok: "subnet_range_ok r" and off: "0 \<le> off" "off < sr_max r"
  shows "addIPOffset (sr_base r) (int64 (off * sr_subnetSize r)) = Inr (pf_addr (subnet_at r off))"
    and "addr_Prefix (pf_addr (subnet_at r off)) (sr_subnetBits r) = Inr (subnet_at r off)"
    and "IsValid (subnet_at r off)" "pf_bits (subnet_at r off) = sr_subnetBits r"
    and "BitLen (pf_addr (subnet_at r off)) = BitLen (pf_addr (sr_net r))"
    and "addr_value (pf_addr (subnet_at r off)) = addr_value (pf_addr (sr_net r)) + nat off * nat (sr_subnetSize r)"
    and "pf_addr (subnet_at r off) \<noteq> NoAddr"
proof -
  obtain len ones sb v where r: "len = BitLen (pf_addr (sr_net r))" "len = 32 \<or> len = 128"
    "v = addr_value (pf_addr (sr_net r))" "pf_bits (sr_net r) = int ones" "sr_subnetBits r = int sb"
    "ones \<le> sb" "sb \<le> len" "len - ones \<le> 62" "sr_base r = int v" "2 ^ (len - ones) dvd v" "2 ^ (len - 8) \<le> v"
    "sr_subnetSize r = 2 ^ (len - sb)" "sr_max r = 2 ^ (sb - ones)" "v < 2 ^ len"
    using ok by (rule subnet_range_okE)
  obtain k where k: "off = int k" using off(1) nonneg_int_cases by blast
  have klt: "k < 2 ^ (sb - ones)" using off(2) by (simp add: k r(13))
  note b = subnet_value_bounds [OF r(10,14,6,7) klt]
  define w where "w = v + k * 2 ^ (len - sb)"
  have size: "nat (sr_subnetSize r) = 2 ^ (len - sb)" by (simp add: r(12) nat_power_eq)
  have w: "w < 2 ^ len" "2 ^ (len - 8) \<le> w" using b(2) r(11) by (simp_all add: w_def)
  have at: "subnet_at r off = PrefixFrom (mk_addr len w) (int sb)"
    by (simp add: subnet_at_def w_def size k r(1,3,5))
  note mk = mk_addr_simps [OF r(2) w(1)]
  have "k * 2 ^ (len - sb) < (2 :: nat) ^ 62"
    using b(3) power_increasing [OF r(8), of "2 :: nat"] by linarith
  then have "int (k * 2 ^ (len - sb)) < int (2 ^ 62)" by (rule of_nat_less_iff [THEN iffD2])
  then have "int64 (off * sr_subnetSize r) = int (k * 2 ^ (len - sb))" by (subst int64_small) (simp_all add: k r(12))
  moreover have "nat \<bar>int v + int (k * 2 ^ (len - sb))\<bar> = w" by (simp only: w_def of_nat_add [symmetric] abs_of_nat nat_int)
  ultimately show "addIPOffset (sr_base r) (int64 (off * sr_subnetSize r)) = Inr (pf_addr (subnet_at r off))"
    using AddrFromSlice_mk [OF r(2) w(2,1)] by (simp only: addIPOffset_def r(9) at option.case PrefixFrom_def prefix.simps)
  have "(2 :: nat) ^ (len - sb) dvd 2 ^ (len - ones)" using r(6) by (simp add: le_imp_power_dvd)
  then have "2 ^ (len - sb) dvd w" unfolding w_def using r(10) by (meson dvd_add dvd_trans dvd_triv_right)
  then show "addr_Prefix (pf_addr (subnet_at r off)) (sr_subnetBits r) = Inr (subnet_at r off)"
    using r(7) mk by (simp add: at addr_Prefix_def PrefixFrom_def r(5) mask_value_multiple)
  show "IsValid (subnet_at r off)" "pf_bits (subnet_at r off) = sr_subnetBits r"
    using r(7) mk by (simp_all add: at IsValid_def PrefixFrom_def r(5))
  show "BitLen (pf_addr (subnet_at r off)) = BitLen (pf_addr (sr_net r))" "pf_addr (subnet_at r off) \<noteq> NoAddr"
    using mk by (simp_all add: at PrefixFrom_def r(1))
  show "addr_value (pf_addr (subnet_at r off)) = addr_value (pf_addr (sr_net r)) + nat off * nat (sr_subnetSize r)"
    unfolding at using mk by (simp add: PrefixFrom_def w_def k size flip: r(3))
qed

text \<open>Membership in a subnet is a block of the addresses of the network.\<close>

lemma subnet_block:
  assumes ok: "subnet_range_ok r" and off: "0 \<le> off" "off < sr_max r"
  shows "prefix_Contains (subnet_at r off) a \<longleftrightarrow> a \<noteq> NoAddr \<and> BitLen a = BitLen (pf_addr (sr_net r)) \<and>
    addr_value a div nat (sr_subnetSize r) = addr_value (pf_addr (sr_net r)) div nat (sr_subnetSize r) + nat off"
proof -
  obtain len ones sb v where r: "len = BitLen (pf_addr (sr_net r))" "len = 32 \<or> len = 128"
    "v = addr_value (pf_addr (sr_net r))" "pf_bits (sr_net r) = int ones" "sr_subnetBits r = int sb"
    "ones \<le> sb" "sb \<le> len" "len - ones \<le> 62" "sr_base r = int v" "2 ^ (len - ones) dvd v" "2 ^ (len - 8) \<le> v"
    "sr_subnetSize r = 2 ^ (len - sb)" "sr_max r = 2 ^ (sb - ones)" "v < 2 ^ len"
    using ok by (rule subnet_range_okE)
  note f = addIPOffset_subnet [OF ok off]
  have size: "nat (sr_subnetSize r) = 2 ^ (len - sb)" by (simp add: r(12) nat_power_eq)
  show ?thesis using f(3) r(1)
    by (auto simp: prefix_Contains_def f(4-6) r(5) mask_value_eq_iff size)
qed

lemma subnet_in_net:
  assumes ok: "subnet_range_ok r" and off: "0 \<le> off" "off < sr_max r" and a: "prefix_Contains (subnet_at r off) a"
  shows "prefix_Contains (sr_net r) a"
proof -
  obtain len ones sb v where r: "len = BitLen (pf_addr (sr_net r))" "len = 32 \<or> len = 128"
    "v = addr_value (pf_addr (sr_net r))" "pf_bits (sr_net r) = int ones" "sr_subnetBits r = int sb"
    "ones \<le> sb" "sb \<le> len" "len - ones \<le> 62" "sr_base r = int v" "2 ^ (len - ones) dvd v" "2 ^ (len - 8) \<le> v"
    "sr_subnetSize r = 2 ^ (len - sb)" "sr_max r = 2 ^ (sb - ones)" "v < 2 ^ len"
    using ok by (rule subnet_range_okE)
  have size: "nat (sr_subnetSize r) = 2 ^ (len - sb)" by (simp add: r(12) nat_power_eq)
  have e: "len - ones = (len - sb) + (sb - ones)" using r(6,7) by simp
  obtain q where q: "v = 2 ^ (len - sb) * (2 ^ (sb - ones) * q)" using r(10) by (auto simp: e power_add dvd_def)
  have "nat off < 2 ^ (sb - ones)" using off by (simp add: r(13) nat_less_iff)
  moreover have "addr_value a div 2 ^ (len - sb) = 2 ^ (sb - ones) * q + nat off"
    using a subnet_block [OF ok off, of a] q by (simp add: size flip: r(3))
  ultimately have "addr_value a div 2 ^ (len - ones) = q" by (simp add: e power_add div_mult2_eq)
  moreover have "v div 2 ^ (len - ones) = q" using q by (simp add: e power_add mult.assoc [symmetric])
  ultimately show ?thesis using a subnet_block [OF ok off, of a] r(1,4)
    by (simp add: prefix_Contains_def IsValid_def mask_value_eq_iff flip: r(3))
qed

lemma subnet_contains_itself:
  assumes ok: "subnet_range_ok r" and off: "0 \<le> off" "off < sr_max r"
  shows "prefix_Contains (subnet_at r off) (pf_addr (subnet_at r off))"
  using addIPOffset_subnet [OF ok off] by (simp add: prefix_Contains_def)

lemma subnet_contains_at:
  assumes ok: "subnet_range_ok r" and off: "0 \<le> off" "off < sr_max r"
  shows "subnet_contains r (subnet_at r off) = (True, off)"
proof -
  obtain len ones sb v where r: "len = BitLen (pf_addr (sr_net r))" "len = 32 \<or> len = 128"
    "v = addr_value (pf_addr (sr_net r))" "pf_bits (sr_net r) = int ones" "sr_subnetBits r = int sb"
    "ones \<le> sb" "sb \<le> len" "len - ones \<le> 62" "sr_base r = int v" "2 ^ (len - ones) dvd v" "2 ^ (len - 8) \<le> v"
    "sr_subnetSize r = 2 ^ (len - sb)" "sr_max r = 2 ^ (sb - ones)" "v < 2 ^ len"
    using ok by (rule subnet_range_okE)
  obtain k where k: "off = int k" using off(1) nonneg_int_cases by blast
  have klt: "k < 2 ^ (sb - ones)" using off(2) by (simp add: k r(13))
  note b = subnet_value_bounds [OF r(10,14,6,7) klt]
  have size: "nat (sr_subnetSize r) = 2 ^ (len - sb)" by (simp add: r(12) nat_power_eq)
  have m: "prefix_Contains (sr_net r) (pf_addr (subnet_at r off))"
    using subnet_in_net [OF ok off] subnet_contains_itself [OF ok off] by blast
  have small: "k * 2 ^ (len - sb) < (2 :: nat) ^ 62"
    using b(3) power_increasing [OF r(8), of "2 :: nat"] by linarith
  moreover have "k \<le> k * 2 ^ (len - sb)" by simp
  ultimately have ksmall: "k < 2 ^ 62" by (meson le_less_trans)
  have "int (k * 2 ^ (len - sb)) < int (2 ^ 62)" using small by (rule of_nat_less_iff [THEN iffD2])
  then have "calculateIPOffset (sr_base r) (pf_addr (subnet_at r off)) = int k * 2 ^ (len - sb)"
    using addIPOffset_subnet(6) [OF ok off]
    by (simp add: calculateIPOffset_def bigForIP_def size k int64_small r(9) flip: r(3))
  moreover have "go_div (int k * 2 ^ (len - sb)) (2 ^ (len - sb)) = int k"
    using ksmall by (cases "k = 0") (simp_all add: go_div_def int64_small abs_mult sgn_mult int64_small)
  moreover have "go_mod (int k * 2 ^ (len - sb)) (2 ^ (len - sb)) = 0" by (simp add: go_mod_def abs_mult)
  ultimately show ?thesis using m addIPOffset_subnet(4) [OF ok off] off
    by (simp add: subnet_contains_def r(12) k Let_def not_less)
qed

lemma subnet_disjoint:
  assumes ok: "subnet_range_ok r" and i: "0 \<le> i" "i < sr_max r" and j: "0 \<le> j" "j < sr_max r"
    and a: "prefix_Contains (subnet_at r i) a" "prefix_Contains (subnet_at r j) a"
  shows "i = j"
  using a subnet_block [OF ok i, of a] subnet_block [OF ok j, of a] i(1) j(1) by simp

section \<open>Creation\<close>

definition exact_spec :: "SubnetRangeSpec \<Rightarrow> bool" where
  "exact_spec spec \<longleftrightarrow> (let a = pf_addr (ss_CIDR spec); len = int (BitLen a); ones = pf_bits (ss_CIDR spec)
     in a \<noteq> NoAddr \<and> 0 \<le> ones \<and> ones \<le> ss_SubnetBits spec \<and> ss_SubnetBits spec \<le> len \<and>
        len - ones \<le> (if len = 32 then 30 else 62) \<and>
        2 ^ (BitLen a - 8) \<le> mask_value (BitLen a) (nat ones) (addr_value a))"

lemma RangeSize_exact:
  assumes "len = 32 \<or> len = 128" "BitLen (pf_addr p) = len" "pf_bits p = int ones" "ones \<le> len"
    "len - ones \<le> (if len = 32 then 30 else 62)"
  shows "RangeSize p = 2 ^ (len - ones)"
proof -
  have "len - ones \<le> 62" using assms(5) by (simp split: if_splits)
  then have "(2 :: int) ^ (len - ones) \<le> 2 ^ 62" by (rule power_increasing) simp
  then have "int64 (2 ^ (len - ones)) = 2 ^ (len - ones)" by (intro int64_small) simp_all
  moreover have "nat (int len - int ones) = len - ones" by simp
  moreover have "\<not> (len = 32 \<and> len - ones \<ge> 31)" "\<not> (len = 128 \<and> len - ones \<ge> 127)" using assms(5) by auto
  ultimately show ?thesis using assms(1-4) by (auto simp: RangeSize_def Let_def)
qed

lemma go_div_power:
  assumes "b \<le> a" "a \<le> 62"
  shows "go_div (2 ^ a) (2 ^ b) = 2 ^ (a - b)"
proof -
  have "(2 :: int) ^ a div 2 ^ b = 2 ^ (a - b)" using assms(1) by (simp add: power_diff)
  moreover have "(2 :: int) ^ (a - b) \<le> 2 ^ 62" using assms(2) by (intro power_increasing) simp_all
  ultimately show ?thesis by (simp add: go_div_def int64_small)
qed

lemma NewSubnetRange_exact:
  assumes spec: "exact_spec spec"
    and str: "spec_String S \<lparr>ss_CIDR = Masked (ss_CIDR spec), ss_SubnetBits = ss_SubnetBits spec\<rparr> = Inr str"
  obtains r where "NewSubnetRange A S spec = Inr r" "subnet_range_ok r" "sr_net r = Masked (ss_CIDR spec)"
    "sr_subnetBits r = ss_SubnetBits spec" "sr_alloc r = al_new A (sr_max r) str"
proof -
  define a where "a = pf_addr (ss_CIDR spec)"
  define len where "len = BitLen a"
  define ones where "ones = nat (pf_bits (ss_CIDR spec))"
  define sb where "sb = nat (ss_SubnetBits spec)"
  define v where "v = mask_value len ones (addr_value a)"
  have c: "a \<noteq> NoAddr" "pf_bits (ss_CIDR spec) = int ones" "ss_SubnetBits spec = int sb" "ones \<le> sb" "sb \<le> len"
    "len - ones \<le> (if len = 32 then 30 else 62)" "2 ^ (len - 8) \<le> v"
    using spec unfolding exact_spec_def Let_def a_def [symmetric] len_def [symmetric] ones_def [symmetric] v_def [symmetric]
    by (auto simp: ones_def sb_def split: if_splits)
  have len: "len = 32 \<or> len = 128" unfolding len_def using c(1) by (rule BitLen_cases)
  have lo: "len - ones \<le> 62" using c(6) by (simp split: if_splits)
  have "v \<le> addr_value a" by (simp add: v_def mask_value_def)
  then have v: "v < 2 ^ len" using addr_value_bound [of a] by (simp add: len_def)
  note mk = mk_addr_simps [OF len v]
  let ?net = "\<lparr>pf_addr = mk_addr len v, pf_bits = int ones\<rparr>" and ?sub = "\<lparr>pf_addr = mk_addr len v, pf_bits = int sb\<rparr>"
  have masked: "Masked (ss_CIDR spec) = ?net"
    using c(1,2,4,5) mk by (simp add: Masked_def addr_Prefix_def PrefixFrom_def flip: a_def len_def v_def)
  have sub: "PrefixFrom (mk_addr len v) (int sb) = ?sub" using c(5) mk by (simp add: PrefixFrom_def)
  have sz: "RangeSize ?net = 2 ^ (len - ones)" "RangeSize ?sub = 2 ^ (len - sb)"
    using RangeSize_exact [OF len, of ?net ones] RangeSize_exact [OF len, of ?sub sb] mk c(4-6) by (simp_all split: if_splits)
  have m: "go_div (2 ^ (len - ones)) (2 ^ (len - sb)) = 2 ^ (sb - ones)"
    using go_div_power [of "len - sb" "len - ones"] c(4,5) lo by simp
  define r where "r = \<lparr>sr_net = ?net, sr_base = bigForIP (mk_addr len v), sr_max = 2 ^ (sb - ones),
     sr_subnetSize = 2 ^ (len - sb), sr_subnetBits = int sb, sr_alloc = al_new A (2 ^ (sb - ones)) str\<rparr>"
  have "NewSubnetRange A S spec = Inr r"
    using str c(4) by (simp add: NewSubnetRange_def masked sub c(3) IsValid_def sz m r_def Let_def)
  moreover have "subnet_range_ok r" unfolding subnet_range_ok_def r_def using mk len c(4,5,7) lo
    by (auto simp: bigForIP_def v_def mask_value_dvd)
  ultimately show thesis using that masked c(3) by (simp add: r_def)
qed

lemma int64_power_zero: "int64 (2 ^ k) = 0 \<longleftrightarrow> k \<ge> 64"
proof -
  have "int64 (2 ^ k) = 0 \<longleftrightarrow> (word_of_int (2 ^ k) :: 64 word) = 0"
    unfolding int64_def by (metis sint_0 signed_word_eqI)
  also have "\<dots> \<longleftrightarrow> (2 :: 64 word) ^ k = 0" by (simp add: word_of_int_2p)
  also have "\<dots> \<longleftrightarrow> k \<ge> 64" by (simp add: exp_eq_zero_iff)
  finally show ?thesis .
qed

text \<open>
  C22. Which specs make a range. For a valid prefix and a subnet length between its length and the length of
  the address, \<^verbatim>\<open>NewAllocatorSubnetRange\<close> divides by zero and panics exactly when the subnet length is at most
  one for IPv4, or at most \<open>64\<close> for IPv6, where the 64-bit size of a subnet has overflowed: a range of
  \<^verbatim>\<open>/64\<close> subnets in an IPv6 network cannot be made. On the specs whose sizes fit (\<open>exact_spec\<close>) it returns a
  well-formed empty range over the masked network.
\<close>

theorem NewSubnetRange_panics:
  assumes law: "offset_allocator A cap spec_of offs"
    and valid: "pf_addr (ss_CIDR spec) \<noteq> NoAddr" "0 \<le> pf_bits (ss_CIDR spec)" "pf_bits (ss_CIDR spec) \<le> ss_SubnetBits spec"
      "ss_SubnetBits spec \<le> int (BitLen (pf_addr (ss_CIDR spec)))"
  shows "(NewSubnetRange A S spec = Inl PanicDivideByZero \<longleftrightarrow>
      (if BitLen (pf_addr (ss_CIDR spec)) = 32 then ss_SubnetBits spec \<le> 1 else ss_SubnetBits spec \<le> 64)) \<and>
    (exact_spec spec \<and>
      spec_String S \<lparr>ss_CIDR = Masked (ss_CIDR spec), ss_SubnetBits = ss_SubnetBits spec\<rparr> = Inr str \<longrightarrow>
      (\<exists>r. NewSubnetRange A S spec = Inr r \<and> subnet_range_ok r \<and> sr_net r = Masked (ss_CIDR spec) \<and>
         offs (sr_alloc r) = {} \<and> cap (sr_alloc r) = sr_max r))"
proof (intro conjI impI)
  define a where "a = pf_addr (ss_CIDR spec)"
  define len where "len = BitLen a"
  define v where "v = mask_value len (nat (pf_bits (ss_CIDR spec))) (addr_value a)"
  define sb where "sb = nat (ss_SubnetBits spec)"
  have sb: "ss_SubnetBits spec = int sb" "sb \<le> len" using valid by (simp_all add: sb_def len_def a_def)
  have len: "len = 32 \<or> len = 128" unfolding len_def using valid(1) BitLen_cases by (simp add: a_def)
  have "v \<le> addr_value a" by (simp add: v_def mask_value_def)
  then have "v < 2 ^ len" using addr_value_bound [of a] by (simp add: len_def)
  note mk = mk_addr_simps [OF len this]
  have masked: "Masked (ss_CIDR spec) = \<lparr>pf_addr = mk_addr len v, pf_bits = pf_bits (ss_CIDR spec)\<rparr>"
    using valid mk by (simp add: Masked_def addr_Prefix_def PrefixFrom_def flip: a_def len_def v_def)
  have sub: "PrefixFrom (mk_addr len v) (int sb) = \<lparr>pf_addr = mk_addr len v, pf_bits = int sb\<rparr>"
    using sb mk by (simp add: PrefixFrom_def)
  have "RangeSize \<lparr>pf_addr = mk_addr len v, pf_bits = int sb\<rparr> = 0 \<longleftrightarrow> (if len = 32 then sb \<le> 1 else sb \<le> 64)"
    using len sb mk by (auto simp: RangeSize_def Let_def int64_power_zero nat_diff_distrib)
  then show "NewSubnetRange A S spec = Inl PanicDivideByZero \<longleftrightarrow>
      (if BitLen (pf_addr (ss_CIDR spec)) = 32 then ss_SubnetBits spec \<le> 1 else ss_SubnetBits spec \<le> 64)"
    using valid(3) by (auto simp: NewSubnetRange_def masked sub sb(1) IsValid_def Let_def split: sum.split simp flip: a_def len_def)
next
  assume "exact_spec spec \<and> spec_String S \<lparr>ss_CIDR = Masked (ss_CIDR spec), ss_SubnetBits = ss_SubnetBits spec\<rparr> = Inr str"
  then obtain r where r: "NewSubnetRange A S spec = Inr r" "subnet_range_ok r" "sr_net r = Masked (ss_CIDR spec)"
    "sr_alloc r = al_new A (sr_max r) str" using NewSubnetRange_exact by metis
  then have "0 \<le> sr_max r" by (auto elim: subnet_range_okE)
  then show "\<exists>r. NewSubnetRange A S spec = Inr r \<and> subnet_range_ok r \<and> sr_net r = Masked (ss_CIDR spec) \<and>
      offs (sr_alloc r) = {} \<and> cap (sr_alloc r) = sr_max r"
    using r offset_allocator.new_law [OF law] by metis
qed

text \<open>Unique local addresses \<^verbatim>\<open>fd00::/48\<close> and \<^verbatim>\<open>10.1.0.0/16\<close>, and a codec for the second one.\<close>

definition ula_spec :: SubnetRangeSpec where
  "ula_spec = \<lparr>ss_CIDR = \<lparr>pf_addr = IPv6 (0xfd * 2 ^ 120), pf_bits = 48\<rparr>, ss_SubnetBits = 64\<rparr>"

definition ten_spec :: SubnetRangeSpec where
  "ten_spec = \<lparr>ss_CIDR = \<lparr>pf_addr = IPv4 0x0a010203, pf_bits = 16\<rparr>, ss_SubnetBits = 28\<rparr>"

definition plain_specs :: spec_codec where
  "plain_specs = \<lparr>spec_String = (\<lambda>spec. Inr ''spec''),
     ParseSubnetRangeSpec = (\<lambda>str. Inr (ten_spec\<lparr>ss_CIDR := Masked (ss_CIDR ten_spec)\<rparr>)),
     prefix_String = (\<lambda>p. ''10.1.0.0/16'')\<rparr>"

lemma ten_spec_exact: "exact_spec ten_spec"
  by (simp add: exact_spec_def ten_spec_def Let_def mask_value_def)

theorem NewSubnetRange_panics_witness:
  "NewSubnetRange bitmap_allocator plain_specs ula_spec = Inl PanicDivideByZero \<and>
   (\<exists>r. NewSubnetRange bitmap_allocator plain_specs ten_spec = Inr r \<and> subnet_range_ok r)"
proof -
  show ?thesis
    using ten_spec_exact NewSubnetRange_panics [OF bits.offset_allocator_axioms, of ula_spec plain_specs]
      NewSubnetRange_panics [OF bits.offset_allocator_axioms, of ten_spec plain_specs "''spec''"]
    by (auto simp: ula_spec_def ten_spec_def plain_specs_def)
qed

section \<open>Allocation\<close>

context offset_allocator
begin

lemma subnet_AllocateNext_cases:
  assumes ok: "subnet_range_ok r" and cap: "cap (sr_alloc r) = sr_max r" and nxt: "subnet_AllocateNext A r = (res, r')"
  shows "r' = r\<lparr>sr_alloc := sr_alloc r'\<rparr> \<and> cap (sr_alloc r') = sr_max r \<and> spec_of (sr_alloc r') = spec_of (sr_alloc r) \<and>
    (if {0..<sr_max r} \<subseteq> offs (sr_alloc r) then res = Inl ErrSubnetFull \<and> offs (sr_alloc r') = offs (sr_alloc r)
     else \<exists>off. off \<in> {0..<sr_max r} - offs (sr_alloc r) \<and> res = Inr (subnet_at r off) \<and>
       offs (sr_alloc r') = insert off (offs (sr_alloc r)))"
proof -
  obtain ares a' where a: "al_AllocateNext A (sr_alloc r) = (ares, a')" by fastforce
  note law = AllocateNext_law [OF a]
  show ?thesis
  proof (cases "{0..<sr_max r} \<subseteq> offs (sr_alloc r)")
    case True
    with law nxt a show ?thesis by (auto simp: subnet_AllocateNext_def cap Let_def)
  next
    case False
    with law cap obtain off where off: "ares = Inr (off, True)" "off \<in> {0..<sr_max r} - offs (sr_alloc r)"
      "offs a' = insert off (offs (sr_alloc r))" by auto
    have "0 \<le> off" "off < sr_max r" using off(2) by simp_all
    note f = addIPOffset_subnet [OF ok this]
    have "(res, r') = (Inr (subnet_at r off), r\<lparr>sr_alloc := a'\<rparr>)"
      using nxt by (simp add: subnet_AllocateNext_def a off(1) f(1,2) Let_def)
    then show ?thesis using False off law cap by auto
  qed
qed

lemma subnet_Has_at:
  assumes "subnet_range_ok r" "0 \<le> off" "off < sr_max r"
  shows "subnet_Has A (subnet_at r off) r \<longleftrightarrow> off \<in> offs (sr_alloc r)"
  using subnet_contains_at [OF assms] by (simp add: subnet_Has_def Has_law)

lemma subnet_Release_at:
  assumes "subnet_range_ok r" "0 \<le> off" "off < sr_max r"
  obtains a' where "subnet_Release A (subnet_at r off) r = (None, r\<lparr>sr_alloc := a'\<rparr>)"
    "offs a' = offs (sr_alloc r) - {off}" "cap a' = cap (sr_alloc r)" "spec_of a' = spec_of (sr_alloc r)"
  using subnet_contains_at [OF assms] Release_law [of off "sr_alloc r"] that by (fastforce simp: subnet_Release_def)

lemma subnet_Allocate_at:
  assumes "subnet_range_ok r" "0 \<le> off" "off < sr_max r" "cap (sr_alloc r) = sr_max r"
  obtains a' where "subnet_Allocate A (subnet_at r off) r =
      (if off \<in> offs (sr_alloc r) then Inl ErrSubnetAllocated else Inr (), r\<lparr>sr_alloc := a'\<rparr>)"
    "offs a' = insert off (offs (sr_alloc r))" "cap a' = cap (sr_alloc r)" "spec_of a' = spec_of (sr_alloc r)"
proof -
  obtain a' where "al_Allocate A off (sr_alloc r) = (Inr (off \<notin> offs (sr_alloc r)), a')"
    "offs a' = insert off (offs (sr_alloc r))" "cap a' = cap (sr_alloc r)" "spec_of a' = spec_of (sr_alloc r)"
    using Allocate_law [of off "sr_alloc r"] assms by auto
  then show thesis using that subnet_contains_at [OF assms(1-3)] by (simp add: subnet_Allocate_def Let_def)
qed

lemma subnet_ForEach_at:
  assumes ok: "subnet_range_ok r" and cap: "cap (sr_alloc r) = sr_max r"
  shows "subnet_ForEach A f r = fold (\<lambda>off. f (subnet_at r off)) (al_offsets A (sr_alloc r))"
proof -
  have "GetIndexedIP (sr_net r) (int64 (off * sr_subnetSize r)) = Inr (pf_addr (subnet_at r off)) \<and>
      addr_Prefix (pf_addr (subnet_at r off)) (sr_subnetBits r) = Inr (subnet_at r off)"
    if "off \<in> set (al_offsets A (sr_alloc r))" for off
  proof -
    have off: "0 \<le> off" "off < sr_max r" using that bounded [of "sr_alloc r"] cap by (auto simp: offsets_law)
    have "sr_base r = bigForIP (pf_addr (sr_net r))" using ok by (auto simp: bigForIP_def elim: subnet_range_okE)
    then show ?thesis
      using addIPOffset_subnet [OF ok off] subnet_in_net [OF ok off subnet_contains_itself [OF ok off]]
      by (simp add: GetIndexedIP_def)
  qed
  then show ?thesis unfolding subnet_ForEach_def by (intro ext fold_cong) (simp_all add: Let_def)
qed

lemma subnet_Restore_snapshot:
  assumes parse: "ParseSubnetRangeSpec S str = Inr \<lparr>ss_CIDR = sr_net r, ss_SubnetBits = sr_subnetBits r\<rparr>"
    and snap: "al_Snapshot A a = (str, data)" and spec: "spec_of (sr_alloc r) = str" and cap: "cap a = cap (sr_alloc r)"
  obtains a' where "subnet_Restore A S str data r = (Inr (), r\<lparr>sr_alloc := a'\<rparr>)" "offs a' = offs a"
    "cap a' = cap (sr_alloc r)" "spec_of a' = str" "al_Restore A str data (sr_alloc r) = (None, a')"
proof -
  obtain a' where "al_Restore A str data (sr_alloc r) = (None, a')" "offs a' = offs a" "cap a' = cap a" "spec_of a' = str"
    using Restore_law [OF snap spec cap [symmetric]] by blast
  then show thesis using that parse cap by (simp add: subnet_Restore_def)
qed

end

text \<open>
  C21. \<^verbatim>\<open>AllocateNext\<close> of a well-formed range fails exactly when all subnets are taken. Otherwise it returns a
  subnet of the configured length inside the network that shares no address with any subnet allocated
  before, records it, and releasing what it returned gives the previous allocation back.
\<close>
theorem AllocateNext_disjoint:
  assumes law: "offset_allocator A cap spec_of offs" and ok: "subnet_range_ok r" and cap: "cap (sr_alloc r) = sr_max r"
    and nxt: "subnet_AllocateNext A r = (res, r')"
  shows "(res = Inl ErrSubnetFull \<longleftrightarrow> {0..<sr_max r} \<subseteq> offs (sr_alloc r)) \<and>
    (case res of
       Inl e \<Rightarrow> e = ErrSubnetFull \<and> offs (sr_alloc r') = offs (sr_alloc r)
     | Inr p \<Rightarrow> IsValid p \<and> pf_bits p = sr_subnetBits r \<and> \<not> subnet_Has A p r \<and> subnet_Has A p r' \<and>
         (\<forall>a. prefix_Contains p a \<longrightarrow> prefix_Contains (sr_net r) a \<and>
            (\<forall>off \<in> offs (sr_alloc r). \<not> prefix_Contains (subnet_at r off) a)) \<and>
         (\<exists>r''. subnet_Release A p r' = (None, r'') \<and> offs (sr_alloc r'') = offs (sr_alloc r)))"
proof -
  note c = offset_allocator.subnet_AllocateNext_cases [OF law ok cap nxt]
  show ?thesis
  proof (cases "{0..<sr_max r} \<subseteq> offs (sr_alloc r)")
    case False
    with c obtain off where off: "0 \<le> off" "off < sr_max r" "off \<notin> offs (sr_alloc r)" "res = Inr (subnet_at r off)"
      "offs (sr_alloc r') = insert off (offs (sr_alloc r))" and r': "r' = r\<lparr>sr_alloc := sr_alloc r'\<rparr>" by auto
    have max: "sr_max r' = sr_max r" and at: "subnet_at r' = subnet_at r"
      by (subst r', simp) (subst r', simp add: subnet_at_def fun_eq_iff)
    have ok': "subnet_range_ok r'" using ok by (subst r') (simp add: subnet_range_ok_def)
    have off': "0 \<le> off" "off < sr_max r'" using off max by simp_all
    have bnd: "j \<in> offs (sr_alloc r) \<Longrightarrow> 0 \<le> j \<and> j < sr_max r" for j
      using offset_allocator.bounded [OF law, of "sr_alloc r"] cap by auto
    have "\<not> prefix_Contains (subnet_at r j) a" if "prefix_Contains (subnet_at r off) a" "j \<in> offs (sr_alloc r)" for a j
      using subnet_disjoint [OF ok off(1,2), of j a] bnd [OF that(2)] that off(3) by blast
    moreover obtain r'' where "subnet_Release A (subnet_at r off) r' = (None, r'')" "offs (sr_alloc r'') = offs (sr_alloc r)"
      using offset_allocator.subnet_Release_at [OF law ok' off'] off(3,5) at
      by (metis Diff_insert_absorb SubnetRange.select_convs(6) SubnetRange.surjective SubnetRange.update_convs(6))
    ultimately show ?thesis
      using False off addIPOffset_subnet [OF ok off(1,2)] subnet_in_net [OF ok off(1,2)] at
        offset_allocator.subnet_Has_at [OF law ok off(1,2)] offset_allocator.subnet_Has_at [OF law ok' off'] by auto
  qed (use c in auto)
qed

theorem AllocateNext_disjoint_witness:
  "\<exists>r p r'. NewSubnetRange bitmap_allocator plain_specs ten_spec = Inr r \<and>
     subnet_AllocateNext bitmap_allocator r = (Inr p, r') \<and> subnet_Has bitmap_allocator p r'"
proof -
  obtain r where r: "NewSubnetRange bitmap_allocator plain_specs ten_spec = Inr r" "subnet_range_ok r"
      "sr_alloc r = al_new bitmap_allocator (sr_max r) ''spec''"
    using ten_spec_exact NewSubnetRange_exact [of ten_spec plain_specs "''spec''"] by (auto simp: plain_specs_def)
  have pos: "0 < sr_max r" using r(2) by (auto elim: subnet_range_okE)
  then have new: "bit_set (sr_alloc r) = {}" "int (length (snd (sr_alloc r))) = sr_max r"
    using bits.new_law [of "sr_max r"] r(3) by auto
  obtain res r' where run: "subnet_AllocateNext bitmap_allocator r = (res, r')" by fastforce
  note d = AllocateNext_disjoint [OF bits.offset_allocator_axioms r(2) new(2) run]
  have "\<not> {0..<sr_max r} \<subseteq> bit_set (sr_alloc r)" using pos new(1) by auto
  with d have "\<exists>p. res = Inr p \<and> subnet_Has bitmap_allocator p r'" by (cases res) auto
  with r(1) run show ?thesis by blast
qed

end
