(* ===== verification/Storage_Optimistic.thy ===== *)
theory Storage_Optimistic
  imports Storage_Ops
begin

text \<open>
  The pattern of the services that share an entry between hosts: read it, change it, update it with the
  version that was read, and start again when somebody else was faster. The locale collects what the
  pattern relies on for one key and gives the facts that the services use.
\<close>

text \<open>
  The server and the codec keep their contracts, the JSON form of the values has at least ten bytes, and
  the key is never deleted and recreated between the steps of one round, so that the same version means
  the same entry.
\<close>

locale optimistic_key = etcd_server C kvs rely + json_gzip K
  for C :: "'s etcd_client" and kvs and rely and K :: "'v codec" +
  fixes key :: string
  assumes same_version: "rely m m' \<Longrightarrow> version_of m key = version_of m' key \<Longrightarrow> fmlookup m key = fmlookup m' key"
    and json_long: "json_Marshal K v = Inr raw \<Longrightarrow> 10 \<le> length raw"
begin

lemma read_entry:
  assumes "getOp_Exec C K key [] s = (g, s1)" and "\<And>e. g \<noteq> Inl (ErrRequest key e)"
  shows "rely (kvs s) (kvs s1) \<and> (case fmlookup (kvs s1) key of
      None \<Rightarrow> g = Inl (ErrNotFound key)
    | Some e \<Rightarrow> g = decodeKV K e \<and>
        (case g of Inr i \<Rightarrow> item_version i = version_of (kvs s1) key | Inl err \<Rightarrow> \<exists>t. err = ErrDecode (kv_Key e) t))"
proof -
  from getOp_cases [OF assms(1)] assms(2) have g: "rely (kvs s) (kvs s1)"
      "g = (case fmlookup (kvs s1) key of None \<Rightarrow> Inl (ErrNotFound key) | Some e \<Rightarrow> decodeKV K e)" by auto
  show ?thesis
  proof (cases "fmlookup (kvs s1) key")
    case (Some e)
    with g show ?thesis
      by (cases "decodeJSON K (kv_Value e)") (auto simp: decodeKV_def version_of_def)
  qed (use g in simp)
qed

lemma update_mismatch_key:
  assumes "conditional_Exec ErrValueVersionMismatch C K po s = (Inl (ErrValueVersionMismatch k), po', s')"
  shows "k = po_key po"
proof -
  obtain c s1 where c: "put_ClientOp C K po s = (c, s1)" by (cases "put_ClientOp C K po s")
  with assms put_ClientOp_cases [OF c, of k] show ?thesis
    by (cases c) (auto simp: conditional_Exec_def Let_def split: sum.splits prod.splits if_splits)
qed

text \<open>
  An update of an item that was read at \<open>s1\<close> replaces the entry that was read, or reports a conflict and
  changes nothing.
\<close>

lemma decode_written:
  assumes "encodeJSON K v = Inr (kv_Value e)"
  shows "decodeKV K e = Inr \<lparr>item_body = v, item_version = kv_Version e\<rparr>"
proof -
  obtain raw where raw: "json_Marshal K v = Inr raw" using assms by (auto simp: encodeJSON_def rbind_eq_Inr)
  have "decodeJSON K (kv_Value e) = Inr v" using decode_encode [OF raw assms] json_long [OF raw] by simp
  then show ?thesis by (simp add: decodeKV_def)
qed

lemma update_op:
  assumes "put_Exec C K po s1 = (res, po', s2)" and po: "po_kind po = KindUpdate" "po_key po = key"
    and "item_version (po_val po) = version_of (kvs s1) key"
  shows "case res of
      Inr _ \<Rightarrow> \<exists>m e. rely (kvs s1) m \<and> fmlookup m key = fmlookup (kvs s1) key \<and> kvs s2 = fmupd key e m \<and>
        decodeKV K e = Inr \<lparr>item_body = item_body (po_val po), item_version = kv_Version e\<rparr>
    | Inl (ErrValueVersionMismatch k) \<Rightarrow> rely (kvs s1) (kvs s2)
    | Inl _ \<Rightarrow> True"
proof -
  have exec: "conditional_Exec ErrValueVersionMismatch C K po s1 = (res, po', s2)"
    using assms(1) by (simp add: put_Exec_def po updateOp_Exec_def)
  have cmps: "put_Cmps po = [CompareVersion (po_key po) (item_version (po_val po))]" by (simp add: put_Cmps_def po)
  from conditional_Exec_cases [OF exec cmps] obtain m where m: "rely (kvs s1) m"
      "cas_spec (ErrValueVersionMismatch key) K key (item_body (po_val po)) (item_version (po_val po)) m res (kvs s2)"
    by (auto simp: po)
  show ?thesis
  proof (cases res)
    case (Inl e)
    have "e = ErrValueVersionMismatch k \<Longrightarrow> k = key" for k
      using update_mismatch_key [of po s1 k po' s2] exec Inl by (simp add: po)
    with Inl m show ?thesis by (cases e) (auto simp: cas_spec_def)
  next
    case (Inr u)
    with m(2) obtain e where e: "version_of m key = item_version (po_val po)" "kvs s2 = fmupd key e m"
        "encodeJSON K (item_body (po_val po)) = Inr (kv_Value e)" by (auto simp: cas_spec_def swapped_def)
    have "fmlookup m key = fmlookup (kvs s1) key" using same_version [OF m(1)] e(1) assms(4) by simp
    then show ?thesis using decode_written [OF e(3)] m(1) e(2) Inr by auto
  qed
qed

lemma update_entry:
  assumes "put_Exec C K (NewUpdateOp key i []) s1 = (res, po, s2)" and "item_version i = version_of (kvs s1) key"
  shows "case res of
      Inr _ \<Rightarrow> \<exists>m e. rely (kvs s1) m \<and> fmlookup m key = fmlookup (kvs s1) key \<and> kvs s2 = fmupd key e m \<and>
        decodeKV K e = Inr \<lparr>item_body = item_body i, item_version = kv_Version e\<rparr>
    | Inl (ErrValueVersionMismatch k) \<Rightarrow> rely (kvs s1) (kvs s2)
    | Inl _ \<Rightarrow> True"
  by (rule update_op [OF assms(1), unfolded NewUpdateOp_def put_op.select_convs, OF refl refl assms(2)])

text \<open>A create writes the entry of an absent key, or finds the key taken and changes nothing.\<close>

lemma create_op:
  assumes "put_Exec C K po s1 = (res, po', s2)" and po: "po_kind po = KindCreate" "po_key po = key" and wf: "store_wf (kvs s1)"
  shows "case res of
      Inr _ \<Rightarrow> \<exists>m e. rely (kvs s1) m \<and> fmlookup m key = None \<and> kvs s2 = fmupd key e m \<and>
        decodeKV K e = Inr \<lparr>item_body = item_body (po_val po), item_version = kv_Version e\<rparr>
    | Inl (ErrAlreadyExists k) \<Rightarrow> rely (kvs s1) (kvs s2) \<and> fmlookup (kvs s2) key \<noteq> None
    | Inl _ \<Rightarrow> True"
proof -
  have exec: "conditional_Exec ErrAlreadyExists C K po s1 = (res, po', s2)"
    using assms(1) by (simp add: put_Exec_def po createOp_Exec_def)
  have cmps: "put_Cmps po = [CompareVersion (po_key po) 0]" by (simp add: put_Cmps_def po)
  from conditional_Exec_cases [OF exec cmps] obtain m where m: "rely (kvs s1) m"
      "cas_spec (ErrAlreadyExists key) K key (item_body (po_val po)) 0 m res (kvs s2)" by (auto simp: po)
  note absent = version_of_absent [OF rely_wf [OF wf m(1)], of key]
  show ?thesis
  proof (cases res)
    case (Inl e)
    have "e = ErrAlreadyExists k \<Longrightarrow> k = key" for k
    proof -
      assume e: "e = ErrAlreadyExists k"
      obtain c s where c: "put_ClientOp C K po s1 = (c, s)" by (cases "put_ClientOp C K po s1")
      with exec Inl e put_ClientOp_cases [OF c, of k] show "k = key"
        by (cases c) (auto simp: conditional_Exec_def Let_def po split: sum.splits prod.splits if_splits)
    qed
    with Inl m absent show ?thesis by (cases e) (auto simp: cas_spec_def)
  next
    case (Inr u)
    with m(2) obtain e where e: "version_of m key = 0" "kvs s2 = fmupd key e m"
        "encodeJSON K (item_body (po_val po)) = Inr (kv_Value e)" by (auto simp: cas_spec_def swapped_def)
    then show ?thesis using decode_written [OF e(3)] m(1) absent Inr by auto
  qed
qed

end

end
