(* ===== verification/Ports_Service.thy ===== *)
theory Ports_Service
  imports Ports Storage_Optimistic
begin

text \<open>
  The ports service (\<^verbatim>\<open>server/internal/ports/service.go\<close>, \<^verbatim>\<open>store.go\<close>): it keeps the allocator of a host in
  the store and changes it with optimistic updates that are retried on a conflict. The check whether a
  port is bound on the host and the random numbers are parameters, indexed by the number of the draw.
  Sleeping between retries has no effect on the model; the lock makes the calls of one process follow
  each other.
\<close>

section \<open>The store\<close>

record StoredPortRange =
  sp_Name :: string
  sp_Snapshot :: "byte list"

definition ports_Prefix :: "string \<Rightarrow> string" where
  "ports_Prefix root = Prefix [''/'', root, ''ports'']"

definition ports_Key :: "string \<Rightarrow> string \<Rightarrow> string" where
  "ports_Key root allocatorName = Key [ports_Prefix root, allocatorName]"

definition ports_ExistsByKey :: "'s etcd_client \<Rightarrow> string \<Rightarrow> string \<Rightarrow> 's \<Rightarrow> (storage_error, bool) res \<times> 's" where
  "ports_ExistsByKey C root allocatorName = existsOp_Exec C (ports_Key root allocatorName)"

definition ports_GetByKey :: "'s etcd_client \<Rightarrow> StoredPortRange codec \<Rightarrow> string \<Rightarrow> string \<Rightarrow> 's \<Rightarrow>
    (storage_error, StoredPortRange item) res \<times> 's" where
  "ports_GetByKey C K root allocatorName = getOp_Exec C K (ports_Key root allocatorName) []"

definition ports_Update :: "string \<Rightarrow> StoredPortRange item \<Rightarrow> StoredPortRange put_op" where
  "ports_Update root i = NewUpdateOp (ports_Key root (sp_Name (item_body i))) i []"

section \<open>The service\<close>

record ports_config =
  pc_HostID :: string
  pc_ClientAddresses :: "string list"
  pc_Min :: int
  pc_Max :: int

definition ClientAddress :: "ports_config \<Rightarrow> string" where
  "ClientAddress cfg = (case pc_ClientAddresses cfg of a # _ \<Rightarrow> a | [] \<Rightarrow> [])"

datatype ports_error =
    ErrOtherHost string string
  | ErrAllocateRetries
  | ErrReleaseRetries
  | ErrCreateAllocator port_error
  | ErrRestoreAllocator storage_error
  | ErrAllocatePort port_error
  | ErrStoreAllocator storage_error
  | ErrGetHost string string
  | ErrNoClientAddresses string

definition maxRetries :: nat where
  "maxRetries = 6"

definition restoreAllocator :: "'s etcd_client \<Rightarrow> StoredPortRange codec \<Rightarrow> string \<Rightarrow> port_range \<Rightarrow> string \<Rightarrow> 's \<Rightarrow>
    (storage_error, port_range \<times> StoredPortRange item) res \<times> 's" where
  "restoreAllocator C K root r name s =
     (case ports_GetByKey C K root name s of
        (Inl (ErrNotFound k), s1) \<Rightarrow>
          (Inr (r, \<lparr>item_body = \<lparr>sp_Name = name, sp_Snapshot = []\<rparr>, item_version = 0\<rparr>), s1)
      | (Inl e, s1) \<Rightarrow> (Inl e, s1)
      | (Inr stored, s1) \<Rightarrow>
          (case Restore (sp_Snapshot (item_body stored)) r of
             Inl e \<Rightarrow> (Inr (r, stored), s1)
           | Inr r' \<Rightarrow> (Inr (r', stored), s1)))"

lemma AllocateNext_bit:
  assumes "AllocateNext rnd r = Inr (p, r')"
  shows "p \<in> set [pr_min r..pr_max r] \<and> \<not> port_bit (pr_bits r) p \<and> r' = r\<lparr>pr_bits := set_bit (nat p) (pr_bits r)\<rparr>"
  using assms by (auto simp: AllocateNext_def Let_def split: if_splits option.splits dest!: nth_free_Some)

lemma AllocateNext_decreases:
  assumes "AllocateNext rnd r = Inr (p, r')"
  shows "nat (Free r') < nat (Free r)"
proof -
  let ?free = "\<lambda>r. filter (\<lambda>p. \<not> port_bit (pr_bits r) p) [pr_min r..pr_max r]"
  from AllocateNext_bit [OF assms] have p: "p \<in> set (?free r)"
    and r': "r' = r\<lparr>pr_bits := set_bit (nat p) (pr_bits r)\<rparr>" by auto
  have le: "pr_min r \<le> pr_max r" using p by auto
  have "set (?free r') \<subset> set (?free r)"
    using p by (auto simp: r' bit_set_bit_iff psubset_eq)
  then have "card (set (?free r')) < card (set (?free r))" by (rule psubset_card_mono [OF finite_set])
  moreover have "card (set (?free r')) = length (?free r')" "card (set (?free r)) = length (?free r)"
    by (intro distinct_card distinct_filter distinct_upto)+
  ultimately have "length (?free r') < length (?free r)" by simp
  moreover have "Free r = int (length (?free r))" "Free r' = int (length (?free r'))"
    using Free_filter [OF le] Free_filter [of r'] le by (simp_all add: r')
  ultimately show ?thesis by simp
qed

function allocateAvailablePort :: "(nat \<Rightarrow> int \<Rightarrow> nat) \<Rightarrow> (nat \<Rightarrow> int \<Rightarrow> bool) \<Rightarrow> nat \<Rightarrow> port_range \<Rightarrow>
    (port_error, int \<times> nat \<times> port_range) res" where
  "allocateAvailablePort rnds portChecker i r =
     (case AllocateNext (rnds i) r of
        Inl e \<Rightarrow> Inl e
      | Inr (port, r') \<Rightarrow>
          if portChecker i port then Inr (port, Suc i, r')
          else allocateAvailablePort rnds portChecker (Suc i) r')"
  by pat_completeness auto
termination
  by (relation "measure (\<lambda>(_, _, _, r). nat (Free r))") (auto dest: AllocateNext_decreases)

declare allocateAvailablePort.simps [simp del]

fun allocatePort :: "'s etcd_client \<Rightarrow> StoredPortRange codec \<Rightarrow> string \<Rightarrow> ports_config \<Rightarrow> (nat \<Rightarrow> int \<Rightarrow> nat) \<Rightarrow>
    (nat \<Rightarrow> int \<Rightarrow> bool) \<Rightarrow> nat \<Rightarrow> nat \<Rightarrow> 's \<Rightarrow> (ports_error, int) res \<times> 's" where
  "allocatePort C K root cfg rnds portChecker i 0 s = (Inl ErrAllocateRetries, s)"
| "allocatePort C K root cfg rnds portChecker i (Suc retries) s =
     (case NewPortRange (pc_Min cfg) (pc_Max cfg) of
        Inl e \<Rightarrow> (Inl (ErrCreateAllocator e), s)
      | Inr r0 \<Rightarrow> (case restoreAllocator C K root r0 (ClientAddress cfg) s of
          (Inl e, s1) \<Rightarrow> (Inl (ErrRestoreAllocator e), s1)
        | (Inr (r, stored), s1) \<Rightarrow> (case allocateAvailablePort rnds portChecker i r of
            Inl e \<Rightarrow> (Inl (ErrAllocatePort e), s1)
          | Inr (port, i', r') \<Rightarrow>
              (let stored' = stored\<lparr>item_body := (item_body stored)\<lparr>sp_Snapshot := Snapshot r'\<rparr>\<rparr>
               in case put_Exec C K (ports_Update root stored') s1 of
                 (Inl (ErrValueVersionMismatch k), po, s2) \<Rightarrow> allocatePort C K root cfg rnds portChecker i' retries s2
               | (Inl e, po, s2) \<Rightarrow> (Inl (ErrStoreAllocator e), s2)
               | (Inr _, po, s2) \<Rightarrow> (Inr port, s2)))))"

definition AllocatePort :: "'s etcd_client \<Rightarrow> StoredPortRange codec \<Rightarrow> string \<Rightarrow> ports_config \<Rightarrow> (nat \<Rightarrow> int \<Rightarrow> nat) \<Rightarrow>
    (nat \<Rightarrow> int \<Rightarrow> bool) \<Rightarrow> string \<Rightarrow> 's \<Rightarrow> (ports_error, int) res \<times> 's" where
  "AllocatePort C K root cfg rnds portChecker hostID s =
     (if hostID \<noteq> pc_HostID cfg then (Inl (ErrOtherHost (pc_HostID cfg) hostID), s)
      else allocatePort C K root cfg rnds portChecker 0 maxRetries s)"

fun releasePort :: "'s etcd_client \<Rightarrow> StoredPortRange codec \<Rightarrow> string \<Rightarrow> ports_config \<Rightarrow> string \<Rightarrow> int list \<Rightarrow> nat \<Rightarrow> 's \<Rightarrow>
    (ports_error, unit) res \<times> 's" where
  "releasePort C K root cfg name ports 0 s = (Inl ErrReleaseRetries, s)"
| "releasePort C K root cfg name ports (Suc retries) s =
     (case NewPortRange (pc_Min cfg) (pc_Max cfg) of
        Inl e \<Rightarrow> (Inl (ErrCreateAllocator e), s)
      | Inr r0 \<Rightarrow> (case restoreAllocator C K root r0 name s of
          (Inl e, s1) \<Rightarrow> (Inl (ErrRestoreAllocator e), s1)
        | (Inr (r, stored), s1) \<Rightarrow>
            (let r' = fold Release ports r;
                 stored' = stored\<lparr>item_body := (item_body stored)\<lparr>sp_Snapshot := Snapshot r'\<rparr>\<rparr>
             in case put_Exec C K (ports_Update root stored') s1 of
               (Inl (ErrValueVersionMismatch k), po, s2) \<Rightarrow> releasePort C K root cfg name ports retries s2
             | (Inl e, po, s2) \<Rightarrow> (Inl (ErrStoreAllocator e), s2)
             | (Inr _, po, s2) \<Rightarrow> (Inr (), s2))))"

text \<open>The client addresses of a host are looked up by the host service, a parameter here.\<close>

definition ReleasePort :: "(string \<Rightarrow> 's \<Rightarrow> (string, string list) res \<times> 's) \<Rightarrow> 's etcd_client \<Rightarrow> StoredPortRange codec \<Rightarrow>
    string \<Rightarrow> ports_config \<Rightarrow> string \<Rightarrow> int list \<Rightarrow> 's \<Rightarrow> (ports_error, unit) res \<times> 's" where
  "ReleasePort GetHost C K root cfg hostID ports s =
     (case GetHost hostID s of
        (Inl e, s1) \<Rightarrow> (Inl (ErrGetHost hostID e), s1)
      | (Inr [], s1) \<Rightarrow> (Inl (ErrNoClientAddresses hostID), s1)
      | (Inr (name # _), s1) \<Rightarrow> releasePort C K root cfg name ports maxRetries s1)"

definition ReleasePortIfDefined :: "(string \<Rightarrow> 's \<Rightarrow> (string, string list) res \<times> 's) \<Rightarrow> 's etcd_client \<Rightarrow>
    StoredPortRange codec \<Rightarrow> string \<Rightarrow> ports_config \<Rightarrow> string \<Rightarrow> int option list \<Rightarrow> 's \<Rightarrow> (ports_error, unit) res \<times> 's" where
  "ReleasePortIfDefined GetHost C K root cfg hostID ports =
     ReleasePort GetHost C K root cfg hostID
       (filter (\<lambda>p. p \<noteq> 0) (map (\<lambda>port. case port of None \<Rightarrow> 0 | Some p \<Rightarrow> p) ports))"

section \<open>No port is handed out twice\<close>

lemma allocateAvailablePort_cases:
  assumes "range_wf r" and "allocateAvailablePort rnds chk i r = Inr (port, i', r')"
  shows "port \<in> {pr_min r..pr_max r} \<and> port \<notin> allocated r \<and> range_wf r' \<and>
    insert port (allocated r) \<subseteq> allocated r' \<and> (\<exists>j. chk j port) \<and>
    (\<forall>q \<in> allocated r' - allocated r - {port}. \<exists>j. \<not> chk j q)"
  using assms
proof (induction rnds chk i r rule: allocateAvailablePort.induct)
  case (1 rnds chk i r)
  show ?case
  proof (cases "AllocateNext (rnds i) r")
    case (Inl e)
    with 1(3) show ?thesis by (simp add: allocateAvailablePort.simps [of rnds chk i r])
  next
    case (Inr x)
    obtain p r1 where x: "x = (p, r1)" by (cases x)
    with AllocateNext_cases [OF 1(2) refl, of "rnds i"] Inr have step: "p \<in> {pr_min r..pr_max r}" "p \<notin> allocated r"
        "range_wf r1" "allocated r1 = insert p (allocated r)" "pr_min r1 = pr_min r" "pr_max r1 = pr_max r"
      by auto
    show ?thesis
    proof (cases "chk i p")
      case True
      with 1(3) Inr x have "port = p" "r' = r1" by (simp_all add: allocateAvailablePort.simps [of rnds chk i r])
      with step True show ?thesis by auto
    next
      case False
      with 1(3) Inr x have rec: "allocateAvailablePort rnds chk (Suc i) r1 = Inr (port, i', r')"
        by (simp add: allocateAvailablePort.simps [of rnds chk i r])
      from 1(1) [OF Inr [unfolded x] refl False step(3) rec] step False show ?thesis by auto
    qed
  qed
qed

text \<open>The ports that the store records for an allocator.\<close>

definition stored_ports :: "StoredPortRange codec \<Rightarrow> string \<Rightarrow> store \<Rightarrow> int set" where
  "stored_ports K key m = (case fmlookup m key of
       None \<Rightarrow> {}
     | Some e \<Rightarrow> (case decodeKV K e of
         Inl err \<Rightarrow> {}
       | Inr i \<Rightarrow> (if length (sp_Snapshot (item_body i)) = bitmapBytes
           then allocated \<lparr>pr_min = 1, pr_max = 1, pr_bits = set_bytes (sp_Snapshot (item_body i))\<rparr> else {})))"

definition name_ok :: "StoredPortRange codec \<Rightarrow> string \<Rightarrow> string \<Rightarrow> store \<Rightarrow> bool" where
  "name_ok K root name m \<longleftrightarrow> (\<forall>e i. fmlookup m (ports_Key root name) = Some e \<and> decodeKV K e = Inr i \<longrightarrow>
     sp_Name (item_body i) = name)"

lemma allocated_bits: "allocated (r\<lparr>pr_bits := b\<rparr>) = allocated \<lparr>pr_min = mn, pr_max = mx, pr_bits = b\<rparr>"
  by (auto simp: mem_allocated)

text \<open>
  What the service relies on beyond the contract of an optimistic key: the other clients write the key
  only through this service, and so keep the name in the entry.
\<close>

locale ports_store = optimistic_key C kvs rely K "ports_Key root name"
  for C :: "'s etcd_client" and kvs and rely and K :: "StoredPortRange codec" and root :: string and name :: string +
  assumes same_name: "name_ok K root name m \<Longrightarrow> rely m m' \<Longrightarrow> name_ok K root name m'"
begin

abbreviation key where
  "key \<equiv> ports_Key root name"

lemma restoreAllocator_cases:
  assumes "restoreAllocator C K root r0 name s = (Inr (r, stored), s1)" and "range_wf r0" and "allocated r0 = {}"
    and "store_wf (kvs s)" and "name_ok K root name (kvs s)"
  shows "rely (kvs s) (kvs s1) \<and> range_wf r \<and> pr_min r = pr_min r0 \<and> pr_max r = pr_max r0 \<and>
    allocated r = stored_ports K key (kvs s1) \<and> item_version stored = version_of (kvs s1) key \<and>
    sp_Name (item_body stored) = name"
proof -
  obtain g s2 where g: "getOp_Exec C K key [] s = (g, s2)" by (cases "getOp_Exec C K key [] s")
  then have s2: "s2 = s1"
    using assms(1) by (auto simp: restoreAllocator_def ports_GetByKey_def split: sum.splits storage_error.splits)
  have "g \<noteq> Inl (ErrRequest key e)" for e
    using assms(1) g by (auto simp: restoreAllocator_def ports_GetByKey_def)
  note read = read_entry [OF g this, unfolded s2]
  then have rel: "rely (kvs s) (kvs s1)" ..
  show ?thesis
  proof (cases "fmlookup (kvs s1) key")
    case None
    with assms(1) g read have "r = r0" "stored = \<lparr>item_body = \<lparr>sp_Name = name, sp_Snapshot = []\<rparr>, item_version = 0\<rparr>"
      by (auto simp: restoreAllocator_def ports_GetByKey_def)
    with None rel assms(2,3) show ?thesis by (simp add: stored_ports_def version_of_def)
  next
    case (Some e)
    with read have dec: "g = decodeKV K e" by simp
    have "g \<noteq> Inl (ErrDecode k t)" for k t
      using assms(1) g by (auto simp: restoreAllocator_def ports_GetByKey_def)
    then obtain i where i: "g = Inr i" using read Some by (cases g) auto
    have ver: "item_version i = version_of (kvs s1) key" using read Some i by simp
    have nm: "sp_Name (item_body i) = name"
      using same_name [OF assms(5) rel] Some dec i by (auto simp: name_ok_def)
    show ?thesis
    proof (cases "length (sp_Snapshot (item_body i)) = bitmapBytes")
      case True
      then have rs: "Restore (sp_Snapshot (item_body i)) r0 = Inr (r0\<lparr>pr_bits := set_bytes (sp_Snapshot (item_body i))\<rparr>)"
        by (simp add: Restore_def)
      with assms(1) g i have r: "r = r0\<lparr>pr_bits := set_bytes (sp_Snapshot (item_body i))\<rparr>" "stored = i"
        by (auto simp: restoreAllocator_def ports_GetByKey_def)
      with Restore_wf [OF assms(2) rs] Some dec [symmetric] i True rel ver nm show ?thesis
        by (simp add: stored_ports_def allocated_bits [of _ _ 1 1])
    next
      case False
      with assms(1) g i have "r = r0" "stored = i"
        by (auto simp: restoreAllocator_def ports_GetByKey_def Restore_def)
      with assms(2,3) Some dec [symmetric] i False rel ver nm show ?thesis by (simp add: stored_ports_def)
    qed
  qed
qed

text \<open>One optimistic update of an allocator that was read at \<open>s1\<close>.\<close>

lemma ports_Update_cases:
  assumes "put_Exec C K (ports_Update root stored) s1 = (res, po, s2)" and "range_wf r'"
    and "item_body stored = \<lparr>sp_Name = name, sp_Snapshot = Snapshot r'\<rparr>"
    and "item_version stored = version_of (kvs s1) key" and "name_ok K root name (kvs s1)"
  shows "case res of
      Inr _ \<Rightarrow> \<exists>m. rely (kvs s1) m \<and> stored_ports K key m = stored_ports K key (kvs s1) \<and>
        stored_ports K key (kvs s2) = allocated r' \<and> name_ok K root name (kvs s2)
    | Inl (ErrValueVersionMismatch k) \<Rightarrow> rely (kvs s1) (kvs s2)
    | Inl _ \<Rightarrow> True"
proof -
  have "put_Exec C K (NewUpdateOp key stored []) s1 = (res, po, s2)"
    using assms(1) by (simp add: ports_Update_def assms(3))
  note up = update_entry [OF this assms(4)]
  have snap: "length (Snapshot r') = bitmapBytes" "set_bytes (Snapshot r') = pr_bits r'"
    using Restore_Snapshot [OF assms(2), of "r'"] by (auto simp: Restore_def split: if_splits)
      (metis port_range.select_convs(3) port_range.update_convs(3) port_range.surjective)
  show ?thesis
  proof (cases res)
    case (Inl e)
    with up show ?thesis by (cases e) simp_all
  next
    case (Inr u)
    with up obtain m e where m: "rely (kvs s1) m" "fmlookup m key = fmlookup (kvs s1) key" "kvs s2 = fmupd key e m"
        "decodeKV K e = Inr \<lparr>item_body = item_body stored, item_version = kv_Version e\<rparr>" by auto
    have "stored_ports K key m = stored_ports K key (kvs s1)" using m(2) by (simp add: stored_ports_def)
    moreover have "stored_ports K key (kvs s2) = allocated r'"
      using allocated_bits [of "pr_bits r'" r' 1 1]
      by (simp add: stored_ports_def m(3,4) assms(3) snap)
    moreover have "name_ok K root name (kvs s2)" by (simp add: name_ok_def m(3,4) assms(3))
    ultimately show ?thesis using m(1) Inr by auto
  qed
qed

lemma NewPortRange_cases:
  "NewPortRange mn mx = Inr r0 \<Longrightarrow> range_wf r0 \<and> allocated r0 = {} \<and> pr_min r0 = mn \<and> pr_max r0 = mx"
  by (auto simp: NewPortRange_def range_wf_def mem_allocated split: if_splits)

lemma allocatePort_fresh:
  assumes "allocatePort C K root cfg rnds chk i n s = (Inr port, s')" and "ClientAddress cfg = name"
    and "store_wf (kvs s)" and "name_ok K root name (kvs s)"
  shows "\<exists>m. rely (kvs s) m \<and> port \<in> {pc_Min cfg..pc_Max cfg} \<and> port \<notin> stored_ports K key m \<and>
    insert port (stored_ports K key m) \<subseteq> stored_ports K key (kvs s') \<and> (\<exists>j. chk j port)"
  using assms
proof (induction n arbitrary: i s)
  case (Suc n)
  obtain r0 where r0: "NewPortRange (pc_Min cfg) (pc_Max cfg) = Inr r0"
    using Suc.prems(1) by (cases "NewPortRange (pc_Min cfg) (pc_Max cfg)") auto
  note wf0 = NewPortRange_cases [OF r0]
  obtain a s1 where a: "restoreAllocator C K root r0 name s = (a, s1)" by (cases "restoreAllocator C K root r0 name s")
  with Suc.prems(1,2) r0 obtain r stored where rs: "a = Inr (r, stored)" by (cases a) auto
  from restoreAllocator_cases [OF a [unfolded rs]] wf0 Suc.prems(3,4)
  have rest: "rely (kvs s) (kvs s1)" "range_wf r" "pr_min r = pc_Min cfg" "pr_max r = pc_Max cfg"
      "allocated r = stored_ports K key (kvs s1)" "item_version stored = version_of (kvs s1) key"
      "sp_Name (item_body stored) = name" by auto
  obtain p i' r' where av: "allocateAvailablePort rnds chk i r = Inr (p, i', r')"
    using Suc.prems(1,2) r0 a rs by (cases "allocateAvailablePort rnds chk i r") auto
  note avc = allocateAvailablePort_cases [OF rest(2) av]
  let ?stored = "stored\<lparr>item_body := (item_body stored)\<lparr>sp_Snapshot := Snapshot r'\<rparr>\<rparr>"
  obtain u po s2 where u: "put_Exec C K (ports_Update root ?stored) s1 = (u, po, s2)"
    by (cases "put_Exec C K (ports_Update root ?stored) s1") auto
  have body: "item_body ?stored = \<lparr>sp_Name = name, sp_Snapshot = Snapshot r'\<rparr>" using rest(7) by simp
  have names1: "name_ok K root name (kvs s1)" by (rule same_name [OF Suc.prems(4) rest(1)])
  have "item_version ?stored = version_of (kvs s1) key" using rest(6) by simp
  note up = ports_Update_cases [OF u _ body this names1]
  show ?case
  proof (cases u)
    case (Inr x)
    with Suc.prems(1,2) r0 a rs av u have "port = p" "s' = s2" by simp_all
    moreover from up avc Inr obtain m where "rely (kvs s1) m" "stored_ports K key m = stored_ports K key (kvs s1)"
        "stored_ports K key (kvs s2) = allocated r'" by auto
    ultimately show ?thesis
      using avc rest rely_trans [OF rest(1)] by (intro exI [of _ m]) auto
  next
    case (Inl e)
    then obtain k where e: "e = ErrValueVersionMismatch k"
      using Suc.prems(1,2) r0 a rs av u by (cases e) auto
    with Inl up avc have rel2: "rely (kvs s1) (kvs s2)" by simp
    have rel: "rely (kvs s) (kvs s2)" by (rule rely_trans [OF rest(1) rel2])
    have rec: "allocatePort C K root cfg rnds chk i' n s2 = (Inr port, s')"
      using Suc.prems(1,2) r0 a rs av u Inl e by simp
    from Suc.IH [OF rec Suc.prems(2) rely_wf [OF Suc.prems(3) rel] same_name [OF Suc.prems(4) rel]]
    show ?thesis using rely_trans [OF rel] by blast
  qed
qed simp

lemma fold_Release:
  assumes "range_wf r"
  shows "range_wf (fold Release ports r) \<and> allocated (fold Release ports r) = allocated r - set ports"
  using assms
proof (induction ports arbitrary: r)
  case (Cons p ports)
  have "range_wf (Release p r)" using Cons.prems by (simp add: Release_def range_wf_def take_bit_unset_bit)
  moreover have "allocated (Release p r) = allocated r - {p}"
    by (cases "valid_port p") (auto simp: Release_def allocated_unset_bit valid_port_def mem_allocated)
  ultimately show ?case using Cons.IH [of "Release p r"] by auto
qed simp

lemma releasePort_removes:
  assumes "releasePort C K root cfg name ports n s = (Inr (), s')"
    and "store_wf (kvs s)" and "name_ok K root name (kvs s)"
  shows "\<exists>m. rely (kvs s) m \<and> stored_ports K key (kvs s') = stored_ports K key m - set ports"
  using assms
proof (induction n arbitrary: s)
  case (Suc n)
  obtain r0 where r0: "NewPortRange (pc_Min cfg) (pc_Max cfg) = Inr r0"
    using Suc.prems(1) by (cases "NewPortRange (pc_Min cfg) (pc_Max cfg)") auto
  note wf0 = NewPortRange_cases [OF r0]
  obtain a s1 where a: "restoreAllocator C K root r0 name s = (a, s1)" by (cases "restoreAllocator C K root r0 name s")
  with Suc.prems(1) r0 obtain r stored where rs: "a = Inr (r, stored)" by (cases a) auto
  from restoreAllocator_cases [OF a [unfolded rs]] wf0 Suc.prems(2,3)
  have rest: "rely (kvs s) (kvs s1)" "range_wf r" "allocated r = stored_ports K key (kvs s1)"
      "item_version stored = version_of (kvs s1) key" "sp_Name (item_body stored) = name" by auto
  let ?r = "fold Release ports r"
  let ?stored = "stored\<lparr>item_body := (item_body stored)\<lparr>sp_Snapshot := Snapshot ?r\<rparr>\<rparr>"
  obtain u po s2 where u: "put_Exec C K (ports_Update root ?stored) s1 = (u, po, s2)"
    by (cases "put_Exec C K (ports_Update root ?stored) s1") auto
  have body: "item_body ?stored = \<lparr>sp_Name = name, sp_Snapshot = Snapshot ?r\<rparr>" using rest(5) by simp
  have "item_version ?stored = version_of (kvs s1) key" using rest(4) by simp
  note up = ports_Update_cases [OF u conjunct1 [OF fold_Release [OF rest(2)]] body this same_name [OF Suc.prems(3) rest(1)]]
  show ?case
  proof (cases u)
    case (Inr x)
    with Suc.prems(1) r0 a rs u have "s' = s2" by (simp add: Let_def)
    moreover from up Inr obtain m where "rely (kvs s1) m" "stored_ports K key m = stored_ports K key (kvs s1)"
        "stored_ports K key (kvs s2) = allocated ?r" by auto
    ultimately show ?thesis
      using fold_Release [OF rest(2), of ports] rest(3) rely_trans [OF rest(1)] by (intro exI [of _ m]) auto
  next
    case (Inl e)
    then obtain k where e: "e = ErrValueVersionMismatch k"
      using Suc.prems(1) r0 a rs u by (cases e) (auto simp: Let_def)
    with Inl up have rel2: "rely (kvs s1) (kvs s2)" by simp
    have rel: "rely (kvs s) (kvs s2)" by (rule rely_trans [OF rest(1) rel2])
    have rec: "releasePort C K root cfg name ports n s2 = (Inr (), s')"
      using Suc.prems(1) r0 a rs u Inl e by (simp add: Let_def)
    from Suc.IH [OF rec rely_wf [OF Suc.prems(2) rel] same_name [OF Suc.prems(3) rel]]
    show ?thesis using rely_trans [OF rel] by blast
  qed
qed simp

end

text \<open>
  C18. No port is handed out twice, also when several hosts share an allocator and allocate at the same
  time: a port that \<^verbatim>\<open>AllocatePort\<close> returns lies in the configured range, was found unbound on the host, was
  not recorded in the store at the moment of the update, and is recorded afterwards together with all
  ports that were. While the other clients only add ports, two calls never return the same port.
\<close>
theorem AllocatePort_never_shared:
  assumes "ports_store C kvs rely K root (ClientAddress cfg)" and "store_wf (kvs s)"
    and "name_ok K root (ClientAddress cfg) (kvs s)"
    and "AllocatePort C K root cfg rnds chk hostID s = (Inr port, s')"
  shows "(\<exists>m. rely (kvs s) m \<and> port \<in> {pc_Min cfg..pc_Max cfg} \<and>
      port \<notin> stored_ports K (ports_Key root (ClientAddress cfg)) m \<and>
      insert port (stored_ports K (ports_Key root (ClientAddress cfg)) m) \<subseteq>
        stored_ports K (ports_Key root (ClientAddress cfg)) (kvs s') \<and> (\<exists>j. chk j port)) \<and>
    ((\<forall>m m'. rely m m' \<longrightarrow> stored_ports K (ports_Key root (ClientAddress cfg)) m \<subseteq>
        stored_ports K (ports_Key root (ClientAddress cfg)) m') \<and>
      rely (kvs s') (kvs s1) \<and> store_wf (kvs s1) \<and> name_ok K root (ClientAddress cfg) (kvs s1) \<and>
      AllocatePort C K root cfg rnds' chk' hostID s1 = (Inr port', s2) \<longrightarrow> port' \<noteq> port)"
proof -
  have alloc: "allocatePort C K root cfg rnds chk 0 maxRetries s = (Inr port, s')"
    if "AllocatePort C K root cfg rnds chk hostID s = (Inr port, s')" for rnds chk s port s'
    using that by (simp add: AllocatePort_def split: if_splits)
  note first = ports_store.allocatePort_fresh [OF assms(1) alloc [OF assms(4)] refl assms(2,3)]
  moreover have "port' \<noteq> port" if mono: "\<forall>m m'. rely m m' \<longrightarrow> stored_ports K (ports_Key root (ClientAddress cfg)) m \<subseteq>
        stored_ports K (ports_Key root (ClientAddress cfg)) m'" and r: "rely (kvs s') (kvs s1)" "store_wf (kvs s1)"
      "name_ok K root (ClientAddress cfg) (kvs s1)" "AllocatePort C K root cfg rnds' chk' hostID s1 = (Inr port', s2)"
  proof -
    from ports_store.allocatePort_fresh [OF assms(1) alloc [OF r(4)] refl r(2,3)] obtain m where
      m: "rely (kvs s1) m" "port' \<notin> stored_ports K (ports_Key root (ClientAddress cfg)) m" by blast
    from first have "port \<in> stored_ports K (ports_Key root (ClientAddress cfg)) (kvs s')" by blast
    with mono r(1) m(1) have "port \<in> stored_ports K (ports_Key root (ClientAddress cfg)) m" by blast
    with m(2) show ?thesis by blast
  qed
  ultimately show ?thesis by blast
qed

text \<open>
  C23. A release removes exactly the given ports from the allocator of the host, whatever the other
  clients have recorded there in the meantime.
\<close>
theorem ReleasePort_removes_ports:
  assumes "GetHost hostID s0 = (Inr (name # addrs), s)" and "ports_store C kvs rely K root name"
    and "store_wf (kvs s)" and "name_ok K root name (kvs s)"
    and "ReleasePort GetHost C K root cfg hostID ports s0 = (Inr (), s')"
  shows "\<exists>m. rely (kvs s) m \<and>
    stored_ports K (ports_Key root name) (kvs s') = stored_ports K (ports_Key root name) m - set ports"
  using ports_store.releasePort_removes [OF assms(2) _ assms(3,4), of cfg ports maxRetries s'] assms(1,5)
  by (simp add: ReleasePort_def)

section \<open>A sample run\<close>

text \<open>A codec of allocators: the length of the name in unary, the name, and the bytes.\<close>

definition port_codec :: "StoredPortRange codec" where
  "port_codec = \<lparr>
     json_Marshal = (\<lambda>sp. Inr (''{snapshot '' @ replicate (length (sp_Name sp)) CHR ''n'' @ ''}'' @ sp_Name sp @
       map (\<lambda>b. char_of (unat b)) (sp_Snapshot sp))),
     json_Unmarshal = (\<lambda>t. let u = drop 10 t; n = length (takeWhile (\<lambda>c. c = CHR ''n'') u)
       in Inr \<lparr>sp_Name = take n (drop (n + 1) u), sp_Snapshot = map (\<lambda>c. word_of_nat (of_char c)) (drop (2 * n + 1) u)\<rparr>),
     gzip_Write = (\<lambda>s. None),
     gzip_Close = (\<lambda>s. Inr (gzip_magic @ replicate 7 CHR 0x00 @ s)),
     gzip_fields = (\<lambda>s. None),
     gzip_ReadAll = (\<lambda>s. Inr (drop 10 s))\<rparr>"

lemma port_codec_round_trip: "json_Unmarshal port_codec (''{snapshot '' @ replicate (length n) CHR ''n'' @ ''}'' @ n @
    map (\<lambda>b. char_of (unat b)) bs) = Inr \<lparr>sp_Name = n, sp_Snapshot = bs\<rparr>"
proof -
  have tw: "takeWhile (\<lambda>c. c = CHR ''n'') (replicate k CHR ''n'' @ ''}'' @ t) = replicate k CHR ''n''" for k t
    by (induction k) auto
  have bytes: "map (\<lambda>c. word_of_nat (of_char c)) (map (\<lambda>b. char_of (unat b)) bs) = (bs :: byte list)"
  proof (induction bs)
    case (Cons b bs)
    have "unat b < 2 ^ LENGTH(8)" by (rule unsigned_less)
    with Cons show ?case by (simp add: of_char_of)
  qed simp
  have "drop 10 (''{snapshot '' @ u) = u" for u by simp
  moreover have "drop (length n + 1) (replicate (length n) CHR ''n'' @ ''}'' @ n @ t) = n @ t" for t by simp
  moreover have "drop (2 * length n + 1) (replicate (length n) CHR ''n'' @ ''}'' @ n @ t) = t" for t by simp
  ultimately show ?thesis
    unfolding port_codec_def codec.select_convs Let_def by (simp only: tw length_replicate bytes) simp
qed

interpretation port_codec: json_gzip port_codec
proof
  show "json_Unmarshal port_codec raw = Inr v" if "json_Marshal port_codec v = Inr raw" for v raw
    using that port_codec_round_trip [of "sp_Name v" "sp_Snapshot v"] by (simp add: port_codec_def)
qed (auto simp: port_codec_def gzip_magic_def)

interpretation lone_host: ports_store "local_client quiet" snd "(=)" port_codec root name for root name
  by unfold_locales (auto simp: port_codec_def)

definition sample_config :: ports_config where
  "sample_config = \<lparr>pc_HostID = ''host-1'', pc_ClientAddresses = [''10.0.0.1''], pc_Min = 1, pc_Max = 3\<rparr>"

lemma port_codec_encodes: "\<exists>enc. encodeJSON port_codec sp = Inr enc"
proof -
  have "\<exists>enc. compress port_codec raw = Inr enc" for raw by (simp add: compress_def port_codec_def)
  moreover have "\<exists>raw. json_Marshal port_codec sp = Inr raw" by (simp add: port_codec_def)
  ultimately show ?thesis by (auto simp: encodeJSON_def)
qed

lemma fresh_update_succeeds:
  assumes "encodeJSON K (item_body i) = Inr enc" and "item_version i = 0"
  shows "\<exists>po s'. put_Exec (local_client quiet) K (NewUpdateOp k i []) (0, fmempty) = (Inr (), po, s')"
  using assms
  by (simp add: put_Exec_def NewUpdateOp_def updateOp_Exec_def conditional_Exec_def put_ClientOp_def clientPutOp_def
      put_Cmps_def local_client_def request_def serve_txn_def etcd_txn_def version_of_def Let_def)

definition sample_empty :: port_range where
  "sample_empty = \<lparr>pr_min = 1, pr_max = 3, pr_bits = 0\<rparr>"

definition sample_stored :: "StoredPortRange item" where
  "sample_stored = \<lparr>item_body = \<lparr>sp_Name = ''10.0.0.1'', sp_Snapshot = []\<rparr>, item_version = 0\<rparr>"

lemma sample_update:
  "\<exists>po s'. put_Exec (local_client quiet) port_codec
     (ports_Update ''cp'' (sample_stored\<lparr>item_body := (item_body sample_stored)\<lparr>sp_Snapshot := data\<rparr>\<rparr>)) (0, fmempty) = (Inr (), po, s')"
proof -
  let ?i = "sample_stored\<lparr>item_body := (item_body sample_stored)\<lparr>sp_Snapshot := data\<rparr>\<rparr>"
  obtain enc where "encodeJSON port_codec (item_body ?i) = Inr enc" using port_codec_encodes by blast
  then show ?thesis unfolding ports_Update_def by (rule fresh_update_succeeds) (simp add: sample_stored_def)
qed

lemma sample_start:
  "NewPortRange (pc_Min sample_config) (pc_Max sample_config) = Inr sample_empty"
  "restoreAllocator (local_client quiet) port_codec ''cp'' sample_empty ''10.0.0.1'' (0, fmempty) =
     (Inr (sample_empty, sample_stored), (0, fmempty))"
  "ClientAddress sample_config = ''10.0.0.1''" "pc_HostID sample_config = ''host-1''"
  by (simp_all add: NewPortRange_def sample_config_def port_bounds sample_empty_def restoreAllocator_def ports_GetByKey_def
      getOp_Exec_def local_client_def request_def range_response_def limit_kvs_def sort_kvs_def DecodeGetResponse_def
      decodeKVs_def ClientAddress_def sample_stored_def)

lemma maxRetries_Suc: "maxRetries = Suc 5"
  by (simp add: maxRetries_def)

lemma sample_allocation:
  "\<exists>s'. AllocatePort (local_client quiet) port_codec ''cp'' sample_config (\<lambda>_ _. 0) (\<lambda>_ _. True) ''host-1'' (0, fmempty) =
     (Inr 1, s')"
proof -
  have "[1..3 :: int] = [1, 2, 3]" by (simp add: upto.simps)
  then have "AllocateNext (\<lambda>_. 0) sample_empty = Inr (1, sample_empty\<lparr>pr_bits := 2\<rparr>)"
    by (simp add: AllocateNext_def Free_def Used_def Let_def sample_empty_def)
  then have av: "allocateAvailablePort (\<lambda>_ _. 0) (\<lambda>_ _. True) 0 sample_empty =
      Inr (1, 1, sample_empty\<lparr>pr_bits := 2\<rparr>)"
    by (simp add: allocateAvailablePort.simps)
  obtain po s' where "put_Exec (local_client quiet) port_codec (ports_Update ''cp'' (sample_stored\<lparr>item_body :=
      (item_body sample_stored)\<lparr>sp_Snapshot := Snapshot (sample_empty\<lparr>pr_bits := 2\<rparr>)\<rparr>\<rparr>)) (0, fmempty) = (Inr (), po, s')"
    using sample_update by blast
  then show ?thesis
    unfolding AllocatePort_def maxRetries_Suc allocatePort.simps(2) by (simp add: sample_start av Let_def)
qed

lemma sample_release:
  "\<exists>s'. ReleasePort (\<lambda>h s. (Inr [''10.0.0.1''], s)) (local_client quiet) port_codec ''cp'' sample_config ''host-1'' [1] (0, fmempty) =
     (Inr (), s')"
proof -
  obtain po s' where "put_Exec (local_client quiet) port_codec (ports_Update ''cp'' (sample_stored\<lparr>item_body :=
      (item_body sample_stored)\<lparr>sp_Snapshot := Snapshot (fold Release [1] sample_empty)\<rparr>\<rparr>)) (0, fmempty) = (Inr (), po, s')"
    using sample_update by blast
  then show ?thesis
    unfolding ReleasePort_def maxRetries_Suc releasePort.simps(2) by (simp add: sample_start Let_def)
qed

lemma empty_store_ok: "name_ok K root name fmempty" "store_wf fmempty" "stored_ports K key fmempty = {}"
  by (simp_all add: name_ok_def store_wf_def stored_ports_def)

theorem AllocatePort_never_shared_witness:
  "\<exists>s'. AllocatePort (local_client quiet) port_codec ''cp'' sample_config (\<lambda>_ _. 0) (\<lambda>_ _. True) ''host-1'' (0, fmempty) =
     (Inr 1, s') \<and> 1 \<in> stored_ports port_codec (ports_Key ''cp'' ''10.0.0.1'') (snd s')"
proof -
  obtain s' where run: "AllocatePort (local_client quiet) port_codec ''cp'' sample_config (\<lambda>_ _. 0) (\<lambda>_ _. True) ''host-1''
      (0, fmempty) = (Inr 1, s')" using sample_allocation by blast
  have "ports_store (local_client quiet) snd (=) port_codec ''cp'' (ClientAddress sample_config)"
    by (rule lone_host.ports_store_axioms)
  from AllocatePort_never_shared [OF this _ _ run] run show ?thesis
    by (auto simp: empty_store_ok sample_start)
qed

theorem ReleasePort_removes_ports_witness:
  "\<exists>s'. ReleasePort (\<lambda>h s. (Inr [''10.0.0.1''], s)) (local_client quiet) port_codec ''cp'' sample_config ''host-1'' [1] (0, fmempty) =
     (Inr (), s') \<and> stored_ports port_codec (ports_Key ''cp'' ''10.0.0.1'') (snd s') = {}"
proof -
  obtain s' where run: "ReleasePort (\<lambda>h s. (Inr [''10.0.0.1''], s)) (local_client quiet) port_codec ''cp'' sample_config
      ''host-1'' [1] (0, fmempty) = (Inr (), s')" using sample_release by blast
  have "ports_store (local_client quiet) snd (=) port_codec ''cp'' ''10.0.0.1''" by (rule lone_host.ports_store_axioms)
  from ReleasePort_removes_ports [OF _ this _ _ run] run show ?thesis by (auto simp: empty_store_ok)
qed

end
