(* ===== verification/Ipam_Service.thy ===== *)
theory Ipam_Service
  imports Ipam_Subnet Ports_Service
begin

text \<open>
  The ipam service (\<^verbatim>\<open>server/internal/ipam/service.go\<close>, \<^verbatim>\<open>store.go\<close>): it keeps the subnets of a network in the
  store, under the name of the network, and changes them with optimistic updates that are retried on a
  conflict. Log output has no effect on the model; the lock makes the calls of one process follow each
  other.
\<close>

section \<open>The store\<close>

record StoredSubnetRange =
  sn_Name :: string
  sn_Spec :: string
  sn_Snapshot :: "byte list"

definition ipam_Prefix :: "string \<Rightarrow> string" where
  "ipam_Prefix root = Prefix [''/'', root, ''ipam'']"

definition ipam_Key :: "string \<Rightarrow> string \<Rightarrow> string" where
  "ipam_Key root allocatorName = Key [ipam_Prefix root, allocatorName]"

definition ipam_ExistsByKey :: "'s etcd_client \<Rightarrow> string \<Rightarrow> string \<Rightarrow> 's \<Rightarrow> (storage_error, bool) res \<times> 's" where
  "ipam_ExistsByKey C root allocatorName = existsOp_Exec C (ipam_Key root allocatorName)"

definition ipam_GetByKey :: "'s etcd_client \<Rightarrow> StoredSubnetRange codec \<Rightarrow> string \<Rightarrow> string \<Rightarrow> 's \<Rightarrow>
    (storage_error, StoredSubnetRange item) res \<times> 's" where
  "ipam_GetByKey C K root allocatorName = getOp_Exec C K (ipam_Key root allocatorName) []"

definition ipam_Update :: "string \<Rightarrow> StoredSubnetRange item \<Rightarrow> StoredSubnetRange put_op" where
  "ipam_Update root i = NewUpdateOp (ipam_Key root (sn_Name (item_body i))) i []"

section \<open>The service\<close>

datatype ipam_error =
    ErrSubnetRetries
  | ErrCreateSubnetAllocator subnet_error
  | ErrRestoreSubnetAllocator storage_error
  | ErrAllocateSubnet subnet_error
  | ErrGetSubnetAllocator storage_error
  | ErrStoreSubnetAllocator storage_error

definition ipam_maxRetries :: nat where
  "ipam_maxRetries = 3"

text \<open>A range that cannot be restored is used as it is.\<close>

definition restoreSubnetAllocator :: "'s etcd_client \<Rightarrow> StoredSubnetRange codec \<Rightarrow> 'a allocator \<Rightarrow> spec_codec \<Rightarrow> string \<Rightarrow>
    'a SubnetRange \<Rightarrow> string \<Rightarrow> 's \<Rightarrow> (storage_error, 'a SubnetRange \<times> StoredSubnetRange item) res \<times> 's" where
  "restoreSubnetAllocator C K A S root r name s =
     (case ipam_GetByKey C K root name s of
        (Inl (ErrNotFound k), s1) \<Rightarrow>
          (Inr (r, \<lparr>item_body = \<lparr>sn_Name = name, sn_Spec = [], sn_Snapshot = []\<rparr>, item_version = 0\<rparr>), s1)
      | (Inl e, s1) \<Rightarrow> (Inl e, s1)
      | (Inr stored, s1) \<Rightarrow>
          (Inr (snd (subnet_Restore A S (sn_Spec (item_body stored)) (sn_Snapshot (item_body stored)) r), stored), s1))"

definition with_snapshot :: "'a allocator \<Rightarrow> 'a SubnetRange \<Rightarrow> StoredSubnetRange item \<Rightarrow> StoredSubnetRange item" where
  "with_snapshot A r stored = (let (spec, snapshot) = subnet_Snapshot A r
     in stored\<lparr>item_body := (item_body stored)\<lparr>sn_Spec := spec, sn_Snapshot := snapshot\<rparr>\<rparr>)"

fun allocateSubnet :: "'s etcd_client \<Rightarrow> StoredSubnetRange codec \<Rightarrow> 'a allocator \<Rightarrow> spec_codec \<Rightarrow> string \<Rightarrow>
    prefix \<Rightarrow> int \<Rightarrow> nat \<Rightarrow> 's \<Rightarrow> (ipam_error, prefix) res \<times> 's" where
  "allocateSubnet C K A S root prefix bits 0 s = (Inl ErrSubnetRetries, s)"
| "allocateSubnet C K A S root prefix bits (Suc retries) s =
     (case NewSubnetRange A S \<lparr>ss_CIDR = prefix, ss_SubnetBits = bits\<rparr> of
        Inl e \<Rightarrow> (Inl (ErrCreateSubnetAllocator e), s)
      | Inr r0 \<Rightarrow> (case restoreSubnetAllocator C K A S root r0 (prefix_String S prefix) s of
          (Inl e, s1) \<Rightarrow> (Inl (ErrRestoreSubnetAllocator e), s1)
        | (Inr (r, stored), s1) \<Rightarrow> (case subnet_AllocateNext A r of
            (Inl e, r') \<Rightarrow> (Inl (ErrAllocateSubnet e), s1)
          | (Inr subnet, r') \<Rightarrow> (case put_Exec C K (ipam_Update root (with_snapshot A r' stored)) s1 of
              (Inl (ErrValueVersionMismatch k), po, s2) \<Rightarrow> allocateSubnet C K A S root prefix bits retries s2
            | (Inl e, po, s2) \<Rightarrow> (Inl (ErrStoreSubnetAllocator e), s2)
            | (Inr _, po, s2) \<Rightarrow> (Inr subnet, s2)))))"

definition AllocateSubnet :: "'s etcd_client \<Rightarrow> StoredSubnetRange codec \<Rightarrow> 'a allocator \<Rightarrow> spec_codec \<Rightarrow> string \<Rightarrow>
    prefix \<Rightarrow> int \<Rightarrow> 's \<Rightarrow> (ipam_error, prefix) res \<times> 's" where
  "AllocateSubnet C K A S root prefix bits = allocateSubnet C K A S root prefix bits ipam_maxRetries"

definition releaseSubnet :: "'s etcd_client \<Rightarrow> StoredSubnetRange codec \<Rightarrow> 'a allocator \<Rightarrow> spec_codec \<Rightarrow> string \<Rightarrow>
    prefix \<Rightarrow> int \<Rightarrow> prefix \<Rightarrow> 's \<Rightarrow> ipam_error option \<times> 's" where
  "releaseSubnet C K A S root prefix bits subnet s =
     (case ipam_GetByKey C K root (prefix_String S prefix) s of
        (Inl (ErrNotFound k), s1) \<Rightarrow> (None, s1)
      | (Inl e, s1) \<Rightarrow> (Some (ErrGetSubnetAllocator e), s1)
      | (Inr stored, s1) \<Rightarrow> (case NewSubnetRange A S \<lparr>ss_CIDR = prefix, ss_SubnetBits = bits\<rparr> of
          Inl e \<Rightarrow> (Some (ErrCreateSubnetAllocator e), s1)
        | Inr r0 \<Rightarrow> (case subnet_Restore A S (sn_Spec (item_body stored)) (sn_Snapshot (item_body stored)) r0 of
            (Inl e, r) \<Rightarrow> (None, s1)
          | (Inr _, r) \<Rightarrow>
              if \<not> subnet_Contains r subnet then (None, s1)
              else (case subnet_Release A subnet r of
                (Some e, r') \<Rightarrow> (None, s1)
              | (None, r') \<Rightarrow> (case put_Exec C K (ipam_Update root (with_snapshot A r' stored)) s1 of
                  (Inl (ErrValueVersionMismatch k), po, s2) \<Rightarrow>
                    (Some (ErrStoreSubnetAllocator (ErrValueVersionMismatch k)), s2)
                | (_, po, s2) \<Rightarrow> (None, s2))))))"

text \<open>\<^verbatim>\<open>errors.Is(err, storage.ErrValueVersionMismatch)\<close>.\<close>

fun is_version_mismatch :: "ipam_error \<Rightarrow> bool" where
  "is_version_mismatch (ErrGetSubnetAllocator (ErrValueVersionMismatch k)) = True"
| "is_version_mismatch (ErrStoreSubnetAllocator (ErrValueVersionMismatch k)) = True"
| "is_version_mismatch _ = False"

text \<open>The loop of \<^verbatim>\<open>ReleaseSubnet\<close>: every error but a conflict ends it, and none is returned; a panic escapes.\<close>

fun release_rounds :: "'s etcd_client \<Rightarrow> StoredSubnetRange codec \<Rightarrow> 'a allocator \<Rightarrow> spec_codec \<Rightarrow> string \<Rightarrow>
    prefix \<Rightarrow> int \<Rightarrow> prefix \<Rightarrow> nat \<Rightarrow> 's \<Rightarrow> (ipam_error, unit) res \<times> 's" where
  "release_rounds C K A S root prefix bits subnet 0 s = (Inr (), s)"
| "release_rounds C K A S root prefix bits subnet (Suc retries) s =
     (case releaseSubnet C K A S root prefix bits subnet s of
        (None, s1) \<Rightarrow> (Inr (), s1)
      | (Some e, s1) \<Rightarrow>
          if e = ErrCreateSubnetAllocator PanicDivideByZero then (Inl e, s1)
          else if \<not> is_version_mismatch e then (Inr (), s1)
          else release_rounds C K A S root prefix bits subnet retries s1)"

definition ReleaseSubnet :: "'s etcd_client \<Rightarrow> StoredSubnetRange codec \<Rightarrow> 'a allocator \<Rightarrow> spec_codec \<Rightarrow> string \<Rightarrow>
    prefix \<Rightarrow> int \<Rightarrow> prefix \<Rightarrow> 's \<Rightarrow> (ipam_error, unit) res \<times> 's" where
  "ReleaseSubnet C K A S root prefix bits subnet s =
     (if \<not> IsValid subnet \<or> \<not> IsValid prefix then (Inr (), s)
      else release_rounds C K A S root prefix bits subnet ipam_maxRetries s)"

section \<open>No address is handed out twice\<close>

text \<open>
  The entries that the service writes for a range \<open>r0\<close>: they carry the name of the network and the snapshot
  of an allocator of the same spec and size.
\<close>

definition entry_ok :: "'a allocator \<Rightarrow> ('a \<Rightarrow> int) \<Rightarrow> StoredSubnetRange codec \<Rightarrow> string \<Rightarrow> string \<Rightarrow> int \<Rightarrow> string \<Rightarrow> store \<Rightarrow> bool" where
  "entry_ok A cap K key name mx str m \<longleftrightarrow> (\<forall>e i. fmlookup m key = Some e \<and> decodeKV K e = Inr i \<longrightarrow>
     sn_Name (item_body i) = name \<and>
     (\<exists>a. al_Snapshot A a = (sn_Spec (item_body i), sn_Snapshot (item_body i)) \<and> sn_Spec (item_body i) = str \<and> cap a = mx))"

text \<open>The offsets that the store records.\<close>

definition stored_offsets :: "'a allocator \<Rightarrow> ('a \<Rightarrow> int set) \<Rightarrow> StoredSubnetRange codec \<Rightarrow> string \<Rightarrow> 'a SubnetRange \<Rightarrow> store \<Rightarrow> int set" where
  "stored_offsets A offs K key r0 m = (case fmlookup m key of
       None \<Rightarrow> {}
     | Some e \<Rightarrow> (case decodeKV K e of
         Inl err \<Rightarrow> {}
       | Inr i \<Rightarrow> offs (snd (al_Restore A (sn_Spec (item_body i)) (sn_Snapshot (item_body i)) (sr_alloc r0)))))"

locale ipam_store = optimistic_key C kvs rely K "ipam_Key root (prefix_String S cidr)" + offset_allocator A cap spec_of offs
  for C :: "'s etcd_client" and kvs and rely and K :: "StoredSubnetRange codec" and root :: string and S :: spec_codec
    and cidr :: prefix and A :: "'a allocator" and cap and spec_of and offs +
  fixes nbits :: int and r0 :: "'a SubnetRange" and str :: string
  assumes created: "NewSubnetRange A S \<lparr>ss_CIDR = cidr, ss_SubnetBits = nbits\<rparr> = Inr r0"
    and exact: "exact_spec \<lparr>ss_CIDR = cidr, ss_SubnetBits = nbits\<rparr>"
    and spec_text: "spec_String S \<lparr>ss_CIDR = Masked cidr, ss_SubnetBits = nbits\<rparr> = Inr str"
    and spec_parsed: "ParseSubnetRangeSpec S str = Inr \<lparr>ss_CIDR = Masked cidr, ss_SubnetBits = nbits\<rparr>"
    and same_entries: "entry_ok A cap K (ipam_Key root (prefix_String S cidr)) (prefix_String S cidr) (sr_max r0) str m \<Longrightarrow>
      rely m m' \<Longrightarrow> entry_ok A cap K (ipam_Key root (prefix_String S cidr)) (prefix_String S cidr) (sr_max r0) str m'"
begin

abbreviation range_name where
  "range_name \<equiv> prefix_String S cidr"

abbreviation key where
  "key \<equiv> ipam_Key root range_name"

abbreviation entries_ok where
  "entries_ok \<equiv> entry_ok A cap K key range_name (sr_max r0) str"

abbreviation recorded where
  "recorded \<equiv> stored_offsets A offs K key r0"

lemma range0: "subnet_range_ok r0" "sr_net r0 = Masked cidr" "sr_subnetBits r0 = nbits" "cap (sr_alloc r0) = sr_max r0"
  "spec_of (sr_alloc r0) = str" "offs (sr_alloc r0) = {}"
proof -
  obtain r where r: "NewSubnetRange A S \<lparr>ss_CIDR = cidr, ss_SubnetBits = nbits\<rparr> = Inr r" "subnet_range_ok r"
      "sr_net r = Masked cidr" "sr_subnetBits r = nbits" "sr_alloc r = al_new A (sr_max r) str"
    using NewSubnetRange_exact [OF exact, of S str A] spec_text by auto
  then have r0: "r0 = r" using created by simp
  have "0 \<le> sr_max r" using r(2) by (auto elim: subnet_range_okE)
  then show "subnet_range_ok r0" "sr_net r0 = Masked cidr" "sr_subnetBits r0 = nbits" "cap (sr_alloc r0) = sr_max r0"
      "spec_of (sr_alloc r0) = str" "offs (sr_alloc r0) = {}"
    using r new_law [of "sr_max r" str] by (simp_all add: r0)
qed

lemma restoreSubnetAllocator_cases:
  assumes "restoreSubnetAllocator C K A S root r0 range_name s = (Inr (r, stored), s1)" and "entries_ok (kvs s)"
  shows "rely (kvs s) (kvs s1) \<and> (\<exists>a. r = r0\<lparr>sr_alloc := a\<rparr> \<and> cap a = sr_max r0 \<and> spec_of a = str \<and>
    offs a = recorded (kvs s1)) \<and> item_version stored = version_of (kvs s1) key \<and> sn_Name (item_body stored) = range_name"
proof -
  obtain g s2 where g: "getOp_Exec C K key [] s = (g, s2)" by (cases "getOp_Exec C K key [] s")
  then have s2: "s2 = s1"
    using assms(1) by (auto simp: restoreSubnetAllocator_def ipam_GetByKey_def split: sum.splits storage_error.splits)
  have "g \<noteq> Inl (ErrRequest key e)" for e
    using assms(1) g by (auto simp: restoreSubnetAllocator_def ipam_GetByKey_def)
  note read = read_entry [OF g this, unfolded s2]
  then have rel: "rely (kvs s) (kvs s1)" ..
  show ?thesis
  proof (cases "fmlookup (kvs s1) key")
    case None
    with assms(1) g read have "r = r0"
        "stored = \<lparr>item_body = \<lparr>sn_Name = range_name, sn_Spec = [], sn_Snapshot = []\<rparr>, item_version = 0\<rparr>"
      by (auto simp: restoreSubnetAllocator_def ipam_GetByKey_def)
    with None rel range0 show ?thesis by (auto simp: stored_offsets_def version_of_def intro!: exI [of _ "sr_alloc r0"])
  next
    case (Some e)
    with read have dec: "g = decodeKV K e" by simp
    have "g \<noteq> Inl (ErrDecode k t)" for k t
      using assms(1) g by (auto simp: restoreSubnetAllocator_def ipam_GetByKey_def)
    then obtain i where i: "g = Inr i" using read Some by (cases g) auto
    have ver: "item_version i = version_of (kvs s1) key" using read Some i by simp
    have d: "decodeKV K e = Inr i" using dec i by simp
    from same_entries [OF assms(2) rel] Some d obtain a where a: "sn_Name (item_body i) = range_name"
        "al_Snapshot A a = (str, sn_Snapshot (item_body i))" "sn_Spec (item_body i) = str" "cap a = sr_max r0"
      by (auto simp: entry_ok_def)
    obtain a' where a': "subnet_Restore A S str (sn_Snapshot (item_body i)) r0 = (Inr (), r0\<lparr>sr_alloc := a'\<rparr>)"
        "cap a' = cap (sr_alloc r0)" "spec_of a' = str" "al_Restore A str (sn_Snapshot (item_body i)) (sr_alloc r0) = (None, a')"
      using subnet_Restore_snapshot [of S str r0 a] spec_parsed range0 a by metis
    have "r = r0\<lparr>sr_alloc := a'\<rparr>" "stored = i"
      using assms(1) g i a(3) a'(1) by (auto simp: restoreSubnetAllocator_def ipam_GetByKey_def)
    with a a' ver rel range0 Some dec [symmetric] i show ?thesis by (auto simp: stored_offsets_def)
  qed
qed

lemma ipam_Update_cases:
  assumes "put_Exec C K (ipam_Update root (with_snapshot A (r0\<lparr>sr_alloc := a\<rparr>) stored)) s1 = (res, po, s2)"
    and a: "cap a = sr_max r0" "spec_of a = str"
    and stored: "sn_Name (item_body stored) = range_name" "item_version stored = version_of (kvs s1) key"
  shows "case res of
      Inr _ \<Rightarrow> \<exists>m. rely (kvs s1) m \<and> recorded m = recorded (kvs s1) \<and> recorded (kvs s2) = offs a \<and> entries_ok (kvs s2)
    | Inl (ErrValueVersionMismatch k) \<Rightarrow> rely (kvs s1) (kvs s2)
    | Inl _ \<Rightarrow> True"
proof -
  obtain data where data: "al_Snapshot A a = (str, data)" using Snapshot_law [of a] a(2) by (cases "al_Snapshot A a") simp
  let ?i = "with_snapshot A (r0\<lparr>sr_alloc := a\<rparr>) stored"
  have i: "item_body ?i = \<lparr>sn_Name = range_name, sn_Spec = str, sn_Snapshot = data\<rparr>" "item_version ?i = version_of (kvs s1) key"
    using stored by (simp_all add: with_snapshot_def subnet_Snapshot_def data)
  have "put_Exec C K (NewUpdateOp key ?i []) s1 = (res, po, s2)" using assms(1) by (simp add: ipam_Update_def i)
  note up = update_entry [OF this i(2)]
  show ?thesis
  proof (cases res)
    case (Inl e)
    with up show ?thesis by (cases e) simp_all
  next
    case (Inr u)
    with up obtain m e where m: "rely (kvs s1) m" "fmlookup m key = fmlookup (kvs s1) key" "kvs s2 = fmupd key e m"
        "decodeKV K e = Inr \<lparr>item_body = item_body ?i, item_version = kv_Version e\<rparr>" by auto
    obtain a' where "al_Restore A str data (sr_alloc r0) = (None, a')" "offs a' = offs a"
      using Restore_law [OF data range0(5)] range0(4) a(1) by auto
    then have "recorded (kvs s2) = offs a" by (simp add: stored_offsets_def m(3,4) i)
    moreover have "recorded m = recorded (kvs s1)" by (simp add: stored_offsets_def m(2))
    moreover have "entries_ok (kvs s2)" using data a(1) by (auto simp: entry_ok_def m(3,4) i)
    ultimately show ?thesis using m(1) Inr by auto
  qed
qed

lemma allocateSubnet_fresh:
  assumes "allocateSubnet C K A S root cidr nbits n s = (Inr p, s')"
    and "store_wf (kvs s)" and "entries_ok (kvs s)"
  shows "\<exists>m off. rely (kvs s) m \<and> 0 \<le> off \<and> off < sr_max r0 \<and> p = subnet_at r0 off \<and> off \<notin> recorded m \<and>
    recorded (kvs s') = insert off (recorded m)"
  using assms
proof (induction n arbitrary: s)
  case (Suc n)
  obtain x s1 where x: "restoreSubnetAllocator C K A S root r0 range_name s = (x, s1)"
    by (cases "restoreSubnetAllocator C K A S root r0 range_name s")
  with Suc.prems(1) created obtain r stored where rs: "x = Inr (r, stored)" by (cases x) auto
  from restoreSubnetAllocator_cases [OF x [unfolded rs] Suc.prems(3)] obtain a where rest: "rely (kvs s) (kvs s1)"
      "r = r0\<lparr>sr_alloc := a\<rparr>" "cap a = sr_max r0" "spec_of a = str" "offs a = recorded (kvs s1)"
      "item_version stored = version_of (kvs s1) key" "sn_Name (item_body stored) = range_name" by auto
  have ok: "subnet_range_ok r" using range0(1) by (simp add: rest(2) subnet_range_ok_def)
  have cp: "cap (sr_alloc r) = sr_max r" by (simp add: rest(2,3))
  have at: "subnet_at r = subnet_at r0" by (simp add: rest(2) subnet_at_def fun_eq_iff)
  obtain res r' where nxt: "subnet_AllocateNext A r = (res, r')" by fastforce
  then obtain q where q: "res = Inr q" using Suc.prems(1) created x rs by (cases res) auto
  from subnet_AllocateNext_cases [OF ok cp nxt] q obtain off a' where off: "off \<in> {0..<sr_max r0} - recorded (kvs s1)"
      "q = subnet_at r0 off" "offs a' = insert off (recorded (kvs s1))" "r' = r0\<lparr>sr_alloc := a'\<rparr>" "cap a' = sr_max r0" "spec_of a' = str"
    using that [of _ "sr_alloc r'"] rest at by (auto split: if_splits)
  obtain u po s2 where u: "put_Exec C K (ipam_Update root (with_snapshot A (r0\<lparr>sr_alloc := a'\<rparr>) stored)) s1 = (u, po, s2)"
    by (cases "put_Exec C K (ipam_Update root (with_snapshot A (r0\<lparr>sr_alloc := a'\<rparr>) stored)) s1") auto
  note up = ipam_Update_cases [OF u off(5,6) rest(7,6)]
  show ?case
  proof (cases u)
    case (Inr y)
    with Suc.prems(1) created x rs nxt q off(4) u have "p = q" "s' = s2" by simp_all
    moreover from up Inr obtain m where "rely (kvs s1) m" "recorded m = recorded (kvs s1)" "recorded (kvs s2) = offs a'" by auto
    ultimately show ?thesis using off rely_trans [OF rest(1)] by (intro exI [of _ m] exI [of _ off]) auto
  next
    case (Inl e)
    then obtain k where e: "e = ErrValueVersionMismatch k"
      using Suc.prems(1) created x rs nxt q off(4) u by (cases e) auto
    with Inl up have "rely (kvs s1) (kvs s2)" by simp
    then have rel: "rely (kvs s) (kvs s2)" by (rule rely_trans [OF rest(1)])
    have "allocateSubnet C K A S root cidr nbits n s2 = (Inr p, s')"
      using Suc.prems(1) created x rs nxt q off(4) u Inl e by simp
    from Suc.IH [OF this rely_wf [OF Suc.prems(2) rel] same_entries [OF Suc.prems(3) rel]]
    show ?thesis using rely_trans [OF rel] by blast
  qed
qed simp

end

text \<open>
  C19. No address is handed out twice, also when several hosts allocate from the same network at the same
  time: a subnet that \<^verbatim>\<open>AllocateSubnet\<close> returns lies in the network, is not recorded in the store at the
  moment of the update, and is recorded afterwards together with all that were. While the other clients
  only add subnets, the subnets of two calls share no address.
\<close>
theorem AllocateSubnet_never_shared:
  assumes law: "ipam_store C kvs rely K root S cidr A cap spec_of offs nbits r0 str"
    and wf: "store_wf (kvs s)"
      "entry_ok A cap K (ipam_Key root (prefix_String S cidr)) (prefix_String S cidr) (sr_max r0) str (kvs s)"
    and run: "AllocateSubnet C K A S root cidr nbits s = (Inr p, s')"
  shows "(\<exists>m off. rely (kvs s) m \<and> 0 \<le> off \<and> off < sr_max r0 \<and> p = subnet_at r0 off \<and>
      off \<notin> stored_offsets A offs K (ipam_Key root (prefix_String S cidr)) r0 m \<and>
      stored_offsets A offs K (ipam_Key root (prefix_String S cidr)) r0 (kvs s') =
        insert off (stored_offsets A offs K (ipam_Key root (prefix_String S cidr)) r0 m)) \<and>
    (\<forall>a. prefix_Contains p a \<longrightarrow> prefix_Contains (Masked cidr) a) \<and>
    ((\<forall>m m'. rely m m' \<longrightarrow> stored_offsets A offs K (ipam_Key root (prefix_String S cidr)) r0 m \<subseteq>
        stored_offsets A offs K (ipam_Key root (prefix_String S cidr)) r0 m') \<and>
      rely (kvs s') (kvs s1) \<and> store_wf (kvs s1) \<and>
      entry_ok A cap K (ipam_Key root (prefix_String S cidr)) (prefix_String S cidr) (sr_max r0) str (kvs s1) \<and>
      AllocateSubnet C K A S root cidr nbits s1 = (Inr p', s2) \<longrightarrow>
      (\<forall>a. \<not> (prefix_Contains p a \<and> prefix_Contains p' a)))"
proof -
  let ?rec = "stored_offsets A offs K (ipam_Key root (prefix_String S cidr)) r0"
  note range0 = ipam_store.range0 [OF law]
  note fresh = ipam_store.allocateSubnet_fresh [OF law, of ipam_maxRetries]
  from fresh [OF run [unfolded AllocateSubnet_def] wf] obtain m off where
    f: "rely (kvs s) m" "0 \<le> off" "off < sr_max r0" "p = subnet_at r0 off" "off \<notin> ?rec m" "?rec (kvs s') = insert off (?rec m)"
    by auto
  have "\<not> (prefix_Contains p a \<and> prefix_Contains p' a)"
    if mono: "\<forall>m m'. rely m m' \<longrightarrow> ?rec m \<subseteq> ?rec m'" and r: "rely (kvs s') (kvs s1)" "store_wf (kvs s1)"
      "entry_ok A cap K (ipam_Key root (prefix_String S cidr)) (prefix_String S cidr) (sr_max r0) str (kvs s1)"
      "AllocateSubnet C K A S root cidr nbits s1 = (Inr p', s2)" for a
  proof -
    from fresh [OF r(4) [unfolded AllocateSubnet_def] r(2,3)] obtain m' off' where
      g: "rely (kvs s1) m'" "0 \<le> off'" "off' < sr_max r0" "p' = subnet_at r0 off'" "off' \<notin> ?rec m'" by auto
    have "off \<in> ?rec m'" using f(6) mono r(1) g(1) by blast
    with g(5) have "off \<noteq> off'" by blast
    with subnet_disjoint [OF range0(1) f(2,3) g(2,3)] f(4) g(4) show ?thesis by blast
  qed
  moreover have "prefix_Contains p a \<longrightarrow> prefix_Contains (Masked cidr) a" for a
    using subnet_in_net [OF range0(1) f(2,3)] f(4) range0(2) by auto
  ultimately show ?thesis using f by blast
qed

section \<open>A sample run\<close>

text \<open>A codec of allocators: the lengths of the name and the spec in unary, the name, the spec, and the bytes.\<close>

definition subnet_codec :: "StoredSubnetRange codec" where
  "subnet_codec = \<lparr>
     json_Marshal = (\<lambda>sn. Inr (''{snapshot '' @ replicate (length (sn_Name sn)) CHR ''n'' @ ''}'' @
       replicate (length (sn_Spec sn)) CHR ''n'' @ ''}'' @ sn_Name sn @ sn_Spec sn @ map (\<lambda>b. char_of (unat b)) (sn_Snapshot sn))),
     json_Unmarshal = (\<lambda>t. let u = drop 10 t; n = length (takeWhile (\<lambda>c. c = CHR ''n'') u);
         v = drop (Suc n) u; k = length (takeWhile (\<lambda>c. c = CHR ''n'') v); w = drop (Suc k) v
       in Inr \<lparr>sn_Name = take n w, sn_Spec = take k (drop n w), sn_Snapshot = map (\<lambda>c. word_of_nat (of_char c)) (drop (n + k) w)\<rparr>),
     gzip_Write = (\<lambda>s. None),
     gzip_Close = (\<lambda>s. Inr (gzip_magic @ replicate 7 CHR 0x00 @ s)),
     gzip_fields = (\<lambda>s. None),
     gzip_ReadAll = (\<lambda>s. Inr (drop 10 s))\<rparr>"

lemma unary_length: "takeWhile (\<lambda>c. c = CHR ''n'') (replicate k CHR ''n'' @ CHR ''}'' # t) = replicate k CHR ''n''"
  by (induction k) auto

lemma drop_unary: "drop (Suc k) (replicate k CHR ''n'' @ CHR ''}'' # t) = t"
  by (induction k) auto

lemma bytes_of_chars: "map (\<lambda>c. word_of_nat (of_char c)) (map (\<lambda>b. char_of (unat b)) bs) = (bs :: byte list)"
proof (induction bs)
  case (Cons b bs)
  have "unat b < 2 ^ LENGTH(8)" by (rule unsigned_less)
  with Cons show ?case by (simp add: of_char_of)
qed simp

lemma subnet_codec_round_trip:
  assumes "json_Marshal subnet_codec v = Inr raw"
  shows "json_Unmarshal subnet_codec raw = Inr v"
proof -
  have raw: "raw = ''{snapshot '' @ replicate (length (sn_Name v)) CHR ''n'' @ CHR ''}'' #
      (replicate (length (sn_Spec v)) CHR ''n'' @ CHR ''}'' # (sn_Name v @ sn_Spec v @ map (\<lambda>b. char_of (unat b)) (sn_Snapshot v)))"
    using assms by (simp add: subnet_codec_def)
  have "drop 10 (''{snapshot '' @ u) = u" for u by simp
  then show ?thesis unfolding raw subnet_codec_def codec.select_convs Let_def
    by (simp only: unary_length drop_unary length_replicate) (simp add: bytes_of_chars [unfolded map_map])
qed

interpretation subnet_codec: json_gzip subnet_codec
  by unfold_locales (use subnet_codec_round_trip in \<open>auto simp: subnet_codec_def gzip_magic_def\<close>)

lemma subnet_codec_encodes: "\<exists>enc. encodeJSON subnet_codec sn = Inr enc"
proof -
  have "\<exists>enc. compress subnet_codec raw = Inr enc" for raw by (simp add: compress_def subnet_codec_def)
  moreover have "\<exists>raw. json_Marshal subnet_codec sn = Inr raw" by (simp add: subnet_codec_def)
  ultimately show ?thesis by (auto simp: encodeJSON_def)
qed

definition ten_range :: "bitmap SubnetRange" where
  "ten_range = projr (NewSubnetRange bitmap_allocator plain_specs ten_spec)"

lemma ten_range: "NewSubnetRange bitmap_allocator plain_specs ten_spec = Inr ten_range"
proof -
  have "spec_String plain_specs \<lparr>ss_CIDR = Masked (ss_CIDR ten_spec), ss_SubnetBits = ss_SubnetBits ten_spec\<rparr> = Inr ''spec''"
    by (simp add: plain_specs_def)
  from NewSubnetRange_exact [OF ten_spec_exact this, of bitmap_allocator] obtain r where
    "NewSubnetRange bitmap_allocator plain_specs ten_spec = Inr r" .
  then show ?thesis by (simp add: ten_range_def)
qed

interpretation lone_network: ipam_store "local_client quiet" snd "(=)" subnet_codec root plain_specs "ss_CIDR ten_spec"
    bitmap_allocator "\<lambda>b. int (length (snd b))" fst bit_set 28 ten_range "''spec''" for root
proof
  have t: "\<lparr>ss_CIDR = ss_CIDR ten_spec, ss_SubnetBits = 28\<rparr> = ten_spec" by (simp add: ten_spec_def)
  show "NewSubnetRange bitmap_allocator plain_specs \<lparr>ss_CIDR = ss_CIDR ten_spec, ss_SubnetBits = 28\<rparr> = Inr ten_range"
    "exact_spec \<lparr>ss_CIDR = ss_CIDR ten_spec, ss_SubnetBits = 28\<rparr>"
    unfolding t by (rule ten_range, rule ten_spec_exact)
qed (auto simp: plain_specs_def subnet_codec_def ten_spec_def)

lemma empty_entry_ok: "entry_ok A cap K key name mx str fmempty" "store_wf fmempty"
  by (simp_all add: entry_ok_def store_wf_def)

lemma ten_allocation:
  "\<exists>p s'. AllocateSubnet (local_client quiet) subnet_codec bitmap_allocator plain_specs ''cp'' (ss_CIDR ten_spec) 28 (0, fmempty) =
     (Inr p, s')"
proof -
  let ?stored = "\<lparr>item_body = \<lparr>sn_Name = ''10.1.0.0/16'', sn_Spec = [], sn_Snapshot = []\<rparr>, item_version = 0\<rparr>"
  have t: "\<lparr>ss_CIDR = ss_CIDR ten_spec, ss_SubnetBits = 28\<rparr> = ten_spec" by (simp add: ten_spec_def)
  have rest: "restoreSubnetAllocator (local_client quiet) subnet_codec bitmap_allocator plain_specs ''cp'' ten_range
      ''10.1.0.0/16'' (0, fmempty) = (Inr (ten_range, ?stored), (0, fmempty))"
    by (simp add: restoreSubnetAllocator_def ipam_GetByKey_def getOp_Exec_def local_client_def request_def range_response_def
        limit_kvs_def sort_kvs_def DecodeGetResponse_def decodeKVs_def)
  have nm: "prefix_String plain_specs c = ''10.1.0.0/16''" for c by (simp add: plain_specs_def)
  obtain res r' where nxt: "subnet_AllocateNext bitmap_allocator ten_range = (res, r')" by fastforce
  note r0 = lone_network.range0
  have "0 < sr_max ten_range" using r0(1) by (auto elim: subnet_range_okE)
  then have "\<not> {0..<sr_max ten_range} \<subseteq> bit_set (sr_alloc ten_range)" using r0(6) by auto
  with bits.subnet_AllocateNext_cases [OF r0(1,4) nxt] obtain p where p: "res = Inr p" by auto
  let ?i = "with_snapshot bitmap_allocator r' ?stored"
  have v: "item_version ?i = 0" by (simp add: with_snapshot_def Let_def split: prod.split)
  obtain enc where "encodeJSON subnet_codec (item_body ?i) = Inr enc" using subnet_codec_encodes by blast
  from fresh_update_succeeds [OF this v] obtain po s' where
    "put_Exec (local_client quiet) subnet_codec (ipam_Update ''cp'' ?i) (0, fmempty) = (Inr (), po, s')"
    unfolding ipam_Update_def by blast
  then have "allocateSubnet (local_client quiet) subnet_codec bitmap_allocator plain_specs ''cp'' (ss_CIDR ten_spec) 28 (Suc 2)
      (0, fmempty) = (Inr p, s')"
    unfolding allocateSubnet.simps(2) t ten_range nm by (simp add: rest nxt p)
  moreover have "ipam_maxRetries = Suc 2" by (simp add: ipam_maxRetries_def)
  ultimately show ?thesis unfolding AllocateSubnet_def by metis
qed

theorem AllocateSubnet_never_shared_witness:
  "\<exists>p s' off. AllocateSubnet (local_client quiet) subnet_codec bitmap_allocator plain_specs ''cp'' (ss_CIDR ten_spec) 28
     (0, fmempty) = (Inr p, s') \<and> p = subnet_at ten_range off \<and>
     stored_offsets bitmap_allocator bit_set subnet_codec (ipam_Key ''cp'' ''10.1.0.0/16'') ten_range (snd s') = {off}"
proof -
  obtain p s' where run: "AllocateSubnet (local_client quiet) subnet_codec bitmap_allocator plain_specs ''cp''
      (ss_CIDR ten_spec) 28 (0, fmempty) = (Inr p, s')" using ten_allocation by blast
  have nm: "prefix_String plain_specs c = ''10.1.0.0/16''" for c by (simp add: plain_specs_def)
  have none: "stored_offsets A offs K k r fmempty = {}" for A :: "bitmap allocator" and offs K k r
    by (simp add: stored_offsets_def)
  have st: "store_wf (snd (0 :: int, fmempty :: store))" "entry_ok bitmap_allocator (\<lambda>b. int (length (snd b))) subnet_codec
      (ipam_Key ''cp'' (prefix_String plain_specs (ss_CIDR ten_spec))) (prefix_String plain_specs (ss_CIDR ten_spec))
      (sr_max ten_range) ''spec'' (snd (0 :: int, fmempty :: store))" by (simp_all add: empty_entry_ok)
  from conjunct1 [OF AllocateSubnet_never_shared [OF lone_network.ipam_store_axioms st run]] run show ?thesis
    unfolding nm snd_conv by (auto simp: none)
qed

end
