(* ===== verification/Election.thy ===== *)
theory Election
  imports Storage_Optimistic
begin

text \<open>
  Leader election (\<^verbatim>\<open>server/internal/election\<close>): candidates claim a key with a lease, refresh the claim while
  they hold it and release it when they stop. The handlers that a candidate starts when it has claimed the
  leadership are recorded in the order they are started. The current time is a parameter, and so is the
  result of starting the watch. A tick of the timer and a delete event of the watch both call
  \<^verbatim>\<open>lockAndCheckClaim\<close>; the lock makes the calls on one candidate follow each other.
\<close>

section \<open>The store\<close>

record StoredElection =
  se_Name :: string
  se_LeaderID :: string
  se_CreatedAt :: int

definition election_Key :: "string \<Rightarrow> string \<Rightarrow> string" where
  "election_Key root name = Key [''/'', root, ''elections'', name]"

definition election_GetByKey :: "'s etcd_client \<Rightarrow> StoredElection codec \<Rightarrow> string \<Rightarrow> string \<Rightarrow> 's \<Rightarrow>
    (storage_error, StoredElection item) res \<times> 's" where
  "election_GetByKey C K root name = getOp_Exec C K (election_Key root name) []"

definition election_Create :: "string \<Rightarrow> StoredElection item \<Rightarrow> StoredElection put_op" where
  "election_Create root i = NewCreateOp (election_Key root (se_Name (item_body i))) i []"

definition election_Update :: "string \<Rightarrow> StoredElection item \<Rightarrow> StoredElection put_op" where
  "election_Update root i = NewUpdateOp (election_Key root (se_Name (item_body i))) i []"

definition election_Delete :: "string \<Rightarrow> StoredElection item \<Rightarrow> StoredElection delete_op" where
  "election_Delete root i = NewDeleteValueOp (election_Key root (se_Name (item_body i))) i []"

section \<open>Candidates\<close>

record 'h candidate =
  ca_running :: bool
  ca_electionName :: string
  ca_candidateID :: string
  ca_isLeader :: bool
  ca_ttl :: int
  ca_onClaim :: "'h list"
  ca_started :: "'h list"

datatype election_error =
    ErrCheckLeader storage_error
  | ErrRefreshClaim storage_error
  | ErrRefreshRetries
  | ErrClaim storage_error
  | ErrStartWatch string
  | ErrFetchLeader storage_error
  | ErrReleaseClaim storage_error

definition NewCandidate :: "string \<Rightarrow> string \<Rightarrow> int \<Rightarrow> 'h list \<Rightarrow> 'h candidate" where
  "NewCandidate electionName candidateID ttl onClaim = \<lparr>ca_running = False, ca_electionName = electionName,
     ca_candidateID = candidateID, ca_isLeader = False, ca_ttl = ttl, ca_onClaim = onClaim, ca_started = []\<rparr>"

definition AddHandlers :: "'h list \<Rightarrow> 'h candidate \<Rightarrow> 'h candidate" where
  "AddHandlers handlers c = c\<lparr>ca_onClaim := ca_onClaim c @ handlers\<rparr>"

definition attemptClaim :: "'s etcd_client \<Rightarrow> StoredElection codec \<Rightarrow> string \<Rightarrow> int \<Rightarrow> 'h candidate \<Rightarrow> 's \<Rightarrow>
    (election_error, unit) res \<times> 'h candidate \<times> 's" where
  "attemptClaim C K root now c s =
     (let claim = \<lparr>item_body = \<lparr>se_Name = ca_electionName c, se_LeaderID = ca_candidateID c, se_CreatedAt = now\<rparr>, item_version = 0\<rparr>
      in case put_Exec C K (WithTTL (ca_ttl c) (election_Create root claim)) s of
        (Inr _, po, s1) \<Rightarrow> (Inr (), c\<lparr>ca_isLeader := True, ca_started := ca_started c @ ca_onClaim c\<rparr>, s1)
      | (Inl (ErrAlreadyExists k), po, s1) \<Rightarrow> (Inr (), c\<lparr>ca_isLeader := False\<rparr>, s1)
      | (Inl e, po, s1) \<Rightarrow> (Inl (ErrClaim e), c, s1))"

fun checkClaim_rounds :: "'s etcd_client \<Rightarrow> StoredElection codec \<Rightarrow> string \<Rightarrow> int \<Rightarrow> nat \<Rightarrow> 'h candidate \<Rightarrow> 's \<Rightarrow>
    (election_error, unit) res \<times> 'h candidate \<times> 's" where
  "checkClaim_rounds C K root now 0 c s = (Inl ErrRefreshRetries, c, s)"
| "checkClaim_rounds C K root now (Suc n) c s =
     (case election_GetByKey C K root (ca_electionName c) s of
        (Inl (ErrNotFound k), s1) \<Rightarrow> attemptClaim C K root now c s1
      | (Inl e, s1) \<Rightarrow> (Inl (ErrCheckLeader e), c, s1)
      | (Inr current, s1) \<Rightarrow>
          (let c1 = c\<lparr>ca_isLeader := (se_LeaderID (item_body current) = ca_candidateID c)\<rparr>
           in if se_LeaderID (item_body current) \<noteq> ca_candidateID c then (Inr (), c1, s1)
              else case put_Exec C K (WithTTL (ca_ttl c) (election_Update root current)) s1 of
                (Inl (ErrValueVersionMismatch k), po, s2) \<Rightarrow> checkClaim_rounds C K root now n c1 s2
              | (Inl e, po, s2) \<Rightarrow> (Inl (ErrRefreshClaim e), c1, s2)
              | (Inr _, po, s2) \<Rightarrow> (Inr (), c1, s2)))"

definition checkClaim_retries :: nat where
  "checkClaim_retries = 3"

definition checkClaim :: "'s etcd_client \<Rightarrow> StoredElection codec \<Rightarrow> string \<Rightarrow> int \<Rightarrow> 'h candidate \<Rightarrow> 's \<Rightarrow>
    (election_error, unit) res \<times> 'h candidate \<times> 's" where
  "checkClaim C K root now = checkClaim_rounds C K root now checkClaim_retries"

definition lockAndCheckClaim :: "'s etcd_client \<Rightarrow> StoredElection codec \<Rightarrow> string \<Rightarrow> int \<Rightarrow> 'h candidate \<Rightarrow> 's \<Rightarrow>
    (election_error, unit) res \<times> 'h candidate \<times> 's" where
  "lockAndCheckClaim = checkClaim"

definition candidate_Start :: "'s etcd_client \<Rightarrow> StoredElection codec \<Rightarrow> string \<Rightarrow> int \<Rightarrow> string option \<Rightarrow> 'h candidate \<Rightarrow> 's \<Rightarrow>
    (election_error, unit) res \<times> 'h candidate \<times> 's" where
  "candidate_Start C K root now watchErr c s =
     (if ca_running c then (Inr (), c, s)
      else case checkClaim C K root now c s of
        (Inl e, c1, s1) \<Rightarrow> (Inl e, c1, s1)
      | (Inr _, c1, s1) \<Rightarrow>
          (let c2 = c1\<lparr>ca_running := True\<rparr>
           in case watchErr of Some e \<Rightarrow> (Inl (ErrStartWatch e), c2, s1) | None \<Rightarrow> (Inr (), c2, s1)))"

definition candidate_release :: "'s etcd_client \<Rightarrow> StoredElection codec \<Rightarrow> string \<Rightarrow> 'h candidate \<Rightarrow> 's \<Rightarrow>
    (election_error, unit) res \<times> 'h candidate \<times> 's" where
  "candidate_release C K root c s =
     (if \<not> ca_isLeader c then (Inr (), c, s)
      else case election_GetByKey C K root (ca_electionName c) s of
        (Inl (ErrNotFound k), s1) \<Rightarrow> (Inr (), c\<lparr>ca_isLeader := False\<rparr>, s1)
      | (Inl e, s1) \<Rightarrow> (Inl (ErrFetchLeader e), c, s1)
      | (Inr current, s1) \<Rightarrow>
          if se_LeaderID (item_body current) \<noteq> ca_candidateID c then (Inr (), c\<lparr>ca_isLeader := False\<rparr>, s1)
          else case deleteValueOp_Exec C (election_Delete root current) s1 of
            (Inl (ErrValueVersionMismatch k), d, s2) \<Rightarrow> (Inr (), c\<lparr>ca_isLeader := False\<rparr>, s2)
          | (Inl e, d, s2) \<Rightarrow> (Inl (ErrReleaseClaim e), c, s2)
          | (Inr _, d, s2) \<Rightarrow> (Inr (), c\<lparr>ca_isLeader := False\<rparr>, s2))"

definition candidate_Stop :: "'s etcd_client \<Rightarrow> StoredElection codec \<Rightarrow> string \<Rightarrow> 'h candidate \<Rightarrow> 's \<Rightarrow>
    (election_error, unit) res \<times> 'h candidate \<times> 's" where
  "candidate_Stop C K root c s =
     (if \<not> ca_running c then (Inr (), c, s)
      else candidate_release C K root (c\<lparr>ca_running := False\<rparr>) s)"

section \<open>Claims\<close>

text \<open>The candidate that holds the claim, and entries that carry the name of their election.\<close>

definition claimant :: "StoredElection codec \<Rightarrow> string \<Rightarrow> store \<Rightarrow> string option" where
  "claimant K key m = (case fmlookup m key of
       None \<Rightarrow> None
     | Some e \<Rightarrow> (case decodeKV K e of Inl err \<Rightarrow> None | Inr i \<Rightarrow> Some (se_LeaderID (item_body i))))"

definition claim_named :: "StoredElection codec \<Rightarrow> string \<Rightarrow> string \<Rightarrow> store \<Rightarrow> bool" where
  "claim_named K key name m \<longleftrightarrow> (\<forall>e i. fmlookup m key = Some e \<and> decodeKV K e = Inr i \<longrightarrow> se_Name (item_body i) = name)"

text \<open>
  What a check of the claim has done to the store when it succeeds: a leader has written its own claim, on
  top of its own or of no claim; another candidate has written nothing and has seen somebody's claim.
\<close>

definition checked :: "StoredElection codec \<Rightarrow> string \<Rightarrow> string \<Rightarrow> 'h candidate \<Rightarrow> store \<Rightarrow> store \<Rightarrow> bool" where
  "checked K key name c' m m' \<longleftrightarrow>
     (if ca_isLeader c' then (fmlookup m key = None \<or> claimant K key m = Some (ca_candidateID c')) \<and>
          claimant K key m' = Some (ca_candidateID c') \<and> claim_named K key name m' \<and> (\<exists>e. m' = fmupd key e m)
      else fmlookup m key \<noteq> None \<and> m' = m)"

locale election_store = optimistic_key C kvs rely K "election_Key root name"
  for C :: "'s etcd_client" and kvs and rely and K :: "StoredElection codec" and root :: string and name :: string +
  assumes same_name: "claim_named K (election_Key root name) name m \<Longrightarrow> rely m m' \<Longrightarrow>
      claim_named K (election_Key root name) name m'"
begin

abbreviation key where
  "key \<equiv> election_Key root name"

lemma get_claim:
  assumes "election_GetByKey C K root name s = (g, s1)" and "claim_named K key name (kvs s)"
  shows "case g of
      Inl (ErrNotFound k) \<Rightarrow> rely (kvs s) (kvs s1) \<and> fmlookup (kvs s1) key = None
    | Inl e \<Rightarrow> True
    | Inr i \<Rightarrow> rely (kvs s) (kvs s1) \<and> claimant K key (kvs s1) = Some (se_LeaderID (item_body i)) \<and>
        item_version i = version_of (kvs s1) key \<and> se_Name (item_body i) = name"
proof (cases "\<exists>e. g = Inl (ErrRequest key e)")
  case False
  have "getOp_Exec C K key [] s = (g, s1)" using assms(1) by (simp add: election_GetByKey_def)
  with False have read: "rely (kvs s) (kvs s1) \<and> (case fmlookup (kvs s1) key of
      None \<Rightarrow> g = Inl (ErrNotFound key)
    | Some e \<Rightarrow> g = decodeKV K e \<and>
        (case g of Inr i \<Rightarrow> item_version i = version_of (kvs s1) key | Inl err \<Rightarrow> \<exists>t. err = ErrDecode (kv_Key e) t))"
    by (intro read_entry) auto
  then have named: "claim_named K key name (kvs s1)" using same_name [OF assms(2)] by blast
  show ?thesis
  proof (cases "fmlookup (kvs s1) key")
    case None
    with read show ?thesis by simp
  next
    case (Some e)
    show ?thesis
    proof (cases g)
      case (Inl err)
      with read Some obtain t where "err = ErrDecode (kv_Key e) t" by auto
      with Inl show ?thesis by simp
    next
      case (Inr i)
      with read Some have d: "decodeKV K e = Inr i" "item_version i = version_of (kvs s1) key" by simp_all
      with named Some have "se_Name (item_body i) = name" by (auto simp: claim_named_def)
      with d Some Inr read show ?thesis by (simp add: claimant_def)
    qed
  qed
qed auto

text \<open>The entry that a candidate writes.\<close>

lemma written_claim:
  assumes "decodeKV K e = Inr \<lparr>item_body = b, item_version = v\<rparr>"
  shows "claimant K key (fmupd key e m) = Some (se_LeaderID b)"
    and "se_Name b = name \<Longrightarrow> claim_named K key name (fmupd key e m)"
  using assms by (simp_all add: claimant_def claim_named_def)

lemma attemptClaim_cases:
  assumes "attemptClaim C K root now c s = (Inr (), c', s')" and "ca_electionName c = name" and "store_wf (kvs s)"
  shows "ca_candidateID c' = ca_candidateID c \<and> (\<exists>m. rely (kvs s) m \<and> checked K key name c' m (kvs s'))"
proof -
  let ?i = "\<lparr>item_body = \<lparr>se_Name = ca_electionName c, se_LeaderID = ca_candidateID c, se_CreatedAt = now\<rparr>, item_version = 0\<rparr>"
  let ?po = "WithTTL (ca_ttl c) (election_Create root ?i)"
  obtain u po' s1 where u: "put_Exec C K ?po s = (u, po', s1)" by (cases "put_Exec C K ?po s") auto
  have po: "po_kind ?po = KindCreate" "po_key ?po = key" "po_val ?po = ?i"
    by (simp_all add: WithTTL_def election_Create_def NewCreateOp_def assms(2))
  note up = create_op [OF u po(1,2) assms(3)]
  show ?thesis
  proof (cases u)
    case (Inr x)
    with up obtain m e where m: "rely (kvs s) m" "fmlookup m key = None" "kvs s1 = fmupd key e m"
        "decodeKV K e = Inr \<lparr>item_body = item_body ?i, item_version = kv_Version e\<rparr>" unfolding po(3) by auto
    have "c' = c\<lparr>ca_isLeader := True, ca_started := ca_started c @ ca_onClaim c\<rparr>" "s' = s1"
      using assms(1) u Inr by (simp_all add: attemptClaim_def)
    with m written_claim [OF m(4), of m] assms(2) show ?thesis by (intro conjI exI [of _ m]) (auto simp: checked_def)
  next
    case (Inl e)
    then obtain k where e: "e = ErrAlreadyExists k" using assms(1) u by (cases e) (auto simp: attemptClaim_def)
    then have "c' = c\<lparr>ca_isLeader := False\<rparr>" "s' = s1" using assms(1) u Inl by (simp_all add: attemptClaim_def)
    with up Inl e show ?thesis by (auto simp: checked_def)
  qed
qed

lemma checkClaim_rounds_cases:
  assumes "checkClaim_rounds C K root now n c s = (Inr (), c', s')" and "ca_electionName c = name"
    and "store_wf (kvs s)" and "claim_named K key name (kvs s)"
  shows "ca_candidateID c' = ca_candidateID c \<and> (\<exists>m. rely (kvs s) m \<and> checked K key name c' m (kvs s'))"
  using assms
proof (induction n arbitrary: c s)
  case (Suc n)
  obtain g s1 where g: "election_GetByKey C K root name s = (g, s1)" by (cases "election_GetByKey C K root name s")
  note get = get_claim [OF g Suc.prems(4)]
  show ?case
  proof (cases g)
    case (Inl err)
    then obtain k where err: "err = ErrNotFound k" using Suc.prems(1,2) g by (cases err) auto
    with Inl get have r: "rely (kvs s) (kvs s1)" by simp
    have "attemptClaim C K root now c s1 = (Inr (), c', s')" using Suc.prems(1,2) g Inl err by simp
    from attemptClaim_cases [OF this Suc.prems(2) rely_wf [OF Suc.prems(3) r]] rely_trans [OF r] show ?thesis by blast
  next
    case (Inr i)
    with get have r: "rely (kvs s) (kvs s1)" "claimant K key (kvs s1) = Some (se_LeaderID (item_body i))"
        "item_version i = version_of (kvs s1) key" "se_Name (item_body i) = name" by simp_all
    have present: "fmlookup (kvs s1) key \<noteq> None" using r(2) by (auto simp: claimant_def split: option.splits)
    let ?c = "c\<lparr>ca_isLeader := (se_LeaderID (item_body i) = ca_candidateID c)\<rparr>"
    show ?thesis
    proof (cases "se_LeaderID (item_body i) = ca_candidateID c")
      case False
      with Suc.prems(1,2) g Inr have "c' = ?c" "s' = s1" by (simp_all add: Let_def)
      with False r present show ?thesis by (auto simp: checked_def)
    next
      case True
      let ?po = "WithTTL (ca_ttl c) (election_Update root i)"
      obtain u po' s2 where u: "put_Exec C K ?po s1 = (u, po', s2)" by (cases "put_Exec C K ?po s1") auto
      have po: "po_kind ?po = KindUpdate" "po_key ?po = key" "po_val ?po = i"
        by (simp_all add: WithTTL_def election_Update_def NewUpdateOp_def r(4))
      note up = update_op [OF u po(1,2), unfolded po(3), OF r(3)]
      show ?thesis
      proof (cases u)
        case (Inr x)
        with up obtain m e where m: "rely (kvs s1) m" "fmlookup m key = fmlookup (kvs s1) key" "kvs s2 = fmupd key e m"
            "decodeKV K e = Inr \<lparr>item_body = item_body i, item_version = kv_Version e\<rparr>" by auto
        have "c' = ?c" "s' = s2" using Suc.prems(1,2) g \<open>g = Inr i\<close> True u Inr by (simp_all add: Let_def)
        moreover have "claimant K key m = Some (ca_candidateID c)" using m(2) r(2) True by (simp add: claimant_def)
        ultimately show ?thesis using m(3) written_claim [OF m(4), of m] rely_trans [OF r(1) m(1)] True r(4)
          by (intro conjI exI [of _ m]) (auto simp: checked_def)
      next
        case (Inl err)
        then obtain k where err: "err = ErrValueVersionMismatch k"
          using Suc.prems(1,2) g \<open>g = Inr i\<close> True u by (cases err) (auto simp: Let_def)
        with Inl up have "rely (kvs s1) (kvs s2)" by simp
        then have rel: "rely (kvs s) (kvs s2)" by (rule rely_trans [OF r(1)])
        have "checkClaim_rounds C K root now n ?c s2 = (Inr (), c', s')"
          using Suc.prems(1,2) g \<open>g = Inr i\<close> True u Inl err by (simp add: Let_def)
        from Suc.IH [OF this _ rely_wf [OF Suc.prems(3) rel] same_name [OF Suc.prems(4) rel]] Suc.prems(2)
        show ?thesis using rely_trans [OF rel] by auto
      qed
    qed
  qed
qed simp

lemma candidate_release_cases:
  assumes "candidate_release C K root c s = (Inr (), c', s')" and "ca_electionName c = name"
    and "claim_named K key name (kvs s)"
  shows "\<not> ca_isLeader c' \<and> (kvs s' = kvs s \<or> (\<exists>m. rely (kvs s) m \<and>
    (kvs s' = m \<or> claimant K key m = Some (ca_candidateID c) \<and> kvs s' = fmdrop key m)))"
proof (cases "ca_isLeader c")
  case leader: True
  obtain g s1 where g: "election_GetByKey C K root name s = (g, s1)" by (cases "election_GetByKey C K root name s")
  note get = get_claim [OF g assms(3)]
  show ?thesis
  proof (cases g)
    case (Inl err)
    then obtain k where err: "err = ErrNotFound k" using assms(1,2) leader g by (cases err) (auto simp: candidate_release_def)
    with Inl get assms(1,2) leader g show ?thesis by (auto simp: candidate_release_def)
  next
    case (Inr i)
    with get have r: "rely (kvs s) (kvs s1)" "claimant K key (kvs s1) = Some (se_LeaderID (item_body i))"
        "item_version i = version_of (kvs s1) key" "se_Name (item_body i) = name" by simp_all
    show ?thesis
    proof (cases "se_LeaderID (item_body i) = ca_candidateID c")
      case False
      with Inr r assms(1,2) leader g show ?thesis by (auto simp: candidate_release_def)
    next
      case True
      obtain u d s2 where u: "deleteValueOp_Exec C (NewDeleteValueOp key i []) s1 = (u, d, s2)"
        by (cases "deleteValueOp_Exec C (NewDeleteValueOp key i []) s1") auto
      have step: "candidate_release C K root c s = (case u of
          Inl (ErrValueVersionMismatch k) \<Rightarrow> (Inr (), c\<lparr>ca_isLeader := False\<rparr>, s2)
        | Inl e \<Rightarrow> (Inl (ErrReleaseClaim e), c, s2)
        | Inr _ \<Rightarrow> (Inr (), c\<lparr>ca_isLeader := False\<rparr>, s2))"
        using leader g Inr True u r(4) assms(2) 
        by (simp add: candidate_release_def election_Delete_def split: sum.splits storage_error.splits)
      from deleteValue_cases [OF u] obtain m where m: "rely (kvs s1) m" "case u of
          Inr _ \<Rightarrow> version_of m key = item_version i \<and> kvs s2 = fmdrop key m
        | Inl e \<Rightarrow> if e = ErrValueVersionMismatch key then version_of m key \<noteq> item_version i \<and> kvs s2 = m
                  else kvs s2 = m \<or> version_of m key = item_version i \<and> kvs s2 = fmdrop key m" by blast
      have own: "claimant K key m = Some (ca_candidateID c)" if "version_of m key = item_version i"
        using same_version [OF m(1)] that r(2,3) True by (simp add: claimant_def)
      have "\<not> ca_isLeader c'" "s' = s2"
        using assms(1) unfolding step by (auto split: sum.splits storage_error.splits)
      moreover have "kvs s2 = m \<or> claimant K key m = Some (ca_candidateID c) \<and> kvs s2 = fmdrop key m"
        using m(2) own by (cases u) (auto split: if_splits)
      ultimately show ?thesis using rely_trans [OF r(1) m(1)] by blast
    qed
  qed
qed (use assms(1) in \<open>auto simp: candidate_release_def\<close>)

end


section \<open>What goes wrong\<close>

text \<open>A codec of claims: the lengths of the name and the id and the time in unary, then the name and the id.\<close>

definition unary_int :: "int \<Rightarrow> string" where
  "unary_int t = (if t < 0 then ''-'' else ''+'') @ replicate (nat \<bar>t\<bar>) CHR ''n''"

definition claim_codec :: "StoredElection codec" where
  "claim_codec = \<lparr>
     json_Marshal = (\<lambda>se. Inr (''{election '' @ replicate (length (se_Name se)) CHR ''n'' @ ''}'' @
       replicate (length (se_LeaderID se)) CHR ''n'' @ ''}'' @ se_Name se @ se_LeaderID se @ unary_int (se_CreatedAt se))),
     json_Unmarshal = (\<lambda>t. let u = drop 10 t; n = length (takeWhile (\<lambda>c. c = CHR ''n'') u);
         v = drop (Suc n) u; k = length (takeWhile (\<lambda>c. c = CHR ''n'') v); w = drop (Suc k) v; z = drop (n + k) w
       in Inr \<lparr>se_Name = take n w, se_LeaderID = take k (drop n w),
            se_CreatedAt = (if hd z = CHR ''-'' then - int (length (tl z)) else int (length (tl z)))\<rparr>),
     gzip_Write = (\<lambda>s. None),
     gzip_Close = (\<lambda>s. Inr (gzip_magic @ replicate 7 CHR 0x00 @ s)),
     gzip_fields = (\<lambda>s. None),
     gzip_ReadAll = (\<lambda>s. Inr (drop 10 s))\<rparr>"

lemma unary_prefix:
  "takeWhile (\<lambda>c. c = CHR ''n'') (replicate k CHR ''n'' @ CHR ''}'' # t) = replicate k CHR ''n''"
  "drop (Suc k) (replicate k CHR ''n'' @ CHR ''}'' # t) = t"
  by (induction k) auto

lemma claim_codec_round_trip:
  assumes "json_Marshal claim_codec v = Inr raw"
  shows "json_Unmarshal claim_codec raw = Inr v"
proof -
  have raw: "raw = ''{election '' @ replicate (length (se_Name v)) CHR ''n'' @ CHR ''}'' #
      (replicate (length (se_LeaderID v)) CHR ''n'' @ CHR ''}'' # (se_Name v @ se_LeaderID v @ unary_int (se_CreatedAt v)))"
    using assms by (simp add: claim_codec_def)
  have "drop 10 (''{election '' @ u) = u" for u by simp
  then show ?thesis unfolding raw claim_codec_def codec.select_convs Let_def
    by (simp only: unary_prefix length_replicate) (simp add: unary_int_def)
qed

interpretation claim_codec: json_gzip claim_codec
  by unfold_locales (use claim_codec_round_trip in \<open>auto simp: claim_codec_def gzip_magic_def\<close>)

interpretation lone_candidate: election_store "local_client quiet" snd "(=)" claim_codec root name for root name
  by unfold_locales (auto simp: claim_codec_def)

definition claim_text :: "StoredElection \<Rightarrow> string" where
  "claim_text v = projr (encodeJSON claim_codec v)"

lemma claim_text: "encodeJSON claim_codec v = Inr (claim_text v)" "decodeJSON claim_codec (claim_text v) = Inr v"
proof -
  obtain raw where raw: "json_Marshal claim_codec v = Inr raw" by (simp add: claim_codec_def)
  have "\<exists>enc. compress claim_codec raw = Inr enc" by (simp add: compress_def claim_codec_def)
  then obtain enc where "compress claim_codec raw = Inr enc" by blast
  with raw show enc: "encodeJSON claim_codec v = Inr (claim_text v)" by (simp add: encodeJSON_def claim_text_def)
  have "10 \<le> length raw" using raw by (auto simp: claim_codec_def)
  with claim_codec.decode_encode [OF raw enc] show "decodeJSON claim_codec (claim_text v) = Inr v" by simp
qed

text \<open>A check that finds no claim, without disturbance.\<close>

definition claim_of :: "'h candidate \<Rightarrow> StoredElection" where
  "claim_of c = \<lparr>se_Name = ca_electionName c, se_LeaderID = ca_candidateID c, se_CreatedAt = 0\<rparr>"

definition claim_kv :: "int \<Rightarrow> string \<Rightarrow> 'h candidate \<Rightarrow> kv" where
  "claim_kv r root c = \<lparr>kv_Key = election_Key root (ca_electionName c), kv_Value = claim_text (claim_of c), kv_Version = 1,
     kv_CreateRevision = r, kv_ModRevision = r, kv_Lease = 1\<rparr>"

lemma checkClaim_three: "checkClaim C K root now = checkClaim_rounds C K root now (Suc 2)"
  by (simp add: checkClaim_def checkClaim_retries_def)

lemma free_claim:
  assumes "fmlookup m (election_Key root (ca_electionName c)) = None"
  shows "lockAndCheckClaim (local_client quiet) claim_codec root 0 c (r, m) =
    (Inr (), c\<lparr>ca_isLeader := True, ca_started := ca_started c @ ca_onClaim c\<rparr>,
     (r + 1, fmupd (election_Key root (ca_electionName c)) (claim_kv (r + 1) root c) m))"
proof -
  have get: "election_GetByKey (local_client quiet) claim_codec root (ca_electionName c) (r, m) =
      (Inl (ErrNotFound (election_Key root (ca_electionName c))), (r, m))"
    using assms by (simp add: election_GetByKey_def getOp_Exec_def local_client_def request_def range_response_def
        limit_kvs_def sort_kvs_def DecodeGetResponse_def decodeKVs_def)
  have "attemptClaim (local_client quiet) claim_codec root 0 c (r, m) =
      (Inr (), c\<lparr>ca_isLeader := True, ca_started := ca_started c @ ca_onClaim c\<rparr>,
       (r + 1, fmupd (election_Key root (ca_electionName c)) (claim_kv (r + 1) root c) m))"
    using assms claim_text(1) [of "claim_of c"]
    by (simp add: attemptClaim_def Let_def put_Exec_def election_Create_def NewCreateOp_def WithTTL_def createOp_Exec_def
        conditional_Exec_def put_ClientOp_def clientPutOp_def put_Cmps_def local_client_def request_def serve_txn_def
        etcd_txn_def version_of_def next_revision_def changes_def written_def lease_of_def claim_kv_def claim_of_def)
  with get show ?thesis unfolding lockAndCheckClaim_def checkClaim_three checkClaim_rounds.simps by simp
qed

lemma own_release:
  assumes "fmlookup m (election_Key root (ca_electionName c)) = Some (claim_kv r0 root c)" and "ca_isLeader c"
  shows "candidate_release (local_client quiet) claim_codec root c (r, m) =
    (Inr (), c\<lparr>ca_isLeader := False\<rparr>, (r + 1, fmdrop (election_Key root (ca_electionName c)) m))"
proof -
  let ?i = "\<lparr>item_body = claim_of c, item_version = 1\<rparr>" and ?key = "election_Key root (ca_electionName c)"
  have name: "se_Name (claim_of c) = ca_electionName c" "se_LeaderID (claim_of c) = ca_candidateID c" by (simp_all add: claim_of_def)
  have get: "election_GetByKey (local_client quiet) claim_codec root (ca_electionName c) (r, m) = (Inr ?i, (r, m))"
    using assms(1) by (simp add: election_GetByKey_def getOp_Exec_def local_client_def request_def range_response_def
        limit_kvs_def sort_kvs_def DecodeGetResponse_def decodeKVs_def decodeKV_def claim_kv_def claim_text)
  have "fmfilter (\<lambda>k. k \<noteq> ?key) m = fmdrop ?key m" by (simp add: fmfilter_alt_defs)
  then have "\<exists>d. deleteValueOp_Exec (local_client quiet) (election_Delete root ?i) (r, m) = (Inr (), d, (r + 1, fmdrop ?key m))"
    using assms(1) by (simp add: deleteValueOp_Exec_def election_Delete_def NewDeleteValueOp_def delete_Cmps_def delete_ClientOp_def
        local_client_def request_def serve_txn_def etcd_txn_def next_revision_def changes_def name version_of_def claim_kv_def Let_def)
  with get assms(2) show ?thesis by (auto simp: candidate_release_def name)
qed

text \<open>
  An environment that lets a check that starts at revision one read the store, and then replaces its
  contents before the check writes.
\<close>

definition stalled :: "store \<Rightarrow> server \<Rightarrow> bool \<times> server" where
  "stalled m' = (\<lambda>(r, m). (False, if r = 1 then (2, m) else if r = 2 then (3, m') else (r, m)))"

lemma stolen_claim:
  assumes "fmlookup m (election_Key root (ca_electionName c)) = Some (claim_kv r0 root c)"
    and "version_of m' (election_Key root (ca_electionName c)) = 1"
  shows "lockAndCheckClaim (local_client (stalled m')) claim_codec root 0 c (1, m) =
    (Inr (), c\<lparr>ca_isLeader := True\<rparr>, (4, fmupd (election_Key root (ca_electionName c))
      (written 4 (election_Key root (ca_electionName c)) (claim_text (claim_of c)) [WithLease 1] m') m'))"
proof -
  let ?i = "\<lparr>item_body = claim_of c, item_version = 1\<rparr>"
  have name: "se_Name (claim_of c) = ca_electionName c" "se_LeaderID (claim_of c) = ca_candidateID c" by (simp_all add: claim_of_def)
  have get: "election_GetByKey (local_client (stalled m')) claim_codec root (ca_electionName c) (1, m) = (Inr ?i, (2, m))"
    using assms(1) by (simp add: election_GetByKey_def getOp_Exec_def local_client_def request_def range_response_def
        limit_kvs_def sort_kvs_def DecodeGetResponse_def decodeKVs_def decodeKV_def stalled_def claim_kv_def claim_text)
  have "\<exists>po. put_Exec (local_client (stalled m')) claim_codec (WithTTL (ca_ttl c) (election_Update root ?i)) (2, m) =
      (Inr (), po, (4, fmupd (election_Key root (ca_electionName c))
        (written 4 (election_Key root (ca_electionName c)) (claim_text (claim_of c)) [WithLease 1] m') m'))"
    using assms(2) by (simp add: put_Exec_def election_Update_def NewUpdateOp_def WithTTL_def updateOp_Exec_def
        conditional_Exec_def put_ClientOp_def clientPutOp_def put_Cmps_def local_client_def request_def serve_txn_def
        etcd_txn_def next_revision_def changes_def stalled_def claim_text name)
  with get show ?thesis unfolding lockAndCheckClaim_def checkClaim_three checkClaim_rounds.simps by (auto simp: name)
qed

definition candidate_A :: "string candidate" where
  "candidate_A = NewCandidate ''scheduler'' ''host-1'' 30000000000 []"

definition candidate_B :: "string candidate" where
  "candidate_B = NewCandidate ''scheduler'' ''host-2'' 30000000000 []"

lemma sample_names: "ca_electionName candidate_A = ''scheduler''" "ca_electionName candidate_B = ''scheduler''"
  "ca_candidateID candidate_A = ''host-1''" "ca_candidateID candidate_B = ''host-2''"
  by (simp_all add: candidate_A_def candidate_B_def NewCandidate_def)

lemma claimant_kv: "claimant claim_codec (election_Key root (ca_electionName c))
    (fmupd (election_Key root (ca_electionName c)) (claim_kv r root c) m) = Some (ca_candidateID c)"
  by (simp add: claimant_def decodeKV_def claim_kv_def claim_text claim_of_def)

text \<open>
  C37. The version of a key starts again at one when the key is recreated, and a refresh compares only the
  version. So a candidate that is delayed between reading its claim and refreshing it can overwrite the
  claim that another candidate has made after the first had expired, and both take themselves for the
  leader: here A claims, its claim expires, B claims, and the refresh that A had begun before succeeds on
  top of the claim of B. A comment in \<^verbatim>\<open>checkClaim\<close> expects a version mismatch in this situation.
\<close>
theorem version_reuse_steals_claim:
  "\<exists>A1 r1 m1 B1 r2 m2 A2 s3.
     lockAndCheckClaim (local_client quiet) claim_codec ''cp'' 0 candidate_A (0, fmempty) = (Inr (), A1, (r1, m1)) \<and>
     lockAndCheckClaim (local_client quiet) claim_codec ''cp'' 0 candidate_B
       (r1 + 1, fmdrop (election_Key ''cp'' ''scheduler'') m1) = (Inr (), B1, (r2, m2)) \<and>
     lockAndCheckClaim (local_client (stalled m2)) claim_codec ''cp'' 0 A1 (r1, m1) = (Inr (), A2, s3) \<and>
     claimant claim_codec (election_Key ''cp'' ''scheduler'') m2 = Some ''host-2'' \<and> ca_isLeader B1 \<and>
     claimant claim_codec (election_Key ''cp'' ''scheduler'') (snd s3) = Some ''host-1'' \<and> ca_isLeader A2"
proof -
  let ?key = "election_Key ''cp'' ''scheduler''"
  let ?A = "candidate_A\<lparr>ca_isLeader := True, ca_started := ca_started candidate_A @ ca_onClaim candidate_A\<rparr>"
  let ?B = "candidate_B\<lparr>ca_isLeader := True, ca_started := ca_started candidate_B @ ca_onClaim candidate_B\<rparr>"
  let ?m1 = "fmupd ?key (claim_kv 1 ''cp'' candidate_A) fmempty"
  let ?m2 = "fmupd ?key (claim_kv 3 ''cp'' candidate_B) (fmdrop ?key ?m1)"
  have kv: "claim_kv 1 ''cp'' candidate_A = claim_kv 1 ''cp'' ?A" "claim_of ?A = claim_of candidate_A"
    by (simp_all add: claim_kv_def claim_of_def)
  have a: "lockAndCheckClaim (local_client quiet) claim_codec ''cp'' 0 candidate_A (0, fmempty) = (Inr (), ?A, (1, ?m1))"
    using free_claim [of fmempty "''cp''" candidate_A 0] by (simp add: sample_names)
  have b: "lockAndCheckClaim (local_client quiet) claim_codec ''cp'' 0 candidate_B (1 + 1, fmdrop ?key ?m1) = (Inr (), ?B, (3, ?m2))"
    using free_claim [of "fmdrop ?key ?m1" "''cp''" candidate_B 2] by (simp add: sample_names)
  have "version_of ?m2 ?key = 1" by (simp add: version_of_def claim_kv_def)
  then have c: "lockAndCheckClaim (local_client (stalled ?m2)) claim_codec ''cp'' 0 ?A (1, ?m1) =
      (Inr (), ?A\<lparr>ca_isLeader := True\<rparr>, (4, fmupd ?key (written 4 ?key (claim_text (claim_of ?A)) [WithLease 1] ?m2) ?m2))"
    using stolen_claim [of ?m1 "''cp''" ?A 1 ?m2] kv by (simp add: sample_names)
  have d: "claimant claim_codec ?key ?m2 = Some ''host-2''"
    using claimant_kv [of "''cp''" candidate_B 3] by (simp add: sample_names)
  have e: "claimant claim_codec ?key (fmupd ?key (written 4 ?key (claim_text (claim_of ?A)) [WithLease 1] ?m2) ?m2) = Some ''host-1''"
    by (simp add: claimant_def decodeKV_def written_def claim_text claim_of_def sample_names)
  show ?thesis by (intro exI conjI, rule a, rule b, rule c, rule d, simp, simp only: snd_conv, rule e) simp
qed

text \<open>
  C38. A candidate can report leadership without a claim. When the requests of a leader fail, \<^verbatim>\<open>checkClaim\<close>
  returns the error and leaves the candidate a leader, although its claim expires and another candidate
  becomes the leader. And \<^verbatim>\<open>lockAndCheckClaim\<close> does not look at the running flag: a tick that waits for the
  lock while \<^verbatim>\<open>Stop\<close> runs claims the leadership for the stopped candidate again, and starts its handlers.
\<close>
theorem leader_without_claim:
  "(\<exists>A1 r1 m1 e B1 s2.
     lockAndCheckClaim (local_client quiet) claim_codec ''cp'' 0 candidate_A (0, fmempty) = (Inr (), A1, (r1, m1)) \<and>
     lockAndCheckClaim (local_client quiet) claim_codec ''cp'' 0 candidate_B
       (r1 + 1, fmdrop (election_Key ''cp'' ''scheduler'') m1) = (Inr (), B1, s2) \<and>
     lockAndCheckClaim (local_client (\<lambda>s. (True, s))) claim_codec ''cp'' 0 A1 s2 = (Inl e, A1, s2) \<and>
     ca_isLeader A1 \<and> ca_isLeader B1) \<and>
   (\<exists>A1 s1 A2 s2 A3 s3.
     candidate_Start (local_client quiet) claim_codec ''cp'' 0 None candidate_A (0, fmempty) = (Inr (), A1, s1) \<and>
     candidate_Stop (local_client quiet) claim_codec ''cp'' A1 s1 = (Inr (), A2, s2) \<and>
     lockAndCheckClaim (local_client quiet) claim_codec ''cp'' 0 A2 s2 = (Inr (), A3, s3) \<and>
     ca_isLeader A1 \<and> \<not> ca_isLeader A2 \<and> \<not> ca_running A3 \<and> ca_isLeader A3)"
proof (intro conjI)
  let ?key = "election_Key ''cp'' ''scheduler''"
  let ?A = "candidate_A\<lparr>ca_isLeader := True, ca_started := ca_started candidate_A @ ca_onClaim candidate_A\<rparr>"
  let ?B = "candidate_B\<lparr>ca_isLeader := True, ca_started := ca_started candidate_B @ ca_onClaim candidate_B\<rparr>"
  let ?m1 = "fmupd ?key (claim_kv 1 ''cp'' candidate_A) fmempty"
  let ?s2 = "(3, fmupd ?key (claim_kv 3 ''cp'' candidate_B) (fmdrop ?key ?m1))"
  have a: "lockAndCheckClaim (local_client quiet) claim_codec ''cp'' 0 candidate_A (0, fmempty) = (Inr (), ?A, (1, ?m1))"
    using free_claim [of fmempty "''cp''" candidate_A 0] by (simp add: sample_names)
  have b: "lockAndCheckClaim (local_client quiet) claim_codec ''cp'' 0 candidate_B (1 + 1, fmdrop ?key ?m1) = (Inr (), ?B, ?s2)"
    using free_claim [of "fmdrop ?key ?m1" "''cp''" candidate_B 2] by (simp add: sample_names)
  have c: "lockAndCheckClaim (local_client (\<lambda>s. (True, s))) claim_codec ''cp'' 0 ?A ?s2 =
      (Inl (ErrCheckLeader (ErrRequest ?key ''unavailable'')), ?A, ?s2)"
    unfolding lockAndCheckClaim_def checkClaim_three checkClaim_rounds.simps
    by (simp add: election_GetByKey_def getOp_Exec_def local_client_def request_def sample_names)
  show "\<exists>A1 r1 m1 e B1 s2.
     lockAndCheckClaim (local_client quiet) claim_codec ''cp'' 0 candidate_A (0, fmempty) = (Inr (), A1, (r1, m1)) \<and>
     lockAndCheckClaim (local_client quiet) claim_codec ''cp'' 0 candidate_B
       (r1 + 1, fmdrop (election_Key ''cp'' ''scheduler'') m1) = (Inr (), B1, s2) \<and>
     lockAndCheckClaim (local_client (\<lambda>s. (True, s))) claim_codec ''cp'' 0 A1 s2 = (Inl e, A1, s2) \<and>
     ca_isLeader A1 \<and> ca_isLeader B1"
    by (intro exI conjI, rule a, rule b, rule c) simp_all
  let ?R = "?A\<lparr>ca_running := True\<rparr>" and ?S = "?A\<lparr>ca_running := False, ca_isLeader := False\<rparr>"
  have start: "candidate_Start (local_client quiet) claim_codec ''cp'' 0 None candidate_A (0, fmempty) = (Inr (), ?R, (1, ?m1))"
    using a by (simp add: candidate_Start_def lockAndCheckClaim_def candidate_A_def NewCandidate_def)
  have stop: "candidate_Stop (local_client quiet) claim_codec ''cp'' ?R (1, ?m1) = (Inr (), ?S, (2, fmempty))"
    using own_release [of ?m1 "''cp''" "?A\<lparr>ca_running := False\<rparr>" 1 1]
    by (simp add: candidate_Stop_def sample_names claim_kv_def claim_of_def fmdrop_fmupd_same)
  have again: "lockAndCheckClaim (local_client quiet) claim_codec ''cp'' 0 ?S (2, fmempty) =
      (Inr (), ?S\<lparr>ca_isLeader := True, ca_started := ca_started ?S @ ca_onClaim ?S\<rparr>, (2 + 1, fmupd ?key (claim_kv (2 + 1) ''cp'' ?S) fmempty))"
    using free_claim [of fmempty "''cp''" ?S 2] by (simp add: sample_names)
  show "\<exists>A1 s1 A2 s2 A3 s3.
     candidate_Start (local_client quiet) claim_codec ''cp'' 0 None candidate_A (0, fmempty) = (Inr (), A1, s1) \<and>
     candidate_Stop (local_client quiet) claim_codec ''cp'' A1 s1 = (Inr (), A2, s2) \<and>
     lockAndCheckClaim (local_client quiet) claim_codec ''cp'' 0 A2 s2 = (Inr (), A3, s3) \<and>
     ca_isLeader A1 \<and> \<not> ca_isLeader A2 \<and> \<not> ca_running A3 \<and> ca_isLeader A3"
    by (intro exI conjI, rule start, rule stop, rule again) simp_all
qed


end
