(* ===== verification/Task.thy ===== *)
theory Task
  imports CP_Prelude Ds_Set
begin

text \<open>
  Tasks (\<^verbatim>\<open>server/internal/task/task.go\<close>): their creation from options and their life cycle. Scopes, types and
  statuses are strings, as in the code. A UUID is its text, and a time is an integer whose zero is the zero
  time of Go. The generated id and the current time are parameters.
\<close>

type_synonym uuid = string

definition uuid_Nil :: uuid where
  "uuid_Nil = ''00000000-0000-0000-0000-000000000000''"

section \<open>Scopes, types and statuses\<close>

definition ScopeDatabase :: string where
  "ScopeDatabase = ''database''"

definition ScopeHost :: string where
  "ScopeHost = ''host''"

definition StatusPending :: string where
  "StatusPending = ''pending''"

definition StatusRunning :: string where
  "StatusRunning = ''running''"

definition StatusCompleted :: string where
  "StatusCompleted = ''completed''"

definition StatusFailed :: string where
  "StatusFailed = ''failed''"

definition StatusCanceled :: string where
  "StatusCanceled = ''canceled''"

definition StatusCanceling :: string where
  "StatusCanceling = ''canceling''"

definition StatusUnknown :: string where
  "StatusUnknown = ''unknown''"

lemmas status_defs = StatusPending_def StatusRunning_def StatusCompleted_def StatusFailed_def StatusCanceled_def
  StatusCanceling_def StatusUnknown_def

definition completedStatuses :: "string list" where
  "completedStatuses = [StatusCompleted, StatusFailed, StatusCanceled]"

section \<open>Tasks\<close>

record Task =
  t_Scope :: string
  t_EntityID :: string
  t_ParentID :: uuid
  t_DatabaseID :: string
  t_NodeName :: string
  t_InstanceID :: string
  t_HostID :: string
  t_TaskID :: uuid
  t_CreatedAt :: int
  t_CompletedAt :: int
  t_Type :: string
  t_WorkflowInstanceID :: string
  t_WorkflowExecutionID :: string
  t_Status :: string
  t_Error :: string

definition IsComplete :: "Task \<Rightarrow> bool" where
  "IsComplete t \<longleftrightarrow> t_Status t \<in> set completedStatuses"

record Options =
  o_Scope :: string
  o_ParentID :: uuid
  o_DatabaseID :: string
  o_NodeName :: string
  o_InstanceID :: string
  o_HostID :: string
  o_Type :: string
  o_WorkflowInstanceID :: string
  o_WorkflowExecutionID :: string

definition options_EntityID :: "Options \<Rightarrow> string" where
  "options_EntityID opts =
     (if o_Scope opts = ScopeDatabase then o_DatabaseID opts
      else if o_Scope opts = ScopeHost then o_HostID opts
      else [])"

datatype task_error =
    ErrScopeRequired
  | ErrTypeRequired
  | ErrDatabaseIDRequired
  | ErrHostIDRequired
  | ErrInvalidScope string
  | ErrGenerateTaskID string

definition options_validate :: "Options \<Rightarrow> task_error option" where
  "options_validate opts =
     (if o_Scope opts = [] then Some ErrScopeRequired
      else if o_Type opts = [] then Some ErrTypeRequired
      else if o_Scope opts = ScopeDatabase then (if o_DatabaseID opts = [] then Some ErrDatabaseIDRequired else None)
      else if o_Scope opts = ScopeHost then (if o_HostID opts = [] then Some ErrHostIDRequired else None)
      else Some (ErrInvalidScope (o_Scope opts)))"

definition NewTask :: "(string, uuid) res \<Rightarrow> int \<Rightarrow> Options \<Rightarrow> (task_error, Task) res" where
  "NewTask newV7 now opts =
     (case options_validate opts of
        Some e \<Rightarrow> Inl e
      | None \<Rightarrow> (case newV7 of
          Inl e \<Rightarrow> Inl (ErrGenerateTaskID e)
        | Inr taskID \<Rightarrow> Inr \<lparr>t_Scope = o_Scope opts, t_EntityID = options_EntityID opts, t_ParentID = o_ParentID opts,
            t_DatabaseID = o_DatabaseID opts, t_NodeName = o_NodeName opts, t_InstanceID = o_InstanceID opts,
            t_HostID = o_HostID opts, t_TaskID = taskID, t_CreatedAt = now, t_CompletedAt = 0, t_Type = o_Type opts,
            t_WorkflowInstanceID = o_WorkflowInstanceID opts, t_WorkflowExecutionID = o_WorkflowExecutionID opts,
            t_Status = StatusPending, t_Error = []\<rparr>))"

record UpdateOptions =
  u_NodeName :: "string option"
  u_InstanceID :: "string option"
  u_HostID :: "string option"
  u_WorkflowInstanceID :: "string option"
  u_WorkflowExecutionID :: "string option"
  u_CompletedAt :: "int option"
  u_Status :: "string option"
  u_Error :: "string option"

definition no_update :: UpdateOptions where
  "no_update = \<lparr>u_NodeName = None, u_InstanceID = None, u_HostID = None, u_WorkflowInstanceID = None,
     u_WorkflowExecutionID = None, u_CompletedAt = None, u_Status = None, u_Error = None\<rparr>"

definition UpdateStart :: UpdateOptions where
  "UpdateStart = no_update\<lparr>u_Status := Some StatusRunning\<rparr>"

definition UpdateComplete :: "int \<Rightarrow> UpdateOptions" where
  "UpdateComplete now = no_update\<lparr>u_Status := Some StatusCompleted, u_CompletedAt := Some now\<rparr>"

definition UpdateFail :: "int \<Rightarrow> string \<Rightarrow> UpdateOptions" where
  "UpdateFail now cause = no_update\<lparr>u_Status := Some StatusFailed, u_CompletedAt := Some now, u_Error := Some cause\<rparr>"

definition UpdateCancel :: "int \<Rightarrow> UpdateOptions" where
  "UpdateCancel now = no_update\<lparr>u_Status := Some StatusCanceled, u_CompletedAt := Some now\<rparr>"

definition set_opt :: "'a option \<Rightarrow> 'a \<Rightarrow> 'a" where
  "set_opt v old = (case v of None \<Rightarrow> old | Some new \<Rightarrow> new)"

definition task_Update :: "UpdateOptions \<Rightarrow> Task \<Rightarrow> Task" where
  "task_Update options t =
     (let t1 = t\<lparr>t_NodeName := set_opt (u_NodeName options) (t_NodeName t),
            t_InstanceID := set_opt (u_InstanceID options) (t_InstanceID t),
            t_HostID := set_opt (u_HostID options) (t_HostID t),
            t_WorkflowInstanceID := set_opt (u_WorkflowInstanceID options) (t_WorkflowInstanceID t),
            t_WorkflowExecutionID := set_opt (u_WorkflowExecutionID options) (t_WorkflowExecutionID t)\<rparr>
      in if \<not> IsComplete t1
         then t1\<lparr>t_CompletedAt := set_opt (u_CompletedAt options) (t_CompletedAt t1),
            t_Status := set_opt (u_Status options) (t_Status t1),
            t_Error := set_opt (u_Error options) (t_Error t1)\<rparr>
         else t1)"

definition task_Start :: "Task \<Rightarrow> Task" where
  "task_Start = task_Update UpdateStart"

definition SetFailed :: "int \<Rightarrow> string \<Rightarrow> Task \<Rightarrow> Task" where
  "SetFailed now cause = task_Update (UpdateFail now cause)"

definition SetCompleted :: "int \<Rightarrow> Task \<Rightarrow> Task" where
  "SetCompleted now = task_Update (UpdateComplete now)"

section \<open>The life cycle\<close>

text \<open>The steps that the code takes on a task at a time after the zero time, and any other change of its location.\<close>

inductive task_step :: "Task \<Rightarrow> Task \<Rightarrow> bool" where
  start: "task_step t (task_Start t)"
| complete: "0 < now \<Longrightarrow> task_step t (SetCompleted now t)"
| fail: "0 < now \<Longrightarrow> task_step t (SetFailed now cause t)"
| cancel: "0 < now \<Longrightarrow> task_step t (task_Update (UpdateCancel now) t)"
| relocate: "u_CompletedAt u = None \<Longrightarrow> u_Status u = None \<Longrightarrow> u_Error u = None \<Longrightarrow> task_step t (task_Update u t)"

definition task_ok :: "Task \<Rightarrow> bool" where
  "task_ok t \<longleftrightarrow> t_Scope t \<in> {ScopeDatabase, ScopeHost} \<and> t_EntityID t \<noteq> [] \<and> t_Type t \<noteq> [] \<and>
     (t_Scope t = ScopeDatabase \<longrightarrow> t_EntityID t = t_DatabaseID t) \<and>
     t_Status t \<in> {StatusPending, StatusRunning, StatusCompleted, StatusFailed, StatusCanceled} \<and>
     (IsComplete t \<longleftrightarrow> t_CompletedAt t \<noteq> 0) \<and> (t_Error t \<noteq> [] \<longrightarrow> t_Status t = StatusFailed)"

lemma completed_iff: "s \<in> set completedStatuses \<longleftrightarrow> s = StatusCompleted \<or> s = StatusFailed \<or> s = StatusCanceled"
  by (auto simp: completedStatuses_def)

lemma NewTask_cases:
  "NewTask newV7 now opts = Inr t \<longleftrightarrow> (\<exists>taskID. newV7 = Inr taskID \<and> options_validate opts = None \<and>
     t = \<lparr>t_Scope = o_Scope opts, t_EntityID = options_EntityID opts, t_ParentID = o_ParentID opts,
            t_DatabaseID = o_DatabaseID opts, t_NodeName = o_NodeName opts, t_InstanceID = o_InstanceID opts,
            t_HostID = o_HostID opts, t_TaskID = taskID, t_CreatedAt = now, t_CompletedAt = 0, t_Type = o_Type opts,
            t_WorkflowInstanceID = o_WorkflowInstanceID opts, t_WorkflowExecutionID = o_WorkflowExecutionID opts,
            t_Status = StatusPending, t_Error = []\<rparr>)"
  by (auto simp: NewTask_def split: option.splits sum.splits)

lemma NewTask_ok: "NewTask newV7 now opts = Inr t \<Longrightarrow> task_ok t \<and> \<not> IsComplete t"
  by (auto simp: NewTask_cases task_ok_def options_validate_def options_EntityID_def IsComplete_def completed_iff status_defs
      ScopeDatabase_def ScopeHost_def split: if_splits)

text \<open>What an update keeps, and what it does to a task that is complete.\<close>

lemma task_Update_keeps [simp]:
  "t_Scope (task_Update u t) = t_Scope t" "t_EntityID (task_Update u t) = t_EntityID t"
  "t_DatabaseID (task_Update u t) = t_DatabaseID t" "t_TaskID (task_Update u t) = t_TaskID t"
  "t_Type (task_Update u t) = t_Type t" "t_CreatedAt (task_Update u t) = t_CreatedAt t"
  by (simp_all add: task_Update_def Let_def)

lemma task_Update_status:
  "t_Status (task_Update u t) = (if IsComplete t then t_Status t else set_opt (u_Status u) (t_Status t))"
  "t_CompletedAt (task_Update u t) = (if IsComplete t then t_CompletedAt t else set_opt (u_CompletedAt u) (t_CompletedAt t))"
  "t_Error (task_Update u t) = (if IsComplete t then t_Error t else set_opt (u_Error u) (t_Error t))"
  by (simp_all add: task_Update_def Let_def IsComplete_def)

lemma task_step_ok:
  assumes "task_step t t'" and "task_ok t"
  shows "task_ok t'"
  using assms
  by (cases rule: task_step.cases)
    (auto simp: task_ok_def task_Start_def SetCompleted_def SetFailed_def task_Update_status IsComplete_def completed_iff
      UpdateStart_def UpdateComplete_def UpdateFail_def UpdateCancel_def no_update_def set_opt_def status_defs)


definition sample_options :: Options where
  "sample_options = \<lparr>o_Scope = ScopeDatabase, o_ParentID = uuid_Nil, o_DatabaseID = ''db'', o_NodeName = [], o_InstanceID = [],
     o_HostID = [], o_Type = ''create'', o_WorkflowInstanceID = [], o_WorkflowExecutionID = []\<rparr>"


end
