(* ===== verification/Task_Store.thy ===== *)
theory Task_Store
  imports Task Storage_Ops
begin

text \<open>
  The task stores and the task service (\<^verbatim>\<open>task_store.go\<close>, \<^verbatim>\<open>task_log_store.go\<close> and \<^verbatim>\<open>service.go\<close> of
  \<^verbatim>\<open>server/internal/task\<close>). The function that gives the end of the range of a prefix belongs to the etcd
  client and is a parameter. Generated ids and the current time are parameters as well. A stored task is a
  pointer in the code, so it may be missing; reading a field of a missing one panics.
\<close>

section \<open>The store of tasks\<close>

definition task_Prefix :: "string \<Rightarrow> string" where
  "task_Prefix root = Prefix [''/'', root, ''tasks_v2'']"

definition task_EntityPrefix :: "string \<Rightarrow> string \<Rightarrow> string \<Rightarrow> string" where
  "task_EntityPrefix root scope entityID = Prefix [task_Prefix root, scope, entityID]"

definition task_Key :: "string \<Rightarrow> string \<Rightarrow> string \<Rightarrow> uuid \<Rightarrow> string" where
  "task_Key root scope entityID taskID = Key [task_EntityPrefix root scope entityID, taskID]"

definition task_GetByKey :: "'s etcd_client \<Rightarrow> Task option codec \<Rightarrow> string \<Rightarrow> string \<Rightarrow> string \<Rightarrow> uuid \<Rightarrow> 's \<Rightarrow>
    (storage_error, Task option item) res \<times> 's" where
  "task_GetByKey C K root scope entityID taskID = getOp_Exec C K (task_Key root scope entityID taskID) []"

record TaskListOptions =
  tl_Limit :: int
  tl_AfterTaskID :: uuid
  tl_SortOrder :: string
  tl_Type :: string
  tl_NodeName :: string
  tl_Statuses :: "string list"

definition GetAllByEntity :: "'s etcd_client \<Rightarrow> Task option codec \<Rightarrow> (string \<Rightarrow> string) \<Rightarrow> string \<Rightarrow> string \<Rightarrow> string \<Rightarrow>
    TaskListOptions \<Rightarrow> 's \<Rightarrow> (storage_error, Task option item list) res \<times> 's" where
  "GetAllByEntity C K GetPrefixRangeEnd root scope entityID options =
     (let rangeStart = task_EntityPrefix root scope entityID;
          rangeEnd = GetPrefixRangeEnd rangeStart;
          limitOptions = (if tl_Limit options > 0 then [WithLimit (tl_Limit options)] else []);
          sortOrder = (if tl_SortOrder options = ''ascend'' then SortAscend else SortDescend);
          afterKey = task_Key root scope entityID (tl_AfterTaskID options);
          start = (if tl_AfterTaskID options \<noteq> uuid_Nil \<and> sortOrder = SortAscend then afterKey @ ''0'' else rangeStart);
          stop = (if tl_AfterTaskID options \<noteq> uuid_Nil \<and> sortOrder = SortDescend then afterKey else rangeEnd)
      in getRangeOp_Exec C K start stop (limitOptions @ [WithSort SortByKey sortOrder]))"

definition stored_task_key :: "string \<Rightarrow> Task \<Rightarrow> string" where
  "stored_task_key root t = task_Key root (t_Scope t) (t_EntityID t) (t_TaskID t)"

definition task_store_Create :: "string \<Rightarrow> Task \<Rightarrow> Task option item \<Rightarrow> Task option put_op" where
  "task_store_Create root t i = NewCreateOp (stored_task_key root t) (i\<lparr>item_body := Some t\<rparr>) []"

definition task_store_Update :: "string \<Rightarrow> Task \<Rightarrow> Task option item \<Rightarrow> Task option put_op" where
  "task_store_Update root t i = NewUpdateOp (stored_task_key root t) (i\<lparr>item_body := Some t\<rparr>) []"

definition task_store_Delete :: "string \<Rightarrow> string \<Rightarrow> string \<Rightarrow> uuid \<Rightarrow> Task option delete_op" where
  "task_store_Delete root scope entityID taskID = NewDeleteKeyOp (task_Key root scope entityID taskID) []"

definition task_DeleteByEntity :: "string \<Rightarrow> string \<Rightarrow> string \<Rightarrow> Task option delete_op" where
  "task_DeleteByEntity root scope entityID = NewDeletePrefixOp (task_EntityPrefix root scope entityID) []"

section \<open>The store of log entries\<close>

record 'f StoredTaskLogEntry =
  le_Scope :: string
  le_EntityID :: string
  le_DatabaseID :: string
  le_TaskID :: uuid
  le_EntryID :: uuid
  le_Timestamp :: int
  le_Message :: string
  le_Fields :: 'f

definition log_Prefix :: "string \<Rightarrow> string" where
  "log_Prefix root = Prefix [''/'', root, ''task_log_entries'']"

definition log_EntityPrefix :: "string \<Rightarrow> string \<Rightarrow> string \<Rightarrow> string" where
  "log_EntityPrefix root scope entityID = Prefix [log_Prefix root, scope, entityID]"

definition log_TaskPrefix :: "string \<Rightarrow> string \<Rightarrow> string \<Rightarrow> uuid \<Rightarrow> string" where
  "log_TaskPrefix root scope entityID taskID = Prefix [log_EntityPrefix root scope entityID, taskID]"

definition log_Key :: "string \<Rightarrow> string \<Rightarrow> string \<Rightarrow> uuid \<Rightarrow> uuid \<Rightarrow> string" where
  "log_Key root scope entityID taskID entryID = Key [log_TaskPrefix root scope entityID taskID, entryID]"

record TaskLogOptions =
  lo_Limit :: int
  lo_AfterEntryID :: uuid

definition GetAllByTask :: "'s etcd_client \<Rightarrow> 'f StoredTaskLogEntry codec \<Rightarrow> (string \<Rightarrow> string) \<Rightarrow> string \<Rightarrow> string \<Rightarrow> string \<Rightarrow> uuid \<Rightarrow>
    TaskLogOptions \<Rightarrow> 's \<Rightarrow> (storage_error, 'f StoredTaskLogEntry item list) res \<times> 's" where
  "GetAllByTask C K GetPrefixRangeEnd root scope entityID taskID options =
     (let rangeStart = log_TaskPrefix root scope entityID taskID;
          rangeEnd = GetPrefixRangeEnd rangeStart;
          limitOptions = (if lo_Limit options > 0 then [WithLimit (lo_Limit options)] else []);
          start = (if lo_AfterEntryID options \<noteq> uuid_Nil then log_Key root scope entityID taskID (lo_AfterEntryID options)
            else rangeStart)
      in getRangeOp_Exec C K start rangeEnd (limitOptions @ [WithSort SortByKey SortDescend, WithSerializable]))"

definition log_Put :: "string \<Rightarrow> 'f StoredTaskLogEntry item \<Rightarrow> 'f StoredTaskLogEntry put_op" where
  "log_Put root i = NewPutOp (log_Key root (le_Scope (item_body i)) (le_EntityID (item_body i)) (le_TaskID (item_body i))
     (le_EntryID (item_body i))) i []"

definition log_DeleteByTask :: "string \<Rightarrow> string \<Rightarrow> string \<Rightarrow> uuid \<Rightarrow> 'f StoredTaskLogEntry delete_op" where
  "log_DeleteByTask root scope entityID taskID = NewDeletePrefixOp (log_TaskPrefix root scope entityID taskID) []"

definition log_DeleteByEntity :: "string \<Rightarrow> string \<Rightarrow> string \<Rightarrow> 'f StoredTaskLogEntry delete_op" where
  "log_DeleteByEntity root scope entityID = NewDeletePrefixOp (log_EntityPrefix root scope entityID) []"

section \<open>The service\<close>

datatype task_service_error =
    ErrTaskNotFound
  | ErrNewTask task_error
  | ErrStoreTask storage_error
  | ErrGetTask storage_error
  | ErrGetTasks storage_error
  | ErrListTasks storage_error
  | ErrDeleteTask storage_error
  | ErrEntryID string
  | ErrLogEntry storage_error
  | ErrGetLog storage_error
  | ErrDeleteLogs storage_error
  | PanicNilTask

definition CreateTask :: "'s etcd_client \<Rightarrow> Task option codec \<Rightarrow> string \<Rightarrow> (string, uuid) res \<Rightarrow> int \<Rightarrow> Options \<Rightarrow> 's \<Rightarrow>
    (task_service_error, Task) res \<times> 's" where
  "CreateTask C K root newV7 now opts s =
     (case NewTask newV7 now opts of
        Inl e \<Rightarrow> (Inl (ErrNewTask e), s)
      | Inr t \<Rightarrow> (case put_Exec C K (task_store_Create root t \<lparr>item_body = Some t, item_version = 0\<rparr>) s of
          (Inl e, po, s1) \<Rightarrow> (Inl (ErrStoreTask e), s1)
        | (Inr _, po, s1) \<Rightarrow> (Inr t, s1)))"

definition UpdateTask :: "'s etcd_client \<Rightarrow> Task option codec \<Rightarrow> string \<Rightarrow> Task \<Rightarrow> 's \<Rightarrow> (task_service_error, unit) res \<times> 's" where
  "UpdateTask C K root t s =
     (case task_GetByKey C K root (t_Scope t) (t_EntityID t) (t_TaskID t) s of
        (Inl (ErrNotFound k), s1) \<Rightarrow> (Inl ErrTaskNotFound, s1)
      | (Inl e, s1) \<Rightarrow> (Inl (ErrGetTask e), s1)
      | (Inr stored, s1) \<Rightarrow> (case put_Exec C K (task_store_Update root t stored) s1 of
          (Inl e, po, s2) \<Rightarrow> (Inl (ErrStoreTask e), s2)
        | (Inr _, po, s2) \<Rightarrow> (Inr (), s2)))"

definition GetTask :: "'s etcd_client \<Rightarrow> Task option codec \<Rightarrow> string \<Rightarrow> string \<Rightarrow> string \<Rightarrow> uuid \<Rightarrow> 's \<Rightarrow>
    (task_service_error, Task option) res \<times> 's" where
  "GetTask C K root scope entityID taskID s =
     (case task_GetByKey C K root scope entityID taskID s of
        (Inl (ErrNotFound k), s1) \<Rightarrow> (Inl ErrTaskNotFound, s1)
      | (Inl e, s1) \<Rightarrow> (Inl (ErrGetTask e), s1)
      | (Inr stored, s1) \<Rightarrow> (Inr (item_body stored), s1))"

definition perPageFor :: "TaskListOptions \<Rightarrow> int" where
  "perPageFor options =
     (if tl_Limit options > 0 \<and> tl_Limit options < 100 then tl_Limit options
      else if tl_Limit options > 0 then tl_Limit options
      else 100)"

text \<open>The conditions in the order of the code; \<open>None\<close> is the panic on a missing task.\<close>

definition matchesFilters :: "Task option \<Rightarrow> TaskListOptions \<Rightarrow> bool option" where
  "matchesFilters task opts =
     (case task of
        None \<Rightarrow> if tl_Type opts \<noteq> [] \<or> tl_Statuses opts \<noteq> [] then None
                else if tl_NodeName opts \<noteq> [] then Some False else Some True
      | Some t \<Rightarrow>
          if tl_Type opts \<noteq> [] \<and> t_Type t \<noteq> tl_Type opts then Some False
          else if tl_Statuses opts \<noteq> [] \<and> t_Status t \<notin> set (tl_Statuses opts) then Some False
          else if tl_NodeName opts \<noteq> [] \<and> t_NodeName t \<noteq> tl_NodeName opts then Some False
          else Some True)"

definition getTasks :: "'s etcd_client \<Rightarrow> Task option codec \<Rightarrow> (string \<Rightarrow> string) \<Rightarrow> string \<Rightarrow> string \<Rightarrow> string \<Rightarrow>
    TaskListOptions \<Rightarrow> 's \<Rightarrow> (task_service_error, Task option list) res \<times> 's" where
  "getTasks C K GetPrefixRangeEnd root scope entityID options s =
     (case GetAllByEntity C K GetPrefixRangeEnd root scope entityID options s of
        (Inl (ErrNotFound k), s1) \<Rightarrow> (Inr [], s1)
      | (Inl e, s1) \<Rightarrow> (Inl (ErrGetTasks e), s1)
      | (Inr stored, s1) \<Rightarrow> (Inr (filter (\<lambda>t. t \<noteq> None) (map item_body stored)), s1))"

text \<open>The loop over one page: whether the limit is reached, and the tasks so far.\<close>

fun collect_page :: "TaskListOptions \<Rightarrow> Task option list \<Rightarrow> Task option list \<Rightarrow> (task_service_error, bool \<times> Task option list) res" where
  "collect_page options [] tasks = Inr (False, tasks)"
| "collect_page options (t # ts) tasks =
     (case matchesFilters t options of
        None \<Rightarrow> Inl PanicNilTask
      | Some False \<Rightarrow> collect_page options ts tasks
      | Some True \<Rightarrow>
          (let tasks1 = tasks @ [t]
           in if tl_Limit options > 0 \<and> int (length tasks1) \<ge> tl_Limit options
              then Inr (True, if int (length tasks1) > tl_Limit options then take (nat (tl_Limit options)) tasks1 else tasks1)
              else collect_page options ts tasks1))"

partial_function (option) task_pages :: "'s etcd_client \<Rightarrow> Task option codec \<Rightarrow> (string \<Rightarrow> string) \<Rightarrow> string \<Rightarrow> string \<Rightarrow> string \<Rightarrow>
    TaskListOptions \<Rightarrow> uuid \<Rightarrow> Task option list \<Rightarrow> 's \<Rightarrow> ((task_service_error, Task option list) res \<times> 's) option" where
  "task_pages C K GetPrefixRangeEnd root scope entityID options after tasks s =
     (case GetAllByEntity C K GetPrefixRangeEnd root scope entityID
         (options\<lparr>tl_Limit := perPageFor options, tl_AfterTaskID := after\<rparr>) s of
        (r, s1) \<Rightarrow> (case r of
          Inl e \<Rightarrow> Some (case e of ErrNotFound k \<Rightarrow> Inr tasks | _ \<Rightarrow> Inl (ErrListTasks e), s1)
        | Inr stored \<Rightarrow>
            if stored = [] then Some (Inr tasks, s1)
            else (case collect_page options (map item_body stored) tasks of
              Inl e \<Rightarrow> Some (Inl e, s1)
            | Inr (full, tasks1) \<Rightarrow>
                if full then Some (Inr tasks1, s1)
                else (case item_body (last stored) of
                  None \<Rightarrow> Some (Inr tasks1, s1)
                | Some t \<Rightarrow>
                    if int (length stored) < perPageFor options then Some (Inr tasks1, s1)
                    else task_pages C K GetPrefixRangeEnd root scope entityID options (t_TaskID t) tasks1 s1))))"

definition getTasksFiltered :: "'s etcd_client \<Rightarrow> Task option codec \<Rightarrow> (string \<Rightarrow> string) \<Rightarrow> string \<Rightarrow> string \<Rightarrow> string \<Rightarrow>
    TaskListOptions \<Rightarrow> 's \<Rightarrow> ((task_service_error, Task option list) res \<times> 's) option" where
  "getTasksFiltered C K GetPrefixRangeEnd root scope entityID options s =
     task_pages C K GetPrefixRangeEnd root scope entityID options (tl_AfterTaskID options) [] s"

definition GetTasks :: "'s etcd_client \<Rightarrow> Task option codec \<Rightarrow> (string \<Rightarrow> string) \<Rightarrow> string \<Rightarrow> string \<Rightarrow> string \<Rightarrow>
    TaskListOptions \<Rightarrow> 's \<Rightarrow> ((task_service_error, Task option list) res \<times> 's) option" where
  "GetTasks C K GetPrefixRangeEnd root scope entityID options s =
     (if tl_Type options = [] \<and> tl_NodeName options = [] \<and> tl_Statuses options = []
      then Some (getTasks C K GetPrefixRangeEnd root scope entityID options s)
      else getTasksFiltered C K GetPrefixRangeEnd root scope entityID options s)"

definition DeleteTaskLogs :: "'s etcd_client \<Rightarrow> string \<Rightarrow> string \<Rightarrow> string \<Rightarrow> uuid \<Rightarrow> 's \<Rightarrow> (task_service_error, unit) res \<times> 's" where
  "DeleteTaskLogs C root scope entityID taskID s =
     (case deletePrefixOp_Exec C (log_DeleteByTask root scope entityID taskID :: unit StoredTaskLogEntry delete_op) s of
        (Inl e, d, s1) \<Rightarrow> (Inl (ErrDeleteLogs e), s1)
      | (Inr n, d, s1) \<Rightarrow> (Inr (), s1))"

definition DeleteAllTaskLogs :: "'s etcd_client \<Rightarrow> string \<Rightarrow> string \<Rightarrow> string \<Rightarrow> 's \<Rightarrow> (task_service_error, unit) res \<times> 's" where
  "DeleteAllTaskLogs C root scope entityID s =
     (case deletePrefixOp_Exec C (log_DeleteByEntity root scope entityID :: unit StoredTaskLogEntry delete_op) s of
        (Inl e, d, s1) \<Rightarrow> (Inl (ErrDeleteLogs e), s1)
      | (Inr n, d, s1) \<Rightarrow> (Inr (), s1))"

definition DeleteTask :: "'s etcd_client \<Rightarrow> string \<Rightarrow> string \<Rightarrow> string \<Rightarrow> uuid \<Rightarrow> 's \<Rightarrow> (task_service_error, unit) res \<times> 's" where
  "DeleteTask C root scope entityID taskID s =
     (case deleteKeyOp_Exec C (task_store_Delete root scope entityID taskID) s of
        (Inl e, d, s1) \<Rightarrow> (Inl (ErrDeleteTask e), s1)
      | (Inr deleted, d, s1) \<Rightarrow>
          if deleted = 0 then (Inl ErrTaskNotFound, s1) else DeleteTaskLogs C root scope entityID taskID s1)"

definition DeleteAllTasks :: "'s etcd_client \<Rightarrow> string \<Rightarrow> string \<Rightarrow> string \<Rightarrow> 's \<Rightarrow> (task_service_error, unit) res \<times> 's" where
  "DeleteAllTasks C root scope entityID s =
     (case deletePrefixOp_Exec C (task_DeleteByEntity root scope entityID) s of
        (Inl e, d, s1) \<Rightarrow> (Inl (ErrDeleteTask e), s1)
      | (Inr n, d, s1) \<Rightarrow> DeleteAllTaskLogs C root scope entityID s1)"

record 'f LogEntry =
  lg_Timestamp :: int
  lg_Message :: string
  lg_Fields :: 'f

record 'f TaskLog =
  tlog_Scope :: string
  tlog_EntityID :: string
  tlog_DatabaseID :: string
  tlog_TaskID :: uuid
  tlog_LastEntryID :: uuid
  tlog_Entries :: "'f LogEntry list"

definition AddLogEntry :: "'s etcd_client \<Rightarrow> 'f StoredTaskLogEntry codec \<Rightarrow> string \<Rightarrow> (string, uuid) res \<Rightarrow> int \<Rightarrow> string \<Rightarrow> string \<Rightarrow>
    uuid \<Rightarrow> 'f LogEntry \<Rightarrow> 's \<Rightarrow> (task_service_error, unit) res \<times> 's" where
  "AddLogEntry C K root newV7 now scope entityID taskID entry s =
     (case newV7 of
        Inl e \<Rightarrow> (Inl (ErrEntryID e), s)
      | Inr entryID \<Rightarrow>
          (let timestamp = (if lg_Timestamp entry = 0 then now else lg_Timestamp entry);
               stored = \<lparr>le_Scope = scope, le_EntityID = entityID, le_DatabaseID = (if scope = ScopeDatabase then entityID else []),
                 le_TaskID = taskID, le_EntryID = entryID, le_Timestamp = timestamp, le_Message = lg_Message entry,
                 le_Fields = lg_Fields entry\<rparr>
           in case put_Exec C K (log_Put root \<lparr>item_body = stored, item_version = 0\<rparr>) s of
             (Inl e, po, s1) \<Rightarrow> (Inl (ErrLogEntry e), s1)
           | (Inr _, po, s1) \<Rightarrow> (Inr (), s1)))"

definition GetTaskLog :: "'s etcd_client \<Rightarrow> 'f StoredTaskLogEntry codec \<Rightarrow> (string \<Rightarrow> string) \<Rightarrow> string \<Rightarrow> string \<Rightarrow> string \<Rightarrow> uuid \<Rightarrow>
    TaskLogOptions \<Rightarrow> 's \<Rightarrow> (task_service_error, 'f TaskLog) res \<times> 's" where
  "GetTaskLog C K GetPrefixRangeEnd root scope entityID taskID options s =
     (case GetAllByTask C K GetPrefixRangeEnd root scope entityID taskID options s of
        (Inl e, s1) \<Rightarrow> (Inl (ErrGetLog e), s1)
      | (Inr stored, s1) \<Rightarrow>
          (Inr \<lparr>tlog_Scope = scope, tlog_EntityID = entityID, tlog_DatabaseID = (if scope = ScopeDatabase then entityID else []),
             tlog_TaskID = taskID,
             tlog_LastEntryID = (case stored of [] \<Rightarrow> uuid_Nil | e # _ \<Rightarrow> le_EntryID (item_body e)),
             tlog_Entries = map (\<lambda>e. \<lparr>lg_Timestamp = le_Timestamp (item_body e), lg_Message = le_Message (item_body e),
                 lg_Fields = le_Fields (item_body e)\<rparr>)
               (filter (\<lambda>e. le_EntryID (item_body e) \<noteq> lo_AfterEntryID options) (rev stored))\<rparr>, s1))"

section \<open>Ranges of keys\<close>

text \<open>The documented behaviour of \<^verbatim>\<open>GetPrefixRangeEnd\<close> on a prefix that ends with a slash.\<close>

locale prefix_range =
  fixes RE :: "string \<Rightarrow> string"
  assumes range_of_prefix: "p @ [slash] \<le> k \<and> k < RE (p @ [slash]) \<longleftrightarrow> has_prefix k (p @ [slash])"
begin

lemma prefix_le: "has_prefix k (p @ [slash]) \<Longrightarrow> p @ [slash] \<le> k"
  using range_of_prefix by blast

end

lemma append_less_cancel: "(p :: string) @ a < p @ b \<longleftrightarrow> a < b" "(p :: string) @ a \<le> p @ b \<longleftrightarrow> a \<le> b"
  by (induction p) auto

text \<open>Extending a string does not change how it compares with another string of the same length.\<close>

lemma append_le_same_length:
  fixes a k :: string
  assumes "length a = length k" and "c \<noteq> []"
  shows "a @ c \<le> k \<longleftrightarrow> a < k"
  using assms(1)
proof (induction a arbitrary: k)
  case Nil
  with assms(2) show ?case by (cases c) auto
next
  case (Cons x a)
  then obtain y k' where k: "k = y # k'" "length a = length k'" by (cases k) auto
  with Cons.IH [OF k(2)] show ?case by auto
qed

definition slash_range_end :: "string \<Rightarrow> string" where
  "slash_range_end p = butlast p @ ''0''"

lemma slash_successor: "slash < c \<longleftrightarrow> CHR ''0'' \<le> c" "c < CHR ''0'' \<longleftrightarrow> c \<le> slash"
  by (auto simp: less_char_def less_eq_char_def)

interpretation slashes: prefix_range slash_range_end
proof
  fix p k
  show "p @ [slash] \<le> k \<and> k < slash_range_end (p @ [slash]) \<longleftrightarrow> has_prefix k (p @ [slash])"
    unfolding slash_range_end_def butlast_snoc
  proof (induction p arbitrary: k)
    case Nil
    show ?case
    proof (cases k)
      case (Cons c k')
      consider "c = slash" | "c < slash" | "slash < c" by (rule linorder_cases)
      then show ?thesis
        using slash_successor [of c] slash_successor(2) [of slash] by cases (auto simp: Cons has_prefix_def)
    qed (simp add: has_prefix_def)
  next
    case (Cons c p)
    show ?case
    proof (cases k)
      case (Cons d k')
      with Cons.IH [of k'] show ?thesis by (auto simp: has_prefix_def)
    qed (simp add: has_prefix_def)
  qed
qed

lemma key_of_slash_hd: "hd (key_of es @ [slash]) = slash" "key_of es @ [slash] \<noteq> []"
  by (simp_all add: key_of_def)

lemma concat_elements: "list_all plain xs \<Longrightarrow> concat (map elements xs) = xs"
  by (induction xs) auto

lemma Prefix_below:
  assumes "list_all plain es" and "list_all plain fs"
  shows "Prefix ((key_of es @ [slash]) # fs) = key_of (es @ fs) @ [slash]"
    and "Key ((key_of es @ [slash]) # fs) = key_of (es @ fs)"
proof -
  have c: "concat (map elements ((key_of es @ [slash]) # fs)) = es @ fs" using assms by (simp add: concat_elements)
  have p: "list_all plain (es @ fs)" using assms by simp
  show "Prefix ((key_of es @ [slash]) # fs) = key_of (es @ fs) @ [slash]"
    by (rule Prefix_plain [OF c p key_of_slash_hd])
  show "Key ((key_of es @ [slash]) # fs) = key_of (es @ fs)" by (rule Key_plain [OF c p key_of_slash_hd])
qed

text \<open>The prefix of an entity ends with a slash, and the key of a task is the prefix and the id.\<close>

lemma task_Key_prefix:
  assumes "list_all plain (elements root)" and "plain scope" and "plain entityID"
  obtains p where "task_EntityPrefix root scope entityID = p @ [slash]"
    "\<And>taskID. plain taskID \<Longrightarrow> task_Key root scope entityID taskID = task_EntityPrefix root scope entityID @ taskID"
proof -
  have t: "plain ''tasks_v2''" by (simp add: plain_def)
  have pre: "task_Prefix root = key_of (elements root @ [''tasks_v2'']) @ [slash]"
    unfolding task_Prefix_def using assms(1) t by (intro Prefix_plain) simp_all
  let ?es = "(elements root @ [''tasks_v2'']) @ [scope, entityID]"
  have es: "list_all plain ?es" using assms t by simp
  have ep: "task_EntityPrefix root scope entityID = key_of ?es @ [slash]"
    unfolding task_EntityPrefix_def pre using assms t by (intro Prefix_below) simp_all
  have "task_Key root scope entityID taskID = task_EntityPrefix root scope entityID @ taskID" if "plain taskID" for taskID
  proof -
    have "task_Key root scope entityID taskID = key_of (?es @ [taskID])"
      unfolding task_Key_def ep using es that by (intro Prefix_below) simp_all
    also have "\<dots> = key_of ?es @ slash # taskID" by (rule key_of_snoc) simp
    finally show ?thesis by (simp add: ep)
  qed
  with ep that show thesis by blast
qed

lemma sorted_list_of_fset_filter: "sorted_list_of_fset (ffilter Q F) = filter Q (sorted_list_of_fset F)"
proof (rule sorted_distinct_set_unique)
  show "set (sorted_list_of_fset (ffilter Q F)) = set (filter Q (sorted_list_of_fset F))" by auto
qed (simp_all add: sorted_list_of_fset.rep_eq sorted_wrt_filter)

section \<open>Listing tasks\<close>

text \<open>
  The tasks of an entity as the service writes them: under the key of their id, which is a UUID and not
  the nil one.
\<close>

definition is_uuid :: "string \<Rightarrow> bool" where
  "is_uuid u \<longleftrightarrow> length u = 36 \<and> plain u"

definition entity_ok :: "Task option codec \<Rightarrow> string \<Rightarrow> store \<Rightarrow> bool" where
  "entity_ok K P m \<longleftrightarrow> (\<forall>k e. fmlookup m k = Some e \<and> has_prefix k P \<longrightarrow>
     (\<exists>t v. decodeKV K e = Inr \<lparr>item_body = Some t, item_version = v\<rparr> \<and> is_uuid (t_TaskID t) \<and> t_TaskID t \<noteq> uuid_Nil \<and>
        k = P @ t_TaskID t))"

definition keys_below :: "string \<Rightarrow> store \<Rightarrow> string list" where
  "keys_below P m = sorted_list_of_fset (ffilter (\<lambda>k. has_prefix k P) (fmdom m))"

definition task_at :: "Task option codec \<Rightarrow> store \<Rightarrow> string \<Rightarrow> Task" where
  "task_at K m k = (case decodeKV K (the (fmlookup m k)) of Inr i \<Rightarrow> the (item_body i))"

text \<open>All tasks of an entity in the order of the options, those behind a given id, and the first ones.\<close>

definition ordered_tasks :: "Task option codec \<Rightarrow> string \<Rightarrow> TaskListOptions \<Rightarrow> store \<Rightarrow> Task list" where
  "ordered_tasks K P options m = (let ts = map (task_at K m) (keys_below P m)
     in if tl_SortOrder options = ''ascend'' then ts else rev ts)"

definition behind :: "TaskListOptions \<Rightarrow> uuid \<Rightarrow> Task \<Rightarrow> bool" where
  "behind options after t \<longleftrightarrow> after = uuid_Nil \<or>
     (if tl_SortOrder options = ''ascend'' then after < t_TaskID t else t_TaskID t < after)"

definition first_ones :: "int \<Rightarrow> 'a list \<Rightarrow> 'a list" where
  "first_ones limit xs = (if limit > 0 then take (nat limit) xs else xs)"

lemma first_ones_short: "\<not> (n > 0 \<and> int (length xs) \<ge> n) \<Longrightarrow> first_ones n xs = xs"
  by (auto simp: first_ones_def)

lemma first_ones_append: "n > 0 \<Longrightarrow> int (length xs) \<ge> n \<Longrightarrow> first_ones n (xs @ ys) = take (nat n) xs"
  by (simp add: first_ones_def)

definition tasks_spec :: "Task option codec \<Rightarrow> string \<Rightarrow> TaskListOptions \<Rightarrow> store \<Rightarrow> Task list" where
  "tasks_spec K P options m = first_ones (tl_Limit options)
     (filter (\<lambda>t. matchesFilters (Some t) options = Some True)
       (filter (behind options (tl_AfterTaskID options)) (ordered_tasks K P options m)))"

lemma keys_below_iff: "k \<in> set (keys_below P m) \<longleftrightarrow> fmlookup m k \<noteq> None \<and> has_prefix k P"
  by (auto simp: keys_below_def fmlookup_dom_iff)

lemma task_at_key:
  assumes "entity_ok K P m" and "k \<in> set (keys_below P m)"
  shows "k = P @ t_TaskID (task_at K m k)" "is_uuid (t_TaskID (task_at K m k))" "t_TaskID (task_at K m k) \<noteq> uuid_Nil"
    "\<exists>v. decodeKV K (the (fmlookup m k)) = Inr \<lparr>item_body = Some (task_at K m k), item_version = v\<rparr>"
proof -
  obtain e where e: "fmlookup m k = Some e" "has_prefix k P" using assms(2) by (auto simp: keys_below_iff)
  with assms(1) obtain t v where t: "decodeKV K e = Inr \<lparr>item_body = Some t, item_version = v\<rparr>" "is_uuid (t_TaskID t)"
      "t_TaskID t \<noteq> uuid_Nil" "k = P @ t_TaskID t" unfolding entity_ok_def by blast
  moreover have "task_at K m k = t" by (simp add: task_at_def e(1) t(1))
  moreover have "decodeKV K (the (fmlookup m k)) = Inr \<lparr>item_body = Some t, item_version = v\<rparr>" using e(1) t(1) by simp
  ultimately show "k = P @ t_TaskID (task_at K m k)" "is_uuid (t_TaskID (task_at K m k))" "t_TaskID (task_at K m k) \<noteq> uuid_Nil"
    "\<exists>v. decodeKV K (the (fmlookup m k)) = Inr \<lparr>item_body = Some (task_at K m k), item_version = v\<rparr>" by metis+
qed

text \<open>The ids are strictly ordered.\<close>

lemma ordered_tasks_sorted:
  assumes "entity_ok K P m"
  shows "sorted_wrt (\<lambda>t t'. if tl_SortOrder options = ''ascend'' then t_TaskID t < t_TaskID t' else t_TaskID t' < t_TaskID t)
    (ordered_tasks K P options m)"
proof -
  have "sorted_wrt (<) (keys_below P m)" by (simp add: keys_below_def sorted_list_of_fset.rep_eq)
  then have "sorted_wrt (\<lambda>k k'. t_TaskID (task_at K m k) < t_TaskID (task_at K m k')) (keys_below P m)"
  proof (rule sorted_wrt_mono_rel [rotated])
    fix k k' assume k: "k \<in> set (keys_below P m)" "k' \<in> set (keys_below P m)" "k < k'"
    then show "t_TaskID (task_at K m k) < t_TaskID (task_at K m k')"
      using task_at_key(1) [OF assms k(1)] task_at_key(1) [OF assms k(2)] append_less_cancel(1) by metis
  qed
  then have "sorted_wrt (\<lambda>t t'. t_TaskID t < t_TaskID t') (map (task_at K m) (keys_below P m))" by (simp add: sorted_wrt_map)
  then show ?thesis by (auto simp: ordered_tasks_def Let_def sorted_wrt_rev)
qed

lemma map_res_all:
  assumes "\<And>x. x \<in> set xs \<Longrightarrow> f x = Inr (g x)"
  shows "map_res f xs = Inr (map g xs)"
  using assms by (induction xs) auto

locale task_listing = etcd_server C kvs "(=)" + prefix_range RE
  for C :: "'s etcd_client" and kvs and RE +
  fixes K :: "Task option codec" and root scope entityID :: string
  assumes plain_path: "list_all plain (elements root)" "plain scope" "plain entityID"
begin

abbreviation P where
  "P \<equiv> task_EntityPrefix root scope entityID"

lemma in_range:
  assumes ok: "entity_ok K P m" and after: "after = uuid_Nil \<or> is_uuid after" and k: "fmlookup m k \<noteq> None"
  shows "(let asc = (tl_SortOrder options = ''ascend'');
      start = (if after \<noteq> uuid_Nil \<and> asc then task_Key root scope entityID after @ ''0'' else P);
      stop = (if after \<noteq> uuid_Nil \<and> \<not> asc then task_Key root scope entityID after else RE P)
    in start \<le> k \<and> k < stop) \<longleftrightarrow> has_prefix k P \<and> behind options after (task_at K m k)"
proof -
  obtain p where p: "P = p @ [slash]" "\<And>u. plain u \<Longrightarrow> task_Key root scope entityID u = P @ u"
    using task_Key_prefix [OF plain_path] by blast
  note law = range_of_prefix [of p, folded p(1)]
  define u where "u = t_TaskID (task_at K m k)"
  have key: "k = P @ u" "length u = 36" if "has_prefix k P"
    using task_at_key(1,2) [OF ok, of k] k that by (simp_all add: keys_below_iff is_uuid_def u_def)
  show ?thesis
  proof (cases "after = uuid_Nil")
    case True
    then show ?thesis using law [of k] by (simp add: behind_def)
  next
    case False
    with after have a: "length after = 36" "task_Key root scope entityID after = P @ after" by (auto simp: is_uuid_def p(2))
    show ?thesis
    proof (cases "tl_SortOrder options = ''ascend''")
      case True
      have "P \<le> P @ after @ ''0''" using append_less_cancel(2) [of P "[]"] by simp
      then have "(P @ after @ ''0'' \<le> k \<and> k < RE P) \<longleftrightarrow> has_prefix k P \<and> P @ after @ ''0'' \<le> k"
        using law [of k] by (meson order_trans)
      also have "\<dots> \<longleftrightarrow> has_prefix k P \<and> after < u"
        using key append_less_cancel(2) [of P "after @ ''0''" u] append_le_same_length [of after u "''0''"] a(1) by auto
      finally show ?thesis using False True a(2) by (simp add: behind_def u_def)
    next
      case desc: False
      have "P @ after < RE P" using law [of "P @ after"] by simp
      then have "(P \<le> k \<and> k < P @ after) \<longleftrightarrow> has_prefix k P \<and> k < P @ after" using law [of k] by (meson less_trans)
      also have "\<dots> \<longleftrightarrow> has_prefix k P \<and> u < after"
        using key append_less_cancel(1) [of P u after] by auto
      finally show ?thesis using False desc a(2) by (simp add: behind_def u_def)
    qed
  qed
qed

lemma GetAllByEntity_page:
  assumes ok: "entity_ok K P (kvs s)" and after: "tl_AfterTaskID options = uuid_Nil \<or> is_uuid (tl_AfterTaskID options)"
    and get: "GetAllByEntity C K RE root scope entityID options s = (r, s1)"
  shows "(\<exists>k e. r = Inl (ErrRequest k e)) \<or> kvs s1 = kvs s \<and> (\<exists>stored. r = Inr stored \<and> map item_body stored =
    map Some (first_ones (tl_Limit options) (filter (behind options (tl_AfterTaskID options)) (ordered_tasks K P options (kvs s)))))"
proof -
  let ?asc = "tl_SortOrder options = ''ascend''" and ?after = "tl_AfterTaskID options"
  define start where "start = (if ?after \<noteq> uuid_Nil \<and> ?asc then task_Key root scope entityID ?after @ ''0'' else P)"
  define stop where "stop = (if ?after \<noteq> uuid_Nil \<and> \<not> ?asc then task_Key root scope entityID ?after else RE P)"
  define os where "os = (if tl_Limit options > 0 then [WithLimit (tl_Limit options)] else []) @
      [WithSort SortByKey (if ?asc then SortAscend else SortDescend)]"
  have op: "getRangeOp_Exec C K start stop os s = (r, s1)"
    using get by (simp add: GetAllByEntity_def Let_def start_def stop_def os_def split: if_splits)
  obtain g s2 where g: "client_Get C start (WithRange stop # os) s = (g, s2)" by fastforce
  show ?thesis
  proof (cases g)
    case (Inl e)
    with op g show ?thesis by (auto simp: getRangeOp_Exec_def)
  next
    case (Inr gr)
    from Get_law g Inr obtain rv where gr: "gr = range_response rv start (WithRange stop # os) (kvs s)" "kvs s2 = kvs s" by blast
    let ?m = "kvs s" and ?ks = "filter (\<lambda>k. behind options ?after (task_at K (kvs s) k)) (keys_below P (kvs s))"
    have sel: "selects start (WithRange stop # os) = (\<lambda>k. start \<le> k \<and> k < stop)"
      by (auto simp: fun_eq_iff selects_def range_end_def os_def)
    have rng: "start \<le> k \<and> k < stop \<longleftrightarrow> has_prefix k P \<and> behind options ?after (task_at K ?m k)" if "fmlookup ?m k = Some e" for k e
      using in_range [OF ok after, of k options] that by (simp add: Let_def start_def stop_def)
    have "ffilter (\<lambda>k. start \<le> k \<and> k < stop) (fmdom ?m) = ffilter (\<lambda>k. has_prefix k P \<and> behind options ?after (task_at K ?m k)) (fmdom ?m)"
      using rng by (intro fset_eqI) (auto simp: fmlookup_dom_iff)
    also have "sorted_list_of_fset \<dots> = ?ks"
      unfolding keys_below_def sorted_list_of_fset_filter filter_filter by (simp add: conj_commute)
    finally have "selected start (WithRange stop # os) ?m = map (\<lambda>k. the (fmlookup ?m k)) ?ks" by (simp add: selected_def sel)
    then have kvs: "gr_Kvs gr = first_ones (tl_Limit options) (map (\<lambda>k. the (fmlookup ?m k)) (if ?asc then ?ks else rev ?ks))"
      by (simp add: gr(1) range_response_def limit_kvs_def sort_kvs_def os_def first_ones_def rev_map)
    define ks where "ks = first_ones (tl_Limit options) (if ?asc then ?ks else rev ?ks)"
    have kvs': "gr_Kvs gr = map (\<lambda>k. the (fmlookup ?m k)) ks" by (simp add: kvs ks_def first_ones_def take_map)
    have mem: "k \<in> set ks \<Longrightarrow> k \<in> set (keys_below P ?m)" for k
      by (auto simp: ks_def first_ones_def dest: in_set_takeD split: if_splits)
    have "map_res (decodeKV K) (gr_Kvs gr) = Inr (map (\<lambda>e. projr (decodeKV K e)) (gr_Kvs gr))"
      using task_at_key(4) [OF ok] mem by (intro map_res_all) (fastforce simp: kvs')
    moreover have "map item_body (map (\<lambda>e. projr (decodeKV K e)) (gr_Kvs gr)) = map (\<lambda>k. Some (task_at K ?m k)) ks"
      unfolding kvs' map_map
    proof (intro map_cong refl)
      fix k assume "k \<in> set ks"
      from task_at_key(4) [OF ok mem [OF this]] show "(item_body \<circ> ((\<lambda>e. projr (decodeKV K e)) \<circ> (\<lambda>k. the (fmlookup ?m k)))) k = Some (task_at K ?m k)"
        by auto
    qed
    moreover have "map (task_at K ?m) ks = first_ones (tl_Limit options) (filter (behind options ?after) (ordered_tasks K P options ?m))"
      by (auto simp: ks_def first_ones_def ordered_tasks_def Let_def filter_map comp_def take_map rev_map rev_filter)
    moreover have "(r, s1) = (map_res (decodeKV K) (gr_Kvs gr), s2)"
      using op g Inr by (simp add: getRangeOp_Exec_def DecodeGetResponse_def decodeKVs_def)
    moreover have "map (\<lambda>k. Some (task_at K ?m k)) ks = map Some (map (task_at K ?m) ks)" by simp
    ultimately show ?thesis using gr(2) by (metis Pair_inject)
  qed
qed

abbreviation matching where
  "matching options t \<equiv> matchesFilters (Some t) options = Some True"

lemma not_matching: "\<not> matching options t \<Longrightarrow> matchesFilters (Some t) options = Some False"
  by (auto simp: matchesFilters_def split: if_splits)

lemma collect_page_tasks:
  assumes "tl_Limit options > 0 \<longrightarrow> int (length acc) < tl_Limit options"
  shows "collect_page options (map Some ts) acc = (let res = acc @ map Some (filter (matching options) ts)
    in if tl_Limit options > 0 \<and> int (length res) \<ge> tl_Limit options then Inr (True, take (nat (tl_Limit options)) res)
       else Inr (False, res))"
  using assms
proof (induction ts arbitrary: acc)
  case Nil
  then show ?case by auto
next
  case (Cons t ts)
  show ?case
  proof (cases "matching options t")
    case False
    then have "matchesFilters (Some t) options = Some False" by (rule not_matching)
    with Cons.IH [OF Cons.prems] False show ?thesis by simp
  next
    case True
    define acc' where "acc' = acc @ [Some t]"
    have all: "acc @ map Some (filter (matching options) (t # ts)) = acc' @ map Some (filter (matching options) ts)"
      using True by (simp add: acc'_def)
    have step: "collect_page options (map Some (t # ts)) acc =
      (if tl_Limit options > 0 \<and> int (length acc') \<ge> tl_Limit options
       then Inr (True, if int (length acc') > tl_Limit options then take (nat (tl_Limit options)) acc' else acc')
       else collect_page options (map Some ts) acc')"
      using True by (simp add: acc'_def Let_def)
    show ?thesis
    proof (cases "tl_Limit options > 0 \<and> int (length acc') \<ge> tl_Limit options")
      case full: True
      have n: "tl_Limit options = int (length acc')" using full Cons.prems by (simp add: acc'_def)
      show ?thesis unfolding step all using full by (simp add: n Let_def)
    next
      case more: False
      then have "collect_page options (map Some (t # ts)) acc = collect_page options (map Some ts) acc'" unfolding step by (rule if_not_P)
      moreover have "tl_Limit options > 0 \<longrightarrow> int (length acc') < tl_Limit options" using more by auto
      ultimately show ?thesis unfolding all using Cons.IH [of acc'] by (simp only:)
    qed
  qed
qed

lemma behind_trans:
  assumes "behind options after t" and "t_TaskID t \<noteq> uuid_Nil" and "behind options (t_TaskID t) x"
  shows "behind options after x"
  using assms by (auto simp: behind_def split: if_splits)

text \<open>The tasks behind the last one of a page are those that follow the page.\<close>

lemma behind_last:
  assumes ok: "entity_ok K P m" and "filter (behind options after) (ordered_tasks K P options m) = pre @ t # post"
  shows "filter (behind options (t_TaskID t)) (ordered_tasks K P options m) = post" and "is_uuid (t_TaskID t)"
proof -
  let ?L = "ordered_tasks K P options m"
  have mem: "t \<in> set ?L" "behind options after t" using arg_cong [OF assms(2), of set] by auto
  then have t: "is_uuid (t_TaskID t)" "t_TaskID t \<noteq> uuid_Nil"
    using task_at_key(2,3) [OF ok] by (auto simp: ordered_tasks_def Let_def split: if_splits)
  show "is_uuid (t_TaskID t)" by (rule t)
  have "filter (behind options (t_TaskID t)) ?L = filter (behind options (t_TaskID t)) (filter (behind options after) ?L)"
    using behind_trans [OF mem(2) t(2)] by (auto intro: filter_cong)
  also have "\<dots> = filter (behind options (t_TaskID t)) (pre @ t # post)" by (simp add: assms(2))
  also have "\<dots> = post"
  proof -
    have "sorted_wrt (\<lambda>t t'. if tl_SortOrder options = ''ascend'' then t_TaskID t < t_TaskID t' else t_TaskID t' < t_TaskID t)
        (pre @ t # post)"
      using sorted_wrt_filter [OF ordered_tasks_sorted [OF ok], of options "behind options after"] by (simp add: assms(2))
    then have "\<forall>x \<in> set pre. \<not> behind options (t_TaskID t) x" "\<not> behind options (t_TaskID t) t"
        "\<forall>x \<in> set post. behind options (t_TaskID t) x"
      using t(2) by (auto simp: sorted_wrt_append behind_def split: if_splits)
    then show ?thesis by (simp add: filter_empty_conv)
  qed
  finally show "filter (behind options (t_TaskID t)) ?L = post" .
qed

lemma task_pages_spec:
  assumes "entity_ok K P (kvs s)" and "after = uuid_Nil \<or> is_uuid after"
    and "tl_Limit options > 0 \<longrightarrow> int (length acc) < tl_Limit options"
  shows "\<exists>res s'. task_pages C K RE root scope entityID options after acc s = Some (res, s') \<and>
    (case res of
       Inr ts \<Rightarrow> ts = first_ones (tl_Limit options) (acc @ map Some (filter (matching options)
         (filter (behind options after) (ordered_tasks K P options (kvs s)))))
     | Inl e \<Rightarrow> \<exists>k r. e = ErrListTasks (ErrRequest k r))"
  using assms
proof (induction "length (filter (behind options after) (ordered_tasks K P options (kvs s)))" arbitrary: after acc s rule: less_induct)
  case less
  let ?rem = "filter (behind options after) (ordered_tasks K P options (kvs s))" and ?n = "nat (perPageFor options)"
  let ?opts = "options\<lparr>tl_Limit := perPageFor options, tl_AfterTaskID := after\<rparr>"
  have pp: "perPageFor options > 0" by (simp add: perPageFor_def)
  have beh: "behind ?opts after = behind options after" "ordered_tasks K P ?opts = ordered_tasks K P options"
    by (simp_all add: behind_def ordered_tasks_def fun_eq_iff)
  obtain r s1 where get: "GetAllByEntity C K RE root scope entityID ?opts s = (r, s1)" by fastforce
  note unf = task_pages.simps [of C K RE root scope entityID options after acc s] get
  from GetAllByEntity_page [OF less.prems(1) _ get] less.prems(2) consider k e where "r = Inl (ErrRequest k e)"
    | stored where "r = Inr stored" "kvs s1 = kvs s" "map item_body stored = map Some (take ?n ?rem)"
    using pp by (auto simp: beh first_ones_def)
  then show ?case
  proof cases
    case 1
    then show ?thesis by (simp add: unf)
  next
    case (2 stored)
    let ?page = "take ?n ?rem"
    let ?all = "acc @ map Some (filter (matching options) ?rem)" and ?res = "acc @ map Some (filter (matching options) ?page)"
    have len: "length stored = length ?page" using arg_cong [OF 2(3), of length] by simp
    have split: "?all = ?res @ map Some (filter (matching options) (drop ?n ?rem))"
      by (simp only: append_assoc flip: map_append filter_append) (simp only: append_take_drop_id)
    note col = collect_page_tasks [OF less.prems(3), of ?page, folded 2(3)]
    show ?thesis
    proof (cases "?page = []")
      case True
      with len have "stored = []" by simp
      moreover have "?rem = []" using True pp by simp
      moreover have "first_ones (tl_Limit options) acc = acc" using less.prems(3) by (auto simp: first_ones_def)
      ultimately show ?thesis by (simp add: unf 2(1))
    next
      case page: False
      have ne: "stored \<noteq> []" using page 2(3) by auto
      show ?thesis
      proof (cases "tl_Limit options > 0 \<and> int (length ?res) \<ge> tl_Limit options")
        case True
        then have "collect_page options (map item_body stored) acc = Inr (True, take (nat (tl_Limit options)) ?res)"
          unfolding col by (simp only: Let_def if_True simp_thms)
        moreover have "first_ones (tl_Limit options) ?all = take (nat (tl_Limit options)) ?res"
          unfolding split using True by (intro first_ones_append) blast+
        ultimately show ?thesis by (simp add: unf 2(1) ne del: map_append)
      next
        case False
        then have c: "collect_page options (map item_body stored) acc = Inr (False, ?res)"
          unfolding col by (simp only: Let_def if_False simp_thms)
        have last: "item_body (last stored) = Some (last ?page)"
          using arg_cong [OF 2(3), of last] ne page by (simp add: last_map)
        show ?thesis
        proof (cases "int (length stored) < perPageFor options")
          case True
          then have "?page = ?rem" using len by simp
          then have "first_ones (tl_Limit options) ?all = ?res" using first_ones_short [OF False] by (simp only:)
          then show ?thesis using True by (simp add: unf 2(1) ne c last)
        next
          case more: False
          have rem: "?rem = butlast ?page @ last ?page # drop ?n ?rem"
            using append_butlast_last_id [OF page] append_take_drop_id [of ?n ?rem] by (metis append.assoc append_Cons append_Nil)
          note nxt = behind_last [OF less.prems(1) rem]
          have shorter: "length (filter (behind options (t_TaskID (last ?page))) (ordered_tasks K P options (kvs s1))) < length ?rem"
            unfolding 2(2) nxt(1) using page pp by (auto simp: diff_less)
          have "entity_ok K P (kvs s1)" "t_TaskID (last ?page) = uuid_Nil \<or> is_uuid (t_TaskID (last ?page))"
            "tl_Limit options > 0 \<longrightarrow> int (length ?res) < tl_Limit options"
            using less.prems(1) nxt(2) False by (simp_all add: 2(2) not_le)
          note rest = less.hyps [OF shorter this, unfolded 2(2) nxt(1)]
          have "task_pages C K RE root scope entityID options after acc s =
              task_pages C K RE root scope entityID options (t_TaskID (last ?page)) ?res s1"
            using more by (simp add: unf 2(1) ne c last)
          then show ?thesis using rest unfolding split by (simp only:)
        qed
      qed
    qed
  qed
qed

lemma getTasks_spec:
  assumes "entity_ok K P (kvs s)" and "tl_AfterTaskID options = uuid_Nil \<or> is_uuid (tl_AfterTaskID options)"
    and "tl_Type options = []" "tl_NodeName options = []" "tl_Statuses options = []"
    and "getTasks C K RE root scope entityID options s = (res, s')"
  shows "case res of
      Inr ts \<Rightarrow> ts = map Some (tasks_spec K P options (kvs s))
    | Inl e \<Rightarrow> \<exists>k r. e = ErrGetTasks (ErrRequest k r)"
proof -
  obtain r s1 where get: "GetAllByEntity C K RE root scope entityID options s = (r, s1)" by fastforce
  have all: "filter (matching options) ts = ts" for ts
    using assms(3-5) by (induction ts) (simp_all add: matchesFilters_def)
  from GetAllByEntity_page [OF assms(1,2) get] show ?thesis
  proof (elim disjE exE conjE)
    fix k e assume "r = Inl (ErrRequest k e)"
    with get assms(6) show ?thesis by (auto simp: getTasks_def)
  next
    fix stored assume "r = Inr stored" "map item_body stored = map Some (first_ones (tl_Limit options)
        (filter (behind options (tl_AfterTaskID options)) (ordered_tasks K P options (kvs s))))"
    with get assms(6) show ?thesis by (auto simp: getTasks_def tasks_spec_def all)
  qed
qed

end


section \<open>A sample listing\<close>

text \<open>A codec that reads an id as a running task with this id, and a store with one task.\<close>

definition sample_task :: "uuid \<Rightarrow> Task" where
  "sample_task u = \<lparr>t_Scope = ''database'', t_EntityID = ''db'', t_ParentID = uuid_Nil, t_DatabaseID = ''db'', t_NodeName = [],
     t_InstanceID = [], t_HostID = [], t_TaskID = u, t_CreatedAt = 1, t_CompletedAt = 0, t_Type = ''create'',
     t_WorkflowInstanceID = [], t_WorkflowExecutionID = [], t_Status = ''running'', t_Error = []\<rparr>"

definition id_codec :: "Task option codec" where
  "id_codec = \<lparr>json_Marshal = (\<lambda>t. case t of None \<Rightarrow> Inl ''null'' | Some t \<Rightarrow> Inr (t_TaskID t)),
     json_Unmarshal = (\<lambda>u. Inr (Some (sample_task u))), gzip_Write = (\<lambda>s. None), gzip_Close = Inr,
     gzip_fields = (\<lambda>s. None), gzip_ReadAll = Inr\<rparr>"

definition sample_uuid :: uuid where
  "sample_uuid = replicate 36 CHR ''a''"

definition sample_key :: string where
  "sample_key = task_EntityPrefix ''cp'' ''database'' ''db'' @ sample_uuid"

definition sample_store :: store where
  "sample_store = fmupd sample_key \<lparr>kv_Key = sample_key, kv_Value = sample_uuid, kv_Version = 1, kv_CreateRevision = 1,
     kv_ModRevision = 1, kv_Lease = 0\<rparr> fmempty"

definition sample_listing :: TaskListOptions where
  "sample_listing = \<lparr>tl_Limit = 2, tl_AfterTaskID = uuid_Nil, tl_SortOrder = ''descend'', tl_Type = ''create'', tl_NodeName = [],
     tl_Statuses = [''running'']\<rparr>"

interpretation database_tasks: task_listing "local_client quiet" snd slash_range_end K "''cp''" "''database''" "''db''" for K
  by unfold_locales (simp_all add: plain_def)

lemma sample_uuid_ok: "is_uuid sample_uuid" "sample_uuid \<noteq> uuid_Nil"
  by (simp_all add: is_uuid_def sample_uuid_def plain_def uuid_Nil_def eval_nat_numeral)

lemma sample_decode: "decodeKV id_codec \<lparr>kv_Key = sample_key, kv_Value = sample_uuid, kv_Version = 1, kv_CreateRevision = 1,
     kv_ModRevision = 1, kv_Lease = 0\<rparr> = Inr \<lparr>item_body = Some (sample_task sample_uuid), item_version = 1\<rparr>"
proof -
  have u: "sample_uuid = CHR ''a'' # replicate 35 CHR ''a''" by (simp add: sample_uuid_def eval_nat_numeral)
  have "gzip_NewReader id_codec sample_uuid = ErrHeader"
    by (simp add: gzip_NewReader_def gzip_magic_def has_prefix_def) (simp add: u)
  then have "decodeJSON id_codec sample_uuid = Inr (Some (sample_task sample_uuid))"
    by (simp add: decodeJSON_def decompress_def) (simp add: id_codec_def)
  then show ?thesis by (simp add: decodeKV_def)
qed

lemma sample_keys: "keys_below (task_EntityPrefix ''cp'' ''database'' ''db'') sample_store = [sample_key]"
proof -
  have "ffilter (\<lambda>k. has_prefix k (task_EntityPrefix ''cp'' ''database'' ''db'')) (fmdom sample_store) = {|sample_key|}"
    by (intro fset_eqI) (auto simp: sample_store_def sample_key_def has_prefix_def)
  then show ?thesis by (simp add: keys_below_def sorted_list_of_fset.rep_eq)
qed

lemma sample_entity_ok: "entity_ok id_codec (task_EntityPrefix ''cp'' ''database'' ''db'') sample_store"
  using sample_uuid_ok
  by (auto simp: entity_ok_def sample_store_def sample_decode sample_task_def sample_key_def [symmetric] split: if_splits)


end
