(* ===== verification/Task_Watcher.thy ===== *)
theory Task_Watcher
  imports Task
begin

text \<open>
  Watching tasks (\<^verbatim>\<open>server/internal/task/watcher.go\<close>): subscriptions of one task share a watch stream, which a
  registry keeps until the last subscription is closed. The watchers and shared watchers are numbered in
  the order of their creation. \<^verbatim>\<open>release\<close> takes two steps, since it gives up its lock in between: it removes
  the subscription, and when none was left it shuts the stream down later. \<^verbatim>\<open>finishAll\<close> and \<^verbatim>\<open>propagateErrors\<close>
  notify their copy of the subscribers in the same step in which they take it: a subscription that is made in
  between gets the outcome from \<^verbatim>\<open>newSubscription\<close>. A stream that has been shut down delivers nothing more;
  an event that is in flight at that moment comes before the shutdown. Objects that a failed \<^verbatim>\<open>acquire\<close> has
  made are unreachable and dropped.
\<close>

section \<open>Watchers\<close>

datatype watch_err = ErrTaskCanceled | ErrTaskFailed

record watcher =
  w_closed :: bool
  w_err :: "watch_err option"
  w_errCh :: "string list"
  w_shared :: nat

record shared_watcher =
  sw_subscribers :: "nat list"
  sw_terminal :: bool
  sw_terminalErr :: "watch_err option"
  sw_streamErr :: "string option"
  sw_taskID :: uuid
  sw_live :: bool

record registry =
  rg_watchers :: "watcher list"
  rg_shared :: "shared_watcher list"
  rg_entries :: "(uuid, nat) gomap"
  rg_pending :: "nat list"

definition newWatcherRegistry :: registry where
  "newWatcherRegistry = \<lparr>rg_watchers = [], rg_shared = [], rg_entries = [], rg_pending = []\<rparr>"

definition finish :: "watch_err option \<Rightarrow> nat \<Rightarrow> registry \<Rightarrow> registry" where
  "finish err w st =
     (if w_closed (rg_watchers st ! w) then st
      else st\<lparr>rg_watchers := (rg_watchers st)[w := (rg_watchers st ! w)\<lparr>w_closed := True, w_err := err\<rparr>]\<rparr>)"

definition newSubscription :: "nat \<Rightarrow> registry \<Rightarrow> nat \<times> registry" where
  "newSubscription i st =
     (let sw = rg_shared st ! i;
          w = \<lparr>w_closed = sw_terminal sw, w_err = (if sw_terminal sw then sw_terminalErr sw else None),
            w_errCh = (if sw_terminal sw then [] else case sw_streamErr sw of None \<Rightarrow> [] | Some e \<Rightarrow> [e]), w_shared = i\<rparr>;
          n = length (rg_watchers st)
      in (n, st\<lparr>rg_watchers := rg_watchers st @ [w],
             rg_shared := (rg_shared st)[i := sw\<lparr>sw_subscribers := sw_subscribers sw @ [n]\<rparr>]\<rparr>))"

definition finishAll :: "nat \<Rightarrow> watch_err option \<Rightarrow> registry \<Rightarrow> registry" where
  "finishAll i err st =
     (let sw = rg_shared st ! i
      in if sw_terminal sw then st
         else fold (finish err) (sw_subscribers sw)
           (st\<lparr>rg_shared := (rg_shared st)[i := sw\<lparr>sw_terminal := True, sw_terminalErr := err\<rparr>]\<rparr>))"

datatype task_event = TaskPut "Task option" | TaskDelete | TaskError string | TaskUnknown

definition handleEvent :: "nat \<Rightarrow> task_event \<Rightarrow> registry \<Rightarrow> string option \<times> registry" where
  "handleEvent i e st =
     (case e of
        TaskDelete \<Rightarrow> (None, finishAll i (Some ErrTaskCanceled) st)
      | TaskError err \<Rightarrow> (Some err, st)
      | TaskPut None \<Rightarrow> (None, st)
      | TaskPut (Some t) \<Rightarrow> (None,
          if t_Status t = StatusCanceled \<or> t_Status t = StatusCanceling then finishAll i (Some ErrTaskCanceled) st
          else if t_Status t = StatusFailed then finishAll i (Some ErrTaskFailed) st
          else if t_Status t = StatusCompleted then finishAll i None st
          else st)
      | TaskUnknown \<Rightarrow> (None, st))"

text \<open>The body of \<^verbatim>\<open>shutdownOnce\<close>; a stream that is not live has been shut down before.\<close>

definition shutdown :: "nat \<Rightarrow> registry \<Rightarrow> registry" where
  "shutdown i st =
     (if \<not> sw_live (rg_shared st ! i) then st
      else st\<lparr>rg_entries := gm_delete (rg_entries st) (sw_taskID (rg_shared st ! i)),
             rg_shared := (rg_shared st)[i := (rg_shared st ! i)\<lparr>sw_live := False\<rparr>]\<rparr>)"

text \<open>A channel of capacity one that is full keeps its value.\<close>

definition send_err :: "string \<Rightarrow> nat \<Rightarrow> registry \<Rightarrow> registry" where
  "send_err err w st =
     (if w_errCh (rg_watchers st ! w) = []
      then st\<lparr>rg_watchers := (rg_watchers st)[w := (rg_watchers st ! w)\<lparr>w_errCh := [err]\<rparr>]\<rparr> else st)"

definition propagateErrors :: "nat \<Rightarrow> string \<Rightarrow> bool \<Rightarrow> registry \<Rightarrow> registry" where
  "propagateErrors i err isCanceled st =
     (if isCanceled then st
      else let sw = rg_shared st ! i
        in shutdown i (fold (send_err err) (sw_subscribers sw)
             (st\<lparr>rg_shared := (rg_shared st)[i := sw\<lparr>sw_streamErr := Some err\<rparr>]\<rparr>)))"

text \<open>\<^verbatim>\<open>release\<close> up to its unlock: the number of subscriptions that remain.\<close>

definition release_remove :: "nat \<Rightarrow> registry \<Rightarrow> nat \<times> registry" where
  "release_remove w st =
     (let i = w_shared (rg_watchers st ! w); sw = rg_shared st ! i; subs = remove1 w (sw_subscribers sw)
      in (length subs, st\<lparr>rg_shared := (rg_shared st)[i := sw\<lparr>sw_subscribers := subs\<rparr>]\<rparr>))"

text \<open>The events that \<^verbatim>\<open>Watch\<close> passes to the handler before it returns, up to the first error.\<close>

fun load_events :: "nat \<Rightarrow> task_event list \<Rightarrow> registry \<Rightarrow> string option \<times> registry" where
  "load_events i [] st = (None, st)"
| "load_events i (e # es) st =
     (case handleEvent i e st of (Some err, st1) \<Rightarrow> (Some err, st1) | (None, st1) \<Rightarrow> load_events i es st1)"

definition acquire :: "uuid \<Rightarrow> (string, task_event list) res \<Rightarrow> registry \<Rightarrow> (string, nat) res \<times> registry" where
  "acquire taskID loaded st =
     (case gm_get (rg_entries st) taskID of
        Some i \<Rightarrow> (let (w, st1) = newSubscription i st in (Inr w, st1))
      | None \<Rightarrow>
          (let i = length (rg_shared st);
               st1 = st\<lparr>rg_shared := rg_shared st @ [\<lparr>sw_subscribers = [], sw_terminal = False, sw_terminalErr = None,
                 sw_streamErr = None, sw_taskID = taskID, sw_live = False\<rparr>]\<rparr>;
               (w, st2) = newSubscription i st1
           in case loaded of
             Inl e \<Rightarrow> (Inl e, st)
           | Inr es \<Rightarrow> (case load_events i es st2 of
               (Some e, st3) \<Rightarrow> (Inl e, st)
             | (None, st3) \<Rightarrow> (Inr w, st3\<lparr>rg_entries := gm_put (rg_entries st3) taskID i,
                 rg_shared := (rg_shared st3)[i := (rg_shared st3 ! i)\<lparr>sw_live := True\<rparr>]\<rparr>))))"

section \<open>Runs\<close>

inductive watch_step :: "registry \<Rightarrow> registry \<Rightarrow> bool" where
  acquire: "watch_step st (snd (acquire taskID loaded st))"
| event: "i < length (rg_shared st) \<Longrightarrow> sw_live (rg_shared st ! i) \<Longrightarrow> watch_step st (snd (handleEvent i e st))"
| stream: "i < length (rg_shared st) \<Longrightarrow> sw_live (rg_shared st ! i) \<Longrightarrow> watch_step st (propagateErrors i err isCanceled st)"
| close_remove: "w < length (rg_watchers st) \<Longrightarrow> release_remove w st = (remaining, st1) \<Longrightarrow>
    watch_step st (if remaining = 0 then st1\<lparr>rg_pending := w_shared (rg_watchers st ! w) # rg_pending st1\<rparr> else st1)"
| close_shutdown: "i \<in> set (rg_pending st) \<Longrightarrow> watch_step st (shutdown i (st\<lparr>rg_pending := remove1 i (rg_pending st)\<rparr>))"

inductive_cases watch_stepE: "watch_step st st'"

text \<open>
  Subscriptions agree with their shared watcher, and the registry holds exactly the live ones.
\<close>

definition subscribed :: "registry \<Rightarrow> bool" where
  "subscribed st \<longleftrightarrow> (\<forall>i < length (rg_shared st). \<forall>w \<in> set (sw_subscribers (rg_shared st ! i)).
     w < length (rg_watchers st) \<and> w_shared (rg_watchers st ! w) = i \<and>
     w_closed (rg_watchers st ! w) = sw_terminal (rg_shared st ! i) \<and>
     (sw_terminal (rg_shared st ! i) \<longrightarrow> w_err (rg_watchers st ! w) = sw_terminalErr (rg_shared st ! i)))"

definition registered :: "registry \<Rightarrow> bool" where
  "registered st \<longleftrightarrow> (\<forall>i < length (rg_shared st). sw_live (rg_shared st ! i) \<longleftrightarrow>
       gm_get (rg_entries st) (sw_taskID (rg_shared st ! i)) = Some i) \<and>
     (\<forall>t i. gm_get (rg_entries st) t = Some i \<longrightarrow> i < length (rg_shared st) \<and> sw_taskID (rg_shared st ! i) = t) \<and>
     (\<forall>i \<in> set (rg_pending st). i < length (rg_shared st)) \<and>
     (\<forall>w < length (rg_watchers st). w_shared (rg_watchers st ! w) < length (rg_shared st))"

lemma finish_fields [simp]:
  "rg_shared (finish err w st) = rg_shared st" "rg_entries (finish err w st) = rg_entries st"
  "rg_pending (finish err w st) = rg_pending st" "length (rg_watchers (finish err w st)) = length (rg_watchers st)"
  by (simp_all add: finish_def)

lemma finish_nth:
  "v < length (rg_watchers st) \<Longrightarrow> rg_watchers (finish err w st) ! v =
     (if v = w \<and> \<not> w_closed (rg_watchers st ! v) then (rg_watchers st ! v)\<lparr>w_closed := True, w_err := err\<rparr> else rg_watchers st ! v)"
  by (auto simp: finish_def nth_list_update)

lemma fold_finish [simp]:
  "rg_shared (fold (finish err) ws st) = rg_shared st" "rg_entries (fold (finish err) ws st) = rg_entries st"
  "rg_pending (fold (finish err) ws st) = rg_pending st"
  "length (rg_watchers (fold (finish err) ws st)) = length (rg_watchers st)"
  by (induction ws arbitrary: st) simp_all

lemma fold_finish_nth:
  "v < length (rg_watchers st) \<Longrightarrow> rg_watchers (fold (finish err) ws st) ! v =
     (if v \<in> set ws \<and> \<not> w_closed (rg_watchers st ! v) then (rg_watchers st ! v)\<lparr>w_closed := True, w_err := err\<rparr> else rg_watchers st ! v)"
  by (induction ws arbitrary: st) (auto simp: finish_nth)

lemma send_err_fields [simp]:
  "rg_shared (send_err err w st) = rg_shared st" "rg_entries (send_err err w st) = rg_entries st"
  "rg_pending (send_err err w st) = rg_pending st" "length (rg_watchers (send_err err w st)) = length (rg_watchers st)"
  by (simp_all add: send_err_def)

lemma send_err_nth:
  assumes "v < length (rg_watchers st)"
  shows "w_closed (rg_watchers (send_err err w st) ! v) = w_closed (rg_watchers st ! v)"
    and "w_err (rg_watchers (send_err err w st) ! v) = w_err (rg_watchers st ! v)"
    and "w_shared (rg_watchers (send_err err w st) ! v) = w_shared (rg_watchers st ! v)"
    and "v \<noteq> w \<Longrightarrow> w_errCh (rg_watchers (send_err err w st) ! v) = w_errCh (rg_watchers st ! v)"
  using assms by (cases "v = w", simp_all add: send_err_def)+

lemma fold_send_err [simp]:
  "rg_shared (fold (send_err err) ws st) = rg_shared st" "rg_entries (fold (send_err err) ws st) = rg_entries st"
  "rg_pending (fold (send_err err) ws st) = rg_pending st"
  "length (rg_watchers (fold (send_err err) ws st)) = length (rg_watchers st)"
  by (induction ws arbitrary: st) simp_all

lemma fold_send_err_nth:
  assumes "v < length (rg_watchers st)"
  shows "w_closed (rg_watchers (fold (send_err err) ws st) ! v) = w_closed (rg_watchers st ! v)"
    and "w_err (rg_watchers (fold (send_err err) ws st) ! v) = w_err (rg_watchers st ! v)"
    and "w_shared (rg_watchers (fold (send_err err) ws st) ! v) = w_shared (rg_watchers st ! v)"
    and "v \<notin> set ws \<Longrightarrow> w_errCh (rg_watchers (fold (send_err err) ws st) ! v) = w_errCh (rg_watchers st ! v)"
  using assms by (induction ws arbitrary: st) (simp_all add: send_err_nth)

section \<open>The invariant\<close>

lemma finishAll_fields [simp]:
  "rg_entries (finishAll i err st) = rg_entries st" "rg_pending (finishAll i err st) = rg_pending st"
  "length (rg_watchers (finishAll i err st)) = length (rg_watchers st)"
  "length (rg_shared (finishAll i err st)) = length (rg_shared st)"
  by (simp_all add: finishAll_def Let_def)

lemma finishAll_shared:
  "j < length (rg_shared st) \<Longrightarrow> sw_live (rg_shared (finishAll i err st) ! j) = sw_live (rg_shared st ! j) \<and>
     sw_taskID (rg_shared (finishAll i err st) ! j) = sw_taskID (rg_shared st ! j) \<and>
     sw_subscribers (rg_shared (finishAll i err st) ! j) = sw_subscribers (rg_shared st ! j) \<and>
     sw_streamErr (rg_shared (finishAll i err st) ! j) = sw_streamErr (rg_shared st ! j)"
  by (cases "j = i") (simp_all add: finishAll_def Let_def)

lemma finishAll_watchers:
  "v < length (rg_watchers st) \<Longrightarrow> w_shared (rg_watchers (finishAll i err st) ! v) = w_shared (rg_watchers st ! v) \<and>
     w_errCh (rg_watchers (finishAll i err st) ! v) = w_errCh (rg_watchers st ! v)"
  by (auto simp: finishAll_def Let_def fold_finish_nth)

lemma subscribed_finishAll:
  assumes "subscribed st" and "i < length (rg_shared st)"
  shows "subscribed (finishAll i err st)"
proof (cases "sw_terminal (rg_shared st ! i)")
  case False
  show ?thesis unfolding subscribed_def
  proof (intro allI impI ballI)
    fix j w assume j: "j < length (rg_shared (finishAll i err st))" and w: "w \<in> set (sw_subscribers (rg_shared (finishAll i err st) ! j))"
    then have "w \<in> set (sw_subscribers (rg_shared st ! j))" "j < length (rg_shared st)" using finishAll_shared [of j st i err] by simp_all
    moreover from this assms(1) have "w < length (rg_watchers st) \<and> w_shared (rg_watchers st ! w) = j \<and>
       w_closed (rg_watchers st ! w) = sw_terminal (rg_shared st ! j) \<and>
       (sw_terminal (rg_shared st ! j) \<longrightarrow> w_err (rg_watchers st ! w) = sw_terminalErr (rg_shared st ! j))"
      by (simp add: subscribed_def)
    moreover have "j \<noteq> i \<Longrightarrow> w \<notin> set (sw_subscribers (rg_shared st ! i))"
      using assms calculation(3) by (auto simp: subscribed_def)
    ultimately show "w < length (rg_watchers (finishAll i err st)) \<and> w_shared (rg_watchers (finishAll i err st) ! w) = j \<and>
       w_closed (rg_watchers (finishAll i err st) ! w) = sw_terminal (rg_shared (finishAll i err st) ! j) \<and>
       (sw_terminal (rg_shared (finishAll i err st) ! j) \<longrightarrow>
         w_err (rg_watchers (finishAll i err st) ! w) = sw_terminalErr (rg_shared (finishAll i err st) ! j))"
      using False by (cases "j = i") (simp_all add: finishAll_def Let_def fold_finish_nth)
  qed
qed (use assms in \<open>simp add: finishAll_def\<close>)

lemma registered_finishAll: "registered st \<Longrightarrow> registered (finishAll i err st)"
  unfolding registered_def using finishAll_shared [of _ st i err] finishAll_watchers [of _ st i err] by auto

lemma handleEvent_inv:
  assumes "subscribed st \<and> registered st" and "i < length (rg_shared st)"
  shows "subscribed (snd (handleEvent i e st)) \<and> registered (snd (handleEvent i e st)) \<and>
    length (rg_shared (snd (handleEvent i e st))) = length (rg_shared st)"
  using assms by (cases e) (auto simp: handleEvent_def subscribed_finishAll registered_finishAll split: option.splits)

lemma load_events_inv:
  assumes "subscribed st \<and> registered st" and "i < length (rg_shared st)" and "load_events i es st = (r, st')"
  shows "subscribed st' \<and> registered st' \<and> length (rg_shared st') = length (rg_shared st)"
  using assms
proof (induction es arbitrary: st)
  case (Cons e es)
  obtain x st1 where x: "handleEvent i e st = (x, st1)" by fastforce
  with handleEvent_inv [OF Cons.prems(1,2), of e] have "subscribed st1 \<and> registered st1" "length (rg_shared st1) = length (rg_shared st)"
    by simp_all
  with Cons.IH [of st1] Cons.prems x show ?case by (cases x) auto
qed simp

text \<open>A new subscription of a shared watcher.\<close>

lemma newSubscription_inv:
  assumes inv: "subscribed st \<and> registered st" and i: "i < length (rg_shared st)"
  shows "subscribed (snd (newSubscription i st)) \<and> registered (snd (newSubscription i st)) \<and>
    length (rg_shared (snd (newSubscription i st))) = length (rg_shared st)"
proof -
  let ?n = "length (rg_watchers st)" and ?st = "snd (newSubscription i st)"
  have sh: "length (rg_shared ?st) = length (rg_shared st)" "length (rg_watchers ?st) = Suc ?n"
    "\<And>j. j < length (rg_shared st) \<Longrightarrow> rg_shared ?st ! j = (if j = i
      then (rg_shared st ! i)\<lparr>sw_subscribers := sw_subscribers (rg_shared st ! i) @ [?n]\<rparr> else rg_shared st ! j)"
    "\<And>v. v < ?n \<Longrightarrow> rg_watchers ?st ! v = rg_watchers st ! v"
    "w_shared (rg_watchers ?st ! ?n) = i" "w_closed (rg_watchers ?st ! ?n) = sw_terminal (rg_shared st ! i)"
    "sw_terminal (rg_shared st ! i) \<Longrightarrow> w_err (rg_watchers ?st ! ?n) = sw_terminalErr (rg_shared st ! i)"
    "rg_entries ?st = rg_entries st" "rg_pending ?st = rg_pending st"
    by (simp_all add: newSubscription_def Let_def nth_append)
  have "subscribed ?st" unfolding subscribed_def
  proof (intro allI impI ballI)
    fix j w assume "j < length (rg_shared ?st)" "w \<in> set (sw_subscribers (rg_shared ?st ! j))"
    then have j: "j < length (rg_shared st)" and w: "w \<in> set (sw_subscribers (rg_shared st ! j)) \<or> w = ?n \<and> j = i"
      using sh(1,3) by (auto split: if_splits)
    from w show "w < length (rg_watchers ?st) \<and> w_shared (rg_watchers ?st ! w) = j \<and>
       w_closed (rg_watchers ?st ! w) = sw_terminal (rg_shared ?st ! j) \<and>
       (sw_terminal (rg_shared ?st ! j) \<longrightarrow> w_err (rg_watchers ?st ! w) = sw_terminalErr (rg_shared ?st ! j))"
    proof
      assume "w \<in> set (sw_subscribers (rg_shared st ! j))"
      then have "w < ?n \<and> w_shared (rg_watchers st ! w) = j \<and> w_closed (rg_watchers st ! w) = sw_terminal (rg_shared st ! j) \<and>
         (sw_terminal (rg_shared st ! j) \<longrightarrow> w_err (rg_watchers st ! w) = sw_terminalErr (rg_shared st ! j))"
        using inv j by (simp add: subscribed_def)
      with j show ?thesis by (cases "j = i") (simp_all add: sh(2-4))
    next
      assume "w = ?n \<and> j = i"
      with sh i show ?thesis by simp
    qed
  qed
  moreover have "registered ?st"
    using inv i unfolding registered_def sh(1,2,8,9) by (auto simp: sh(3,4,5) less_Suc_eq)
  ultimately show ?thesis using sh(1) by blast
qed

lemma shutdown_inv:
  assumes "subscribed st \<and> registered st" and "i < length (rg_shared st)"
  shows "subscribed (shutdown i st) \<and> registered (shutdown i st)"
proof (cases "sw_live (rg_shared st ! i)")
  case True
  have sh: "rg_shared (shutdown i st) ! j = (if j = i then (rg_shared st ! j)\<lparr>sw_live := False\<rparr> else rg_shared st ! j)"
    if "j < length (rg_shared st)" for j using that True by (simp add: shutdown_def)
  have f: "rg_watchers (shutdown i st) = rg_watchers st" "length (rg_shared (shutdown i st)) = length (rg_shared st)"
    "rg_pending (shutdown i st) = rg_pending st"
    "rg_entries (shutdown i st) = gm_delete (rg_entries st) (sw_taskID (rg_shared st ! i))"
    using True by (simp_all add: shutdown_def)
  have "subscribed (shutdown i st)" using assms(1) unfolding subscribed_def f by (auto simp: sh)
  moreover have "registered (shutdown i st)" unfolding registered_def f
  proof (intro conjI allI impI ballI)
    note reg = assms(1) [THEN conjunct2, unfolded registered_def]
    have ent: "gm_get (rg_entries st) (sw_taskID (rg_shared st ! i)) = Some i" using reg assms(2) True by blast
    show "sw_live (rg_shared (shutdown i st) ! j) \<longleftrightarrow> gm_get (gm_delete (rg_entries st) (sw_taskID (rg_shared st ! i)))
        (sw_taskID (rg_shared (shutdown i st) ! j)) = Some j" if j: "j < length (rg_shared st)" for j
    proof (cases "j = i")
      case False
      from reg j have "sw_live (rg_shared st ! j) \<longleftrightarrow> gm_get (rg_entries st) (sw_taskID (rg_shared st ! j)) = Some j" by blast
      with False ent j show ?thesis by (auto simp: sh)
    qed (simp add: sh assms(2))
    fix t j assume "gm_get (gm_delete (rg_entries st) (sw_taskID (rg_shared st ! i))) t = Some j"
    then have "gm_get (rg_entries st) t = Some j" by (simp split: if_splits)
    with reg have j: "j < length (rg_shared st)" "sw_taskID (rg_shared st ! j) = t" by blast+
    then show "j < length (rg_shared st)" "sw_taskID (rg_shared (shutdown i st) ! j) = t"
      by (cases "j = i", simp_all add: sh)+
  qed (use assms(1) in \<open>simp_all add: registered_def\<close>)
  ultimately show ?thesis by blast
qed (use assms in \<open>simp add: shutdown_def\<close>)

lemma propagateErrors_inv:
  assumes "subscribed st \<and> registered st" and "i < length (rg_shared st)"
  shows "subscribed (propagateErrors i err c st) \<and> registered (propagateErrors i err c st)"
proof (cases c)
  case False
  let ?st1 = "st\<lparr>rg_shared := (rg_shared st)[i := (rg_shared st ! i)\<lparr>sw_streamErr := Some err\<rparr>]\<rparr>"
  let ?st2 = "fold (send_err err) (sw_subscribers (rg_shared st ! i)) ?st1"
  have sh: "rg_shared ?st2 ! j = (if j = i then (rg_shared st ! j)\<lparr>sw_streamErr := Some err\<rparr> else rg_shared st ! j)"
    if "j < length (rg_shared st)" for j using that by simp
  have f: "rg_entries ?st2 = rg_entries st" "rg_pending ?st2 = rg_pending st" "length (rg_watchers ?st2) = length (rg_watchers st)"
    "length (rg_shared ?st2) = length (rg_shared st)" by simp_all
  have w: "w_closed (rg_watchers ?st2 ! v) = w_closed (rg_watchers st ! v)" "w_err (rg_watchers ?st2 ! v) = w_err (rg_watchers st ! v)"
    "w_shared (rg_watchers ?st2 ! v) = w_shared (rg_watchers st ! v)" if "v < length (rg_watchers st)" for v
    using that by (simp_all add: fold_send_err_nth)
  have "subscribed ?st2" using assms(1) unfolding subscribed_def f by (auto simp: sh w simp del: fold_send_err)
  moreover have "registered ?st2" using assms(1) unfolding registered_def f by (auto simp: sh w simp del: fold_send_err)
  ultimately show ?thesis using shutdown_inv [of ?st2 i] assms(2) False f(4) by (simp add: propagateErrors_def Let_def)
qed (use assms in \<open>simp add: propagateErrors_def\<close>)

lemma release_remove_inv:
  assumes "subscribed st \<and> registered st" and "w < length (rg_watchers st)" and "release_remove w st = (n, st1)"
  shows "subscribed st1 \<and> registered st1 \<and> w_shared (rg_watchers st ! w) < length (rg_shared st1)"
proof -
  let ?i = "w_shared (rg_watchers st ! w)"
  have i: "?i < length (rg_shared st)" using assms(1,2) by (simp add: registered_def)
  have sh: "rg_shared st1 ! j = (if j = ?i then (rg_shared st ! j)\<lparr>sw_subscribers := remove1 w (sw_subscribers (rg_shared st ! j))\<rparr> else rg_shared st ! j)"
    if "j < length (rg_shared st)" for j using that assms(3) by (auto simp: release_remove_def Let_def)
  have f: "rg_entries st1 = rg_entries st" "rg_pending st1 = rg_pending st" "rg_watchers st1 = rg_watchers st"
    "length (rg_shared st1) = length (rg_shared st)" using assms(3) by (auto simp: release_remove_def Let_def)
  have "subscribed st1" using assms(1) unfolding subscribed_def f
    by (auto simp: sh split: if_splits dest: notin_set_remove1 [THEN contrapos_pp])
  moreover have "registered st1" using assms(1) unfolding registered_def f by (auto simp: sh)
  ultimately show ?thesis using i f(4) by simp
qed

lemma handleEvent_keeps:
  assumes "handleEvent i e st = (r, st')"
  shows "rg_entries st' = rg_entries st \<and> length (rg_shared st') = length (rg_shared st) \<and>
    (\<forall>j < length (rg_shared st). sw_taskID (rg_shared st' ! j) = sw_taskID (rg_shared st ! j))"
proof -
  have "st' = st \<or> (\<exists>err. st' = finishAll i err st)"
    using assms by (cases e) (auto simp: handleEvent_def split: option.splits if_splits)
  then show ?thesis using finishAll_shared [of _ st i] by auto
qed

lemma load_events_keeps:
  assumes "load_events i es st = (r, st')"
  shows "rg_entries st' = rg_entries st \<and> length (rg_shared st') = length (rg_shared st) \<and>
    (\<forall>j < length (rg_shared st). sw_taskID (rg_shared st' ! j) = sw_taskID (rg_shared st ! j))"
  using assms
proof (induction es arbitrary: st)
  case (Cons e es)
  obtain x st1 where x: "handleEvent i e st = (x, st1)" by fastforce
  with handleEvent_keeps [OF x] Cons.IH [of st1] Cons.prems show ?case by (cases x) auto
qed simp

text \<open>Registering a watcher that is not live yet.\<close>

lemma register_inv:
  assumes inv: "subscribed st" "registered st" and i: "i < length (rg_shared st)" "sw_taskID (rg_shared st ! i) = t"
    and new: "gm_get (rg_entries st) t = None"
  shows "subscribed (st\<lparr>rg_entries := gm_put (rg_entries st) t i, rg_shared := (rg_shared st)[i := (rg_shared st ! i)\<lparr>sw_live := True\<rparr>]\<rparr>)"
    and "registered (st\<lparr>rg_entries := gm_put (rg_entries st) t i, rg_shared := (rg_shared st)[i := (rg_shared st ! i)\<lparr>sw_live := True\<rparr>]\<rparr>)"
proof -
  let ?sh = "(rg_shared st)[i := (rg_shared st ! i)\<lparr>sw_live := True\<rparr>]"
  have sh: "?sh ! j = (if j = i then (rg_shared st ! j)\<lparr>sw_live := True\<rparr> else rg_shared st ! j)" if "j < length (rg_shared st)" for j
    using that by simp
  show "subscribed (st\<lparr>rg_entries := gm_put (rg_entries st) t i, rg_shared := ?sh\<rparr>)"
    using inv(1) unfolding subscribed_def by (auto simp: sh nth_list_update)
  note reg = inv(2) [unfolded registered_def]
  let ?st = "st\<lparr>rg_entries := gm_put (rg_entries st) t i, rg_shared := ?sh\<rparr>"
  have f: "rg_entries ?st = gm_put (rg_entries st) t i" "rg_shared ?st = ?sh" "rg_pending ?st = rg_pending st"
    "rg_watchers ?st = rg_watchers st" "length ?sh = length (rg_shared st)" by simp_all
  show "registered (st\<lparr>rg_entries := gm_put (rg_entries st) t i, rg_shared := ?sh\<rparr>)"
    unfolding registered_def f
  proof (intro conjI allI impI ballI)
    show "sw_live (?sh ! j) \<longleftrightarrow> gm_get (gm_put (rg_entries st) t i) (sw_taskID (?sh ! j)) = Some j"
      if j: "j < length (rg_shared st)" for j
    proof (cases "j = i")
      case False
      from reg j have "sw_live (rg_shared st ! j) \<longleftrightarrow> gm_get (rg_entries st) (sw_taskID (rg_shared st ! j)) = Some j" by blast
      with False new j show ?thesis by auto
    qed (use i in simp)
    fix u j assume u: "gm_get (gm_put (rg_entries st) t i) u = Some j"
    then have "u = t \<and> j = i \<or> gm_get (rg_entries st) u = Some j" by (simp split: if_splits)
    then have "j < length (rg_shared st) \<and> sw_taskID (rg_shared st ! j) = u" using reg i by blast
    then show "j < length (rg_shared st)" "sw_taskID (?sh ! j) = u" by (cases "j = i", simp_all)+
  qed (use reg in simp_all)
qed

lemma acquire_inv:
  assumes inv: "subscribed st \<and> registered st"
  shows "subscribed (snd (acquire t loaded st)) \<and> registered (snd (acquire t loaded st))"
proof (cases "gm_get (rg_entries st) t")
  case (Some i)
  then have "i < length (rg_shared st)" using inv by (simp add: registered_def)
  from newSubscription_inv [OF inv this] Some show ?thesis by (cases "newSubscription i st") (simp add: acquire_def)
next
  case None
  let ?sw = "\<lparr>sw_subscribers = [], sw_terminal = False, sw_terminalErr = None, sw_streamErr = None, sw_taskID = t, sw_live = False\<rparr>"
  let ?i = "length (rg_shared st)" and ?st1 = "st\<lparr>rg_shared := rg_shared st @ [?sw]\<rparr>"
  have "subscribed ?st1" using inv by (auto simp: subscribed_def nth_append less_Suc_eq)
  moreover have f: "rg_entries ?st1 = rg_entries st" "rg_shared ?st1 = rg_shared st @ [?sw]" "rg_pending ?st1 = rg_pending st"
    "rg_watchers ?st1 = rg_watchers st" by simp_all
  have "registered ?st1" unfolding registered_def f
  proof (intro conjI allI impI ballI)
    note reg = inv [THEN conjunct2, unfolded registered_def]
    show "sw_live ((rg_shared st @ [?sw]) ! j) \<longleftrightarrow> gm_get (rg_entries st) (sw_taskID ((rg_shared st @ [?sw]) ! j)) = Some j"
      if "j < length (rg_shared st @ [?sw])" for j
      using that reg None by (cases "j = ?i") (auto simp: nth_append less_Suc_eq)
    fix u j assume "gm_get (rg_entries st) u = Some j"
    with reg have "j < length (rg_shared st) \<and> sw_taskID (rg_shared st ! j) = u" by blast
    then show "j < length (rg_shared st @ [?sw])" "sw_taskID ((rg_shared st @ [?sw]) ! j) = u" by (simp_all add: nth_append)
  qed (use inv in \<open>auto simp: registered_def less_Suc_eq\<close>)
  ultimately have inv1: "subscribed ?st1 \<and> registered ?st1" by blast
  obtain w st2 where w: "newSubscription ?i ?st1 = (w, st2)" by fastforce
  with newSubscription_inv [OF inv1, of ?i] have inv2: "subscribed st2 \<and> registered st2" "?i < length (rg_shared st2)" by simp_all
  have st2: "rg_entries st2 = rg_entries st" "sw_taskID (rg_shared st2 ! ?i) = t"
    using w by (auto simp: newSubscription_def Let_def)
  show ?thesis
  proof (cases loaded)
    case (Inr es)
    obtain r st3 where r: "load_events ?i es st2 = (r, st3)" by fastforce
    note inv3 = load_events_inv [OF inv2 r] and k = load_events_keeps [OF r]
    have "subscribed st3" "registered st3" "?i < length (rg_shared st3)" "sw_taskID (rg_shared st3 ! ?i) = t"
      "gm_get (rg_entries st3) t = None" using inv3 k inv2(2) st2 None by auto
    from register_inv [OF this] show ?thesis using None w Inr r inv by (cases r) (simp_all add: acquire_def Let_def)
  qed (use None w inv in \<open>simp add: acquire_def Let_def\<close>)
qed

lemma watch_step_inv:
  assumes "watch_step st st'" and inv: "subscribed st \<and> registered st"
  shows "subscribed st' \<and> registered st'"
  using assms(1)
proof (cases rule: watch_step.cases)
  case (acquire t loaded)
  with acquire_inv [OF inv] show ?thesis by simp
next
  case (event i e)
  with handleEvent_inv [OF inv] show ?thesis by simp
next
  case (stream i err c)
  with propagateErrors_inv [OF inv] show ?thesis by simp
next
  case (close_remove w n st1)
  with release_remove_inv [OF inv, of w n st1] show ?thesis by (auto simp: subscribed_def registered_def)
next
  case (close_shutdown i)
  let ?st = "st\<lparr>rg_pending := remove1 i (rg_pending st)\<rparr>"
  have "subscribed ?st \<and> registered ?st" using inv set_remove1_subset [of i "rg_pending st"] by (auto simp: subscribed_def registered_def)
  moreover have "i < length (rg_shared ?st)" using inv close_shutdown by (simp add: registered_def)
  ultimately show ?thesis using shutdown_inv close_shutdown by simp
qed

lemma empty_registry_inv: "subscribed newWatcherRegistry \<and> registered newWatcherRegistry"
  by (simp add: newWatcherRegistry_def subscribed_def registered_def)

lemma reachable_inv: "watch_step\<^sup>*\<^sup>* newWatcherRegistry st \<Longrightarrow> subscribed st \<and> registered st"
  by (induction rule: rtranclp_induct) (use empty_registry_inv watch_step_inv in blast)+

text \<open>
  C25. Subscribers of a task agree. In every run, each subscription of a shared watcher is done exactly when
  the watcher has seen the end of the task, with the same outcome for all of them; a task has at most one
  live watch stream, and the registry holds exactly the live ones.
\<close>
theorem subscribers_agree:
  assumes "watch_step\<^sup>*\<^sup>* newWatcherRegistry st"
  shows "subscribed st \<and> registered st \<and>
    (\<forall>i j. i < length (rg_shared st) \<and> j < length (rg_shared st) \<and> sw_live (rg_shared st ! i) \<and> sw_live (rg_shared st ! j) \<and>
       sw_taskID (rg_shared st ! i) = sw_taskID (rg_shared st ! j) \<longrightarrow> i = j)"
proof -
  note inv = reachable_inv [OF assms]
  then have "i = j" if "i < length (rg_shared st)" "j < length (rg_shared st)" "sw_live (rg_shared st ! i)" "sw_live (rg_shared st ! j)"
      "sw_taskID (rg_shared st ! i) = sw_taskID (rg_shared st ! j)" for i j
    using that unfolding registered_def by (metis option.inject)
  with inv show ?thesis by blast
qed

theorem subscribers_agree_witness:
  "watch_step\<^sup>*\<^sup>* newWatcherRegistry (snd (acquire ''t'' (Inr []) newWatcherRegistry)) \<and>
   registered (snd (acquire ''t'' (Inr []) newWatcherRegistry)) \<and> subscribed (snd (acquire ''t'' (Inr []) newWatcherRegistry))"
proof -
  have "watch_step\<^sup>*\<^sup>* newWatcherRegistry (snd (acquire ''t'' (Inr []) newWatcherRegistry))"
    by (intro r_into_rtranclp watch_step.acquire)
  with subscribers_agree [OF this] show ?thesis by blast
qed

section \<open>A lost subscription\<close>

text \<open>An open subscription whose stream has been shut down.\<close>

definition lost :: "nat \<Rightarrow> registry \<Rightarrow> bool" where
  "lost w st \<longleftrightarrow> w < length (rg_watchers st) \<and> w_shared (rg_watchers st ! w) < length (rg_shared st) \<and>
     \<not> sw_live (rg_shared st ! w_shared (rg_watchers st ! w)) \<and> \<not> w_closed (rg_watchers st ! w) \<and> w_errCh (rg_watchers st ! w) = []"

lemma handleEvent_others:
  assumes "handleEvent j e st = (r, st')" and "w \<notin> set (sw_subscribers (rg_shared st ! j))" and "w < length (rg_watchers st)"
    and "j < length (rg_shared st)"
  shows "rg_watchers st' ! w = rg_watchers st ! w \<and> length (rg_watchers st') = length (rg_watchers st) \<and>
    length (rg_shared st') = length (rg_shared st) \<and> (\<forall>i < length (rg_shared st). sw_live (rg_shared st' ! i) = sw_live (rg_shared st ! i) \<and>
      sw_subscribers (rg_shared st' ! i) = sw_subscribers (rg_shared st ! i))"
proof -
  have fin: "rg_watchers (finishAll j err st) ! w = rg_watchers st ! w" for err
    using assms(2,3) by (simp add: finishAll_def Let_def fold_finish_nth)
  have "st' = st \<or> (\<exists>err. st' = finishAll j err st)"
    using assms(1) by (cases e) (auto simp: handleEvent_def split: option.splits if_splits)
  then show ?thesis using fin finishAll_shared [of _ st j] by auto
qed

lemma load_events_others:
  assumes "load_events j es st = (r, st')" and "w \<notin> set (sw_subscribers (rg_shared st ! j))" and "w < length (rg_watchers st)"
    and "j < length (rg_shared st)"
  shows "rg_watchers st' ! w = rg_watchers st ! w \<and> length (rg_watchers st') = length (rg_watchers st) \<and>
    length (rg_shared st') = length (rg_shared st) \<and> (\<forall>i < length (rg_shared st). sw_live (rg_shared st' ! i) = sw_live (rg_shared st ! i))"
  using assms
proof (induction es arbitrary: st)
  case (Cons e es)
  obtain x st1 where x: "handleEvent j e st = (x, st1)" by fastforce
  note o = handleEvent_others [OF x Cons.prems(2-4)]
  show ?case
  proof (cases x)
    case None
    with Cons.prems(1) x have "load_events j es st1 = (r, st')" by simp
    from Cons.IH [OF this] o Cons.prems(2-4) show ?thesis by simp
  qed (use Cons.prems(1) x o in simp)
qed simp

lemma lost_acquire:
  assumes "lost w st" and inv: "registered st"
  shows "lost w (snd (acquire t loaded st))"
proof (cases "gm_get (rg_entries st) t")
  case (Some j)
  with inv have "j < length (rg_shared st)" by (simp add: registered_def)
  with assms(1) Some show ?thesis
    by (cases "j = w_shared (rg_watchers st ! w)") (auto simp: acquire_def newSubscription_def Let_def lost_def nth_append nth_list_update)
next
  case None
  let ?sw = "\<lparr>sw_subscribers = [], sw_terminal = False, sw_terminalErr = None, sw_streamErr = None, sw_taskID = t, sw_live = False\<rparr>"
  let ?i = "length (rg_shared st)" and ?st1 = "st\<lparr>rg_shared := rg_shared st @ [?sw]\<rparr>"
  obtain n st2 where n: "newSubscription ?i ?st1 = (n, st2)" by fastforce
  have st2: "rg_watchers st2 ! w = rg_watchers st ! w" "w < length (rg_watchers st2)" "length (rg_shared st2) = Suc ?i"
    "sw_subscribers (rg_shared st2 ! ?i) = [length (rg_watchers st)]" "\<And>j. j < ?i \<Longrightarrow> rg_shared st2 ! j = rg_shared st ! j"
    using n assms(1) by (auto simp: newSubscription_def Let_def nth_append lost_def)
  have w: "w < length (rg_watchers st)" "w_shared (rg_watchers st ! w) < ?i" using assms(1) by (simp_all add: lost_def)
  show ?thesis
  proof (cases loaded)
    case (Inr es)
    obtain r st3 where r: "load_events ?i es st2 = (r, st3)" by fastforce
    have "rg_watchers st3 ! w = rg_watchers st2 ! w \<and> length (rg_watchers st3) = length (rg_watchers st2) \<and>
        length (rg_shared st3) = length (rg_shared st2) \<and> (\<forall>i < length (rg_shared st2). sw_live (rg_shared st3 ! i) = sw_live (rg_shared st2 ! i))"
      using st2 w by (intro load_events_others [OF r]) simp_all
    with st2 w assms(1) None n Inr r show ?thesis by (cases r) (simp_all add: acquire_def Let_def lost_def)
  qed (use None n assms(1) in \<open>simp add: acquire_def Let_def\<close>)
qed

lemma lost_step:
  assumes "watch_step st st'" and lost: "lost w st" and inv: "subscribed st \<and> registered st"
  shows "lost w st'"
proof -
  let ?i = "w_shared (rg_watchers st ! w)"
  have other: "w \<notin> set (sw_subscribers (rg_shared st ! j))" if "j < length (rg_shared st)" "sw_live (rg_shared st ! j)" for j
    using that lost inv by (auto simp: subscribed_def lost_def)
  show ?thesis using assms(1)
  proof (cases rule: watch_step.cases)
    case (acquire t loaded)
    with lost_acquire [OF lost] inv show ?thesis by simp
  next
    case (event j e)
    obtain r st1 where r: "handleEvent j e st = (r, st1)" by fastforce
    with event handleEvent_others [OF r other] lost show ?thesis by (auto simp: lost_def)
  next
    case (stream j err c)
    have j: "j \<noteq> ?i" using stream lost by (auto simp: lost_def)
    show ?thesis
    proof (cases c)
      case False
      let ?st1 = "st\<lparr>rg_shared := (rg_shared st)[j := (rg_shared st ! j)\<lparr>sw_streamErr := Some err\<rparr>]\<rparr>"
      let ?st2 = "fold (send_err err) (sw_subscribers (rg_shared st ! j)) ?st1"
      have "lost w ?st2" using lost j other [OF stream(2,3)] by (simp add: lost_def fold_send_err_nth)
      moreover have "w_shared (rg_watchers ?st2 ! w) = ?i" using lost by (simp add: lost_def fold_send_err_nth)
      ultimately have "lost w (shutdown j ?st2)" using j by (simp add: lost_def shutdown_def)
      then show ?thesis using stream False by (simp add: propagateErrors_def Let_def)
    qed (use stream lost in \<open>simp add: propagateErrors_def\<close>)
  next
    case (close_remove v n st1)
    then show ?thesis using lost by (cases "w_shared (rg_watchers st ! v) = ?i") (auto simp: release_remove_def Let_def lost_def)
  next
    case (close_shutdown j)
    then show ?thesis using lost by (cases "j = ?i") (auto simp: shutdown_def lost_def)
  qed
qed

lemma lost_forever:
  assumes "watch_step\<^sup>*\<^sup>* st st'" and "lost w st" and "subscribed st \<and> registered st"
  shows "lost w st'"
  using assms(1)
proof (induction rule: rtranclp_induct)
  case (step y z)
  have "subscribed y \<and> registered y" using step(1) assms(3) by (induction rule: rtranclp_induct) (auto dest: watch_step_inv)
  with step lost_step show ?case by blast
qed (use assms(2) in simp)

text \<open>
  The race: the last subscription is removed, another one is acquired from the same registry entry, and then
  the pending shutdown stops the stream that the new one relies on.
\<close>

definition raced :: registry where
  "raced =
     (let st1 = snd (acquire ''t'' (Inr []) newWatcherRegistry);
          st2 = (snd (release_remove 0 st1))\<lparr>rg_pending := [0]\<rparr>;
          st3 = snd (acquire ''t'' (Inr []) st2)
      in shutdown 0 (st3\<lparr>rg_pending := []\<rparr>))"

lemmas run_defs = acquire_def newSubscription_def newWatcherRegistry_def release_remove_def shutdown_def Let_def

lemma raced_reachable: "watch_step\<^sup>*\<^sup>* newWatcherRegistry raced"
proof -
  let ?st1 = "snd (acquire ''t'' (Inr []) newWatcherRegistry)"
  let ?st2 = "(snd (release_remove 0 ?st1))\<lparr>rg_pending := [0]\<rparr>"
  let ?st3 = "snd (acquire ''t'' (Inr []) ?st2)"
  have "watch_step newWatcherRegistry ?st1" by (rule watch_step.acquire)
  moreover have "watch_step ?st1 ?st2"
    using watch_step.close_remove [of 0 ?st1 0 "snd (release_remove 0 ?st1)"] by (simp add: run_defs)
  moreover have "watch_step ?st2 ?st3" by (rule watch_step.acquire)
  moreover have "watch_step ?st3 (shutdown 0 (?st3\<lparr>rg_pending := []\<rparr>))"
    using watch_step.close_shutdown [of 0 ?st3] by (simp add: run_defs)
  ultimately have "watch_step\<^sup>*\<^sup>* newWatcherRegistry (shutdown 0 (?st3\<lparr>rg_pending := []\<rparr>))"
    by (meson rtranclp.rtrancl_into_rtrancl rtranclp.rtrancl_refl)
  then show ?thesis by (simp add: raced_def Let_def)
qed

text \<open>
  C39. \<^verbatim>\<open>release\<close> loses subscriptions. There is a run after which a subscription that was acquired without an
  error and never closed is neither done nor has an error, and stays so whatever happens next, the end of the
  task included.
\<close>
theorem release_race_loses_watcher:
  "\<exists>st w. watch_step\<^sup>*\<^sup>* newWatcherRegistry st \<and> w \<in> set (sw_subscribers (rg_shared st ! w_shared (rg_watchers st ! w))) \<and>
     (\<forall>st'. watch_step\<^sup>*\<^sup>* st st' \<longrightarrow> \<not> w_closed (rg_watchers st' ! w) \<and> w_errCh (rg_watchers st' ! w) = [])"
proof (intro exI conjI allI impI)
  have lost: "lost 1 raced" by (simp add: raced_def run_defs lost_def)
  show "1 \<in> set (sw_subscribers (rg_shared raced ! w_shared (rg_watchers raced ! 1)))"
    by (simp add: raced_def run_defs)
  fix st' assume "watch_step\<^sup>*\<^sup>* raced st'"
  from lost_forever [OF this lost reachable_inv [OF raced_reachable]]
  show "\<not> w_closed (rg_watchers st' ! 1)" and "w_errCh (rg_watchers st' ! 1) = []" by (simp_all add: lost_def)
qed (rule raced_reachable)

theorem release_race_loses_watcher_witness:
  "\<exists>st w. watch_step\<^sup>*\<^sup>* newWatcherRegistry st \<and> w \<in> set (sw_subscribers (rg_shared st ! w_shared (rg_watchers st ! w))) \<and>
     \<not> w_closed (rg_watchers st ! w) \<and> w_errCh (rg_watchers st ! w) = []"
  using release_race_loses_watcher by blast

end
