(* ===== verification/Spec2Isabelle.thy ===== *)
theory Spec2Isabelle
  imports Ds_Set Ds_Version Topo_Sort Resource_State Resource_Graph Plan_Correct Resource_Event Operations_Nodes State_Migrations
    Storage_Keys Storage_Txn Ipam_Service Election Task_Store Task_Watcher
begin

text \<open>
  Verification of the pgEdge control plane, a Go server that manages distributed PostgreSQL databases on
  a set of hosts. Paths below are relative to \<^verbatim>\<open>server/internal\<close> of the sources.

  \<^bold>\<open>The program.\<close> The control plane describes a database as a state, a set of resources with dependencies
  (\<^verbatim>\<open>resource\<close>), built from the nodes of its specification (\<^verbatim>\<open>database/operations\<close>). It compares the current state with a desired one and computes a plan, phases of events
  that create, update and delete resources in dependency order. States, tasks, allocations and
  leadership claims are kept in etcd (\<^verbatim>\<open>storage\<close>), which all hosts share; the services on top of it
  allocate ports (\<^verbatim>\<open>ports\<close>) and subnets (\<^verbatim>\<open>ipam\<close>), elect leaders (\<^verbatim>\<open>election\<close>) and keep and watch tasks
  (\<^verbatim>\<open>task\<close>).

  \<^bold>\<open>The theories.\<close>

  \<^item> CP_Prelude: results of fallible functions as sums (\<^verbatim>\<open>res\<close>, with \<^verbatim>\<open>Inl\<close> the error), Go maps as
  association lists with distinct keys (\<^verbatim>\<open>gomap\<close>), Go's sorting and string functions.

  \<^item> Ds_Set, Ds_Version (\<^verbatim>\<open>ds/set.go\<close>, \<^verbatim>\<open>ds/versions.go\<close>): the map-based set refines mathematical sets
  (locale \<^verbatim>\<open>go_set\<close>); versions with 64-bit components are parsed and printed back.

  \<^item> Resource_State (\<^verbatim>\<open>resource/resource.go\<close>, \<^verbatim>\<open>resource/state.go\<close>): the record \<^verbatim>\<open>state\<close> is the struct
  \<^verbatim>\<open>State\<close>, with one definition per method; it refines a map from identifiers to resource data (locale
  \<^verbatim>\<open>resource_map\<close>) and all operations keep it well formed.

  \<^item> Topo_Sort (\<^verbatim>\<open>resource/topo.go\<close>): the layered sort returns, its layers are exactly the layers of an
  acyclic graph, and a cycle is reported. Its loop is a partial function; that it returns is part of the
  theorem.

  \<^item> Resource_Graph (\<^verbatim>\<open>State.graph\<close>, \<^verbatim>\<open>topoIter\<close>, \<^verbatim>\<open>CreationOrdered\<close>, \<^verbatim>\<open>DeletionOrdered\<close> of
  \<^verbatim>\<open>resource/state.go\<close>): the traversal orders put dependencies first or last. The graph library gonum is
  a record of operations with the locale \<^verbatim>\<open>gonum_graph\<close> for its documented behaviour; the orders of map
  iterations are arguments.

  \<^item> Resource_Plan, Plan_Correct (\<^verbatim>\<open>Plan\<close>, \<^verbatim>\<open>PlanAll\<close>, \<^verbatim>\<open>PlanRefresh\<close>): the order and the contents of a
  plan, the state that it reaches, that planning returns, and that a second plan is empty. The JSON diff
  is an argument.

  \<^item> Resource_Event (\<^verbatim>\<open>resource/event.go\<close>, \<^verbatim>\<open>resource/summary.go\<close>): the life cycle of events, failures
  included, the registry of resource types and plan summaries.

  \<^item> Db_Resource, Operations, Operations_Correct, Operations_Nodes (\<^verbatim>\<open>database/*_resource.go\<close>,
  \<^verbatim>\<open>database/operations\<close>): the resources of databases as the planner sees them, and the operations that
  turn a set of nodes into a sequence of plans. The plans of an update reach the end state and delete only
  at the end, the end state connects all nodes, and new nodes are populated without losing writes. The
  resources that an orchestrator supplies, the lifecycle methods and the JSON form are arguments.

  \<^item> State_Migrations (\<^verbatim>\<open>resource/service.go\<close>): stored states are upgraded in the order of the versions.

  \<^item> Storage_Keys, Storage_Codec, Storage_Etcd, Storage_Ops (\<^verbatim>\<open>storage/key.go\<close>, \<^verbatim>\<open>put.go\<close>, \<^verbatim>\<open>get.go\<close>,
  \<^verbatim>\<open>delete.go\<close>): keys of different entities differ, stored values are read back, conditional writes
  refine compare-and-swap. The etcd client is a record of its calls over a world state; the locale
  \<^verbatim>\<open>etcd_server\<close> states what a linearizable server does when other clients write at any time (the
  relation \<^verbatim>\<open>rely\<close>), and \<^verbatim>\<open>json_gzip\<close> states that the encodings are read back. Both are interpreted on
  concrete functions.

  \<^item> Storage_Cache, Storage_Txn (\<^verbatim>\<open>storage/cache.go\<close>, \<^verbatim>\<open>watch.go\<close>, \<^verbatim>\<open>txn.go\<close>): the write-through cache
  agrees with the history of the store, and a transaction commits all operations or none.

  \<^item> Storage_Optimistic: the read-change-update pattern on one key (locale \<^verbatim>\<open>optimistic_key\<close>), which the
  services below extend.

  \<^item> Ports, Ports_Service (\<^verbatim>\<open>ports/ports.go\<close>, \<^verbatim>\<open>ports/service.go\<close>): the bitmap refines a set of ports, and
  no port is handed out twice, whatever other hosts do.

  \<^item> Ipam_Subnet, Ipam_Service (\<^verbatim>\<open>ipam/subnet.go\<close>, \<^verbatim>\<open>ipam/service.go\<close>): the same for subnets, over
  \<^verbatim>\<open>net/netip\<close> addresses and 64-bit sizes that can overflow.

  \<^item> Election (\<^verbatim>\<open>election/candidate.go\<close>, \<^verbatim>\<open>store.go\<close>): leadership is exclusive, and the ways in which
  it is lost or doubled.

  \<^item> Task, Task_Store, Task_Watcher (\<^verbatim>\<open>task/task.go\<close>, \<^verbatim>\<open>task_store.go\<close>, \<^verbatim>\<open>task_log_store.go\<close>, \<^verbatim>\<open>service.go\<close>,
  \<^verbatim>\<open>watcher.go\<close>): the life cycle of tasks; the paginated listing equals a filtered and limited list, and
  returns; the watchers as a step relation with its invariant, and a race that loses a subscription.

  \<^bold>\<open>Bounds and fuel.\<close> Loops whose end is not visible in the code (the layered sort, the pages of a listing)
  are partial functions, with a theorem that they return. The retry loops of the services recurse on
  the retries of the code, of which there are three (election, ipam) or six (ports). Nothing else is bounded. Numbers are
  integers where the code cannot overflow them and have their 64-bit wrap-around written out where it
  can (versions, subnet sizes).

  \<^bold>\<open>Not modelled.\<close> The HTTP and MQTT API and the code generated for it; the workflows, whose replay is
  the work of an engine outside the sources; the orchestrators for Docker Swarm and systemd, the Docker
  client, embedded etcd, Patroni, pgBackRest, SQL statements and certificates, which are calls of
  external systems; the lifecycle methods of the concrete resources, which are arguments of the event
  model; the bodies of state migrations, which are arguments of their runner; the monitors and the
  scheduler, which are timers around such calls; the database service, configuration and logging.
  Goroutines, channels and timers appear only as the steps of the relations of Task_Watcher and as the
  interference of other clients. Time and random numbers are arguments.
\<close>

end
